(* ===== verification/Prelude.thy ===== *)
theory Prelude
  imports Main "HOL-Library.Word" "HOL-Library.Multiset"
begin

text \<open>
  Shared vocabulary of the development: the values a Go call returns (a sentinel or an opaque
  error, a result, the outcome of a handler that may also panic or never return), the machine
  integers of the wire format, and the generic lemmas the components use.

  Go's \<open>int64\<close>, \<open>int32\<close> and \<open>int\<close> are mathematical integers here, with the 64-bit range
  written out where the code can leave it (\<open>strconv\<close>, shifts, time differences); the fields of
  the wire format and the bit layout of identifiers are words of their own width. Go strings
  are byte strings and are modelled by \<^typ>\<open>string\<close>, whose characters are bytes.
\<close>

named_theorems go_simps \<open>unfolding rules of the small Go helpers\<close>
named_theorems frame_simps \<open>what an operation leaves unchanged\<close>

section \<open>Errors, results and outcomes\<close>

text \<open>
  The error values the code distinguishes: \<open>redis.Nil\<close>, \<open>sql.ErrNoRows\<close>, MySQL's duplicate key
  error 1062, \<open>io.EOF\<close>, \<open>io.ErrUnexpectedEOF\<close>; every other error is opaque and only carries
  its text.
\<close>

datatype error = RedisNil | ErrNoRows | DuplicateKey | EOF | ErrUnexpectedEOF | Err string

text \<open>The text of an error, and \<open>fmt.Errorf("s: %w", e)\<close>.\<close>

fun error_text :: "error \<Rightarrow> string" where
  "error_text RedisNil = ''redis: nil''"
| "error_text ErrNoRows = ''sql: no rows in result set''"
| "error_text DuplicateKey = ''Error 1062''"
| "error_text EOF = ''EOF''"
| "error_text ErrUnexpectedEOF = ''unexpected EOF''"
| "error_text (Err s) = s"

definition errorf :: "string \<Rightarrow> error \<Rightarrow> error" where
  "errorf s e = Err (s @ '': '' @ error_text e)"

type_synonym 'a result = "error + 'a"

text \<open>
  A call on the outside world: it reads and changes a world of type \<open>'w\<close> and returns a result.
\<close>

type_synonym ('w, 'a) call = "'w \<Rightarrow> 'a result \<times> 'w"

text \<open>How a handler ends: it returns, it panics, or it never returns.\<close>

datatype 'a outcome = Ret 'a | Panic | Hang

section \<open>Machine integers\<close>

type_synonym byte = "8 word"
type_synonym bytes = "byte list"
type_synonym u16 = "16 word"
type_synonym u32 = "32 word"
type_synonym u64 = "64 word"

definition int64_min :: int where
  "int64_min = - (2 ^ 63)"

definition int64_max :: int where
  "int64_max = 2 ^ 63 - 1"

definition int64 :: "int \<Rightarrow> bool" where
  "int64 i \<longleftrightarrow> int64_min \<le> i \<and> i \<le> int64_max"

lemma int64_iff: "int64 i \<longleftrightarrow> - 9223372036854775808 \<le> i \<and> i \<le> 9223372036854775807"
  by (simp add: int64_def int64_min_def int64_max_def)

section \<open>Lists\<close>

lemma take_append_exact [simp]: "n = length xs \<Longrightarrow> take n (xs @ ys) = xs"
  by simp

lemma drop_append_exact [simp]: "n = length xs \<Longrightarrow> drop n (xs @ ys) = ys"
  by simp

lemma filter_cong_set: "(\<And>x. x \<in> set xs \<Longrightarrow> P x = Q x) \<Longrightarrow> filter P xs = filter Q xs"
  by (rule filter_cong) auto

lemma map_of_filter_key:
  "map_of (filter (\<lambda>p. fst p \<noteq> k) xs) = (map_of xs)(k := None)"
  by (induction xs) (auto simp: fun_eq_iff)

lemma map_of_filter_keys:
  "map_of (filter (\<lambda>p. fst p \<notin> K) xs) = (\<lambda>k. if k \<in> K then None else map_of xs k)"
  by (induction xs) (auto simp: fun_eq_iff)

lemma distinct_map_fst_filter: "distinct (map fst xs) \<Longrightarrow> distinct (map fst (filter P xs))"
  by (induction xs) auto

lemma strict_sorted_wrt_append_single:
  "sorted_wrt (<) xs \<Longrightarrow> (\<And>y. y \<in> set xs \<Longrightarrow> y < x) \<Longrightarrow> sorted_wrt (<) (xs @ [x :: 'a :: linorder])"
  by (simp add: sorted_wrt_append)

lemma find_append: "List.find P (xs @ ys) = (case List.find P xs of None \<Rightarrow> List.find P ys | Some r \<Rightarrow> Some r)"
  by (induction xs) auto

lemma find_map_keep:
  "(\<And>r. P (f r) = P r) \<Longrightarrow> List.find P (map f rows) = map_option f (List.find P rows)"
  by (induction rows) auto

end
