(* ===== verification/GoStrings.thy ===== *)
theory GoStrings
  imports Prelude
begin

text \<open>
  The parts of Go's \<open>strconv\<close>, \<open>strings\<close> and \<open>fmt\<close> the program uses on identifiers and keys:
  decimal formatting (\<open>strconv.FormatInt(_, 10)\<close> and \<open>%d\<close>), \<open>ParseUint\<close> and \<open>ParseInt\<close> in base
  10 with 64 bits, \<open>strings.Split\<close> on a one-byte separator, and \<open>%02d\<close>. The lemmas show that
  formatting and parsing are inverse, that formatting is injective and produces no separator,
  and that splitting undoes joining.
\<close>

section \<open>Decimal digits\<close>

definition digit_char :: "nat \<Rightarrow> char" where
  "digit_char d = ''0123456789'' ! d"

definition is_digit :: "char \<Rightarrow> bool" where
  "is_digit c \<longleftrightarrow> c \<in> set ''0123456789''"

definition digit_val :: "char \<Rightarrow> nat" where
  "digit_val c = of_char c - 48"

lemma lt10_cases:
  "(d::nat) < 10 \<Longrightarrow> d = 0 \<or> d = 1 \<or> d = 2 \<or> d = 3 \<or> d = 4 \<or> d = 5 \<or> d = 6 \<or> d = 7 \<or> d = 8 \<or> d = 9"
  by arith

lemma digit_char_props:
  assumes "d < 10"
  shows "is_digit (digit_char d)" and "digit_val (digit_char d) = d"
  using lt10_cases [OF assms] by (auto simp: digit_char_def is_digit_def digit_val_def)

lemma digit_val_lt: "is_digit c \<Longrightarrow> digit_val c < 10"
  by (auto simp: is_digit_def digit_val_def)

fun format_nat :: "nat \<Rightarrow> string" where
  "format_nat n = (if n < 10 then [digit_char n] else format_nat (n div 10) @ [digit_char (n mod 10)])"

declare format_nat.simps [simp del]

lemma format_nat_less10: "n < 10 \<Longrightarrow> format_nat n = [digit_char n]"
  by (simp add: format_nat.simps)

lemma format_nat_ge10: "10 \<le> n \<Longrightarrow> format_nat n = format_nat (n div 10) @ [digit_char (n mod 10)]"
  by (subst format_nat.simps) simp

text \<open>\<open>strconv.FormatInt(i, 10)\<close>, and \<open>fmt.Sprintf("%d", i)\<close>.\<close>

definition format_int :: "int \<Rightarrow> string" where
  "format_int i = (if i < 0 then CHR ''-'' # format_nat (nat (- i)) else format_nat (nat i))"

text \<open>\<open>fmt.Sprintf("%02d", n)\<close> for a non-negative number.\<close>

definition format_02d :: "nat \<Rightarrow> string" where
  "format_02d n = (let s = format_nat n in if length s < 2 then CHR ''0'' # s else s)"

section \<open>Parsing\<close>

definition err_syntax :: error where
  "err_syntax = Err ''strconv: invalid syntax''"

definition err_range :: error where
  "err_range = Err ''strconv: value out of range''"

fun parse_digits :: "nat \<Rightarrow> string \<Rightarrow> nat option" where
  "parse_digits n [] = Some n"
| "parse_digits n (c # cs) = (if is_digit c then parse_digits (n * 10 + digit_val c) cs else None)"

text \<open>\<open>strconv.ParseUint(s, 10, 64)\<close>.\<close>

definition parse_uint :: "string \<Rightarrow> nat result" where
  "parse_uint s =
     (if s = [] then Inl err_syntax
      else case parse_digits 0 s of
        None \<Rightarrow> Inl err_syntax
      | Some n \<Rightarrow> if n < 2 ^ 64 then Inr n else Inl err_range)"

text \<open>
  \<open>strconv.ParseInt(s, 10, 64)\<close>: an optional sign, then \<open>ParseUint\<close>, then the range check
  against the cutoff \<open>2 ^ 63\<close> (strict for positive numbers only).
\<close>

definition parse_int :: "string \<Rightarrow> int result" where
  "parse_int s =
     (if s = [] then Inl err_syntax
      else let neg = (hd s = CHR ''-'');
               body = (if hd s = CHR ''+'' \<or> hd s = CHR ''-'' then tl s else s)
           in case parse_uint body of
                Inl e \<Rightarrow> Inl e
              | Inr n \<Rightarrow>
                  if \<not> neg \<and> n \<ge> 2 ^ 63 then Inl err_range
                  else if neg \<and> n > 2 ^ 63 then Inl err_range
                  else Inr (if neg then - int n else int n))"

text \<open>\<open>strings.Split(s, sep)\<close> for a separator of one byte.\<close>

fun split_on :: "char \<Rightarrow> string \<Rightarrow> string list" where
  "split_on sep [] = [[]]"
| "split_on sep (c # cs) =
     (if c = sep then [] # split_on sep cs
      else case split_on sep cs of [] \<Rightarrow> [[c]] | p # ps \<Rightarrow> (c # p) # ps)"

section \<open>Formatting and parsing are inverse\<close>

lemma parse_digits_append:
  "parse_digits n (s @ t) = (case parse_digits n s of None \<Rightarrow> None | Some m \<Rightarrow> parse_digits m t)"
  by (induction s arbitrary: n) auto

lemma parse_digits_format: "parse_digits 0 (format_nat n) = Some n"
proof (induction n rule: format_nat.induct)
  case (1 n)
  show ?case
  proof (cases "n < 10")
    case True
    then show ?thesis by (simp add: format_nat_less10 digit_char_props)
  next
    case False
    with 1 have "parse_digits 0 (format_nat (n div 10)) = Some (n div 10)" by simp
    moreover have "n div 10 * 10 + n mod 10 = n" by simp
    ultimately show ?thesis
      using False by (simp add: format_nat_ge10 parse_digits_append digit_char_props)
  qed
qed

lemma format_nat_digits: "c \<in> set (format_nat n) \<Longrightarrow> is_digit c"
proof (induction n rule: format_nat.induct)
  case (1 n)
  then show ?case
    by (cases "n < 10") (auto simp: format_nat_less10 format_nat_ge10 digit_char_props)
qed

lemma format_nat_nonempty [simp]: "format_nat n \<noteq> []"
  by (subst format_nat.simps) simp

lemma format_int_nonempty [simp]: "format_int i \<noteq> []"
  by (simp add: format_int_def)

lemma format_nat_inject [simp]: "format_nat m = format_nat n \<longleftrightarrow> m = n"
  by (metis option.inject parse_digits_format)

lemma format_nat_hd_digit: "is_digit (hd (format_nat n))"
  using format_nat_digits [of "hd (format_nat n)" n] by simp

lemma not_digit [simp]:
  "\<not> is_digit CHR ''-''" "\<not> is_digit CHR ''+''" "\<not> is_digit CHR '':''"
  by (auto simp: is_digit_def)

lemma format_nat_hd_noteq: "\<not> is_digit c \<Longrightarrow> hd (format_nat n) \<noteq> c"
  using format_nat_hd_digit [of n] by auto

lemma format_int_inject [simp]: "format_int i = format_int j \<longleftrightarrow> i = j"
proof -
  have neq: "CHR ''-'' # s \<noteq> format_nat n" for s n
    using format_nat_hd_noteq [of "CHR ''-''" n] by (metis list.sel(1) not_digit(1))
  show ?thesis
    by (auto simp: format_int_def neq neq [symmetric])
qed

lemma format_int_chars: "c \<in> set (format_int i) \<Longrightarrow> is_digit c \<or> c = CHR ''-''"
  by (auto simp: format_int_def format_nat_digits split: if_splits)

lemma format_int_no_colon [simp]: "CHR '':'' \<notin> set (format_int i)"
  using format_int_chars [of "CHR '':''" i] by auto

lemma parse_uint_format: "n < 2 ^ 64 \<Longrightarrow> parse_uint (format_nat n) = Inr n"
  by (simp add: parse_uint_def parse_digits_format)

lemma parse_int_format:
  assumes "int64 i"
  shows "parse_int (format_int i) = Inr i"
proof (cases "i < 0")
  case True
  with assms have n: "nat (- i) \<le> 2 ^ 63" by (simp add: int64_iff)
  then have "parse_uint (format_nat (nat (- i))) = Inr (nat (- i))"
    by (intro parse_uint_format) simp
  with True n show ?thesis by (simp add: parse_int_def format_int_def)
next
  case False
  with assms have n: "nat i < 2 ^ 63" by (simp add: int64_iff)
  then have "parse_uint (format_nat (nat i)) = Inr (nat i)"
    by (intro parse_uint_format) simp
  with False n show ?thesis
    by (simp add: parse_int_def format_int_def format_nat_hd_noteq)
qed

lemma parse_int_range: "parse_int s = Inr i \<Longrightarrow> int64 i"
  by (auto simp: parse_int_def Let_def int64_iff split: if_splits sum.splits)

section \<open>Splitting\<close>

lemma split_on_nonempty [simp]: "split_on c s \<noteq> []"
  by (induction s) (auto split: list.splits)

lemma split_on_no_sep: "c \<notin> set s \<Longrightarrow> split_on c s = [s]"
  by (induction s) auto

lemma split_on_append: "c \<notin> set s \<Longrightarrow> split_on c (s @ c # t) = s # split_on c t"
  by (induction s) auto

lemma split_on_format_int [simp]:
  "split_on CHR '':'' (format_int i) = [format_int i]"
  "split_on CHR '':'' (format_int i @ CHR '':'' # t) = format_int i # split_on CHR '':'' t"
  by (simp_all add: split_on_no_sep split_on_append)

lemma split_on_concat: "concat (map (\<lambda>p. p @ [c]) (split_on c s)) = s @ [c]"
  by (induction s) (auto split: list.splits)

lemma split_on_parts: "p \<in> set (split_on c s) \<Longrightarrow> c \<notin> set p"
  by (induction s arbitrary: p) (auto split: list.splits if_splits)

lemma split_on_2D: "split_on c s = [p, q] \<Longrightarrow> s = p @ c # q"
  using split_on_concat [of c s] by simp

lemma split_on_3D: "split_on c s = [p, q, r] \<Longrightarrow> s = p @ c # q @ c # r"
  using split_on_concat [of c s] by simp

lemma prefix_colon_inject:
  assumes "CHR '':'' \<notin> set p" and "CHR '':'' \<notin> set q"
  shows "p @ CHR '':'' # s = q @ CHR '':'' # t \<longleftrightarrow> p = q \<and> s = t"
proof (intro iffI conjI)
  assume eq: "p @ CHR '':'' # s = q @ CHR '':'' # t"
  have "split_on CHR '':'' (p @ CHR '':'' # s) = split_on CHR '':'' (q @ CHR '':'' # t)"
    by (simp only: eq)
  then show "p = q" using assms by (simp add: split_on_append)
  with eq show "s = t" by simp
qed auto

end
