(* ===== verification/Frame.thy ===== *)
theory Frame
  imports GoStrings
begin

unbundle bit_operations_syntax

text \<open>
  The binary frame codec of \<^verbatim>\<open>pkg/protocol\<close> (\<open>cmd.go\<close>, \<open>errors.go\<close>, \<open>frame.go\<close>): the command
  words, the 11-byte big-endian header and the two whole-buffer functions \<open>Encode\<close> and \<open>Decode\<close>.
  The lemmas show that the two are inverse on every frame whose body fits, and that a buffer is
  accepted exactly when it is the encoding of a frame.
\<close>

section \<open>Command words\<close>

definition CmdAuth :: u16 where "CmdAuth = 0x01"
definition CmdAuthAck :: u16 where "CmdAuthAck = 0x02"
definition CmdHeartbeat :: u16 where "CmdHeartbeat = 0x03"
definition CmdHeartbeatAck :: u16 where "CmdHeartbeatAck = 0x04"
definition CmdMsgSend :: u16 where "CmdMsgSend = 0x05"
definition CmdMsgSendAck :: u16 where "CmdMsgSendAck = 0x06"
definition CmdMsgPush :: u16 where "CmdMsgPush = 0x07"
definition CmdMsgReceivedAck :: u16 where "CmdMsgReceivedAck = 0x08"
definition CmdSyncPull :: u16 where "CmdSyncPull = 0x09"
definition CmdSyncResp :: u16 where "CmdSyncResp = 0x0A"
definition CmdRecall :: u16 where "CmdRecall = 0x0B"
definition CmdTyping :: u16 where "CmdTyping = 0x0C"
definition CmdReconnectNow :: u16 where "CmdReconnectNow = 0x0D"
definition CmdSyncNotify :: u16 where "CmdSyncNotify = 0x0E"

lemmas cmd_defs =
  CmdAuth_def CmdAuthAck_def CmdHeartbeat_def CmdHeartbeatAck_def CmdMsgSend_def CmdMsgSendAck_def
  CmdMsgPush_def CmdMsgReceivedAck_def CmdSyncPull_def CmdSyncResp_def CmdRecall_def CmdTyping_def
  CmdReconnectNow_def CmdSyncNotify_def

text \<open>The map \<open>cmdNames\<close>, as the list of its entries.\<close>

definition cmdNames :: "(u16 \<times> string) list" where
  "cmdNames =
    [(CmdAuth, ''AUTH''), (CmdAuthAck, ''AUTH_ACK''), (CmdHeartbeat, ''HEARTBEAT''),
     (CmdHeartbeatAck, ''HEARTBEAT_ACK''), (CmdMsgSend, ''MSG_SEND''),
     (CmdMsgSendAck, ''MSG_SEND_ACK''), (CmdMsgPush, ''MSG_PUSH''),
     (CmdMsgReceivedAck, ''MSG_RECEIVED_ACK''), (CmdSyncPull, ''SYNC_PULL''),
     (CmdSyncResp, ''SYNC_RESP''), (CmdRecall, ''RECALL''), (CmdTyping, ''TYPING''),
     (CmdSyncNotify, ''SYNC_NOTIFY''), (CmdReconnectNow, ''RECONNECT_NOW'')]"

text \<open>\<open>fmt.Sprintf("%04X", uint16(cmd))\<close>: four upper-case hexadecimal digits.\<close>

definition hex4 :: "u16 \<Rightarrow> string" where
  "hex4 w = map (\<lambda>i. ''0123456789ABCDEF'' ! unat (drop_bit i w AND 15)) [12, 8, 4, 0]"

definition CmdString :: "u16 \<Rightarrow> string" where
  "CmdString cmd = (case map_of cmdNames cmd of Some name \<Rightarrow> name | None \<Rightarrow> ''UNKNOWN_0x'' @ hex4 cmd)"

section \<open>Frames and their errors\<close>

definition ErrBodyTooLarge :: error where
  "ErrBodyTooLarge = Err ''protocol: body exceeds maximum length''"

definition ErrMalformedFrame :: error where
  "ErrMalformedFrame = Err ''protocol: malformed frame''"

lemma frame_errors_distinct [simp]:
  "ErrBodyTooLarge \<noteq> ErrMalformedFrame" "ErrMalformedFrame \<noteq> ErrBodyTooLarge"
  "ErrBodyTooLarge \<noteq> EOF" "ErrMalformedFrame \<noteq> EOF" "ErrBodyTooLarge \<noteq> ErrUnexpectedEOF"
  by (simp_all add: ErrBodyTooLarge_def ErrMalformedFrame_def)

definition ProtoVer :: byte where "ProtoVer = 1"
definition HeaderLen :: nat where "HeaderLen = 11"
definition MaxBodyLen :: nat where "MaxBodyLen = 64 * 1024"

record Frame =
  fVer :: byte
  fCmd :: u16
  fSeq :: u32
  fBody :: bytes

section \<open>Big-endian integers\<close>

text \<open>\<open>binary.BigEndian\<close>'s writers and readers for 16 and 32 bits.\<close>

definition PutUint16 :: "u16 \<Rightarrow> bytes" where
  "PutUint16 v = [ucast (drop_bit 8 v), ucast v]"

definition PutUint32 :: "u32 \<Rightarrow> bytes" where
  "PutUint32 v = [ucast (drop_bit 24 v), ucast (drop_bit 16 v), ucast (drop_bit 8 v), ucast v]"

definition Uint16 :: "bytes \<Rightarrow> u16" where
  "Uint16 b = ucast (b ! 1) OR push_bit 8 (ucast (b ! 0))"

definition Uint32 :: "bytes \<Rightarrow> u32" where
  "Uint32 b = ucast (b ! 3) OR push_bit 8 (ucast (b ! 2)) OR push_bit 16 (ucast (b ! 1))
     OR push_bit 24 (ucast (b ! 0))"

lemma length_Put [simp]: "length (PutUint16 v) = 2" "length (PutUint32 w) = 4"
  by (simp_all add: PutUint16_def PutUint32_def)

lemma Uint16_Put [simp]: "Uint16 (PutUint16 v) = v"
  by (rule bit_word_eqI) (auto simp: Uint16_def PutUint16_def bit_simps)

lemma byte_bit_high [simp]: "\<not> bit (b :: byte) (8 + n)" "\<not> bit (b :: byte) (16 + n)" "\<not> bit (b :: byte) (24 + n)"
  by (auto dest: bit_imp_le_length)

lemma Uint32_Put [simp]: "Uint32 (PutUint32 v) = v"
proof (rule bit_word_eqI)
  fix n
  assume "n < LENGTH(32)"
  then consider "n < 8" | "8 \<le> n" "n < 16" | "16 \<le> n" "n < 24" | "24 \<le> n" "n < 32"
    by fastforce
  then show "bit (Uint32 (PutUint32 v)) n = bit v n"
    by cases (auto simp: Uint32_def PutUint32_def bit_simps)
qed

lemma Put_Uint16: "PutUint16 (Uint16 [a, b]) = [a, b]"
  by (auto simp: Uint16_def PutUint16_def bit_simps intro!: bit_word_eqI)

lemma Put_Uint32: "PutUint32 (Uint32 [a, b, c, d]) = [a, b, c, d]"
  by (auto simp: Uint32_def PutUint32_def bit_simps intro!: bit_word_eqI)

section \<open>Encode and Decode\<close>

text \<open>Go's \<open>copy(dst, src)\<close>: the common prefix of \<open>dst\<close> is overwritten.\<close>

definition go_copy :: "'a list \<Rightarrow> 'a list \<Rightarrow> 'a list" where
  "go_copy dst src = take (length dst) src @ drop (length src) dst"

text \<open>\<open>putHeader\<close> writes the first 11 bytes of the buffer and leaves the rest.\<close>

definition putHeader :: "bytes \<Rightarrow> Frame \<Rightarrow> bytes" where
  "putHeader buf f =
     [fVer f] @ PutUint16 (fCmd f) @ PutUint32 (fSeq f) @ PutUint32 (of_nat (length (fBody f)))
       @ drop HeaderLen buf"

definition Encode :: "Frame \<Rightarrow> bytes result" where
  "Encode f =
     (if length (fBody f) > MaxBodyLen then Inl ErrBodyTooLarge
      else let buf = replicate (HeaderLen + length (fBody f)) 0;
               buf = putHeader buf f
           in Inr (take HeaderLen buf @ go_copy (drop HeaderLen buf) (fBody f)))"

definition frameFromHeader :: "bytes \<Rightarrow> bytes \<Rightarrow> Frame" where
  "frameFromHeader header body =
     \<lparr>fVer = header ! 0, fCmd = Uint16 (drop 1 (take 3 header)),
      fSeq = Uint32 (drop 3 (take 7 header)), fBody = body\<rparr>"

definition Decode :: "bytes \<Rightarrow> Frame result" where
  "Decode data =
     (if length data < HeaderLen then Inl ErrMalformedFrame
      else let bodyLen = Uint32 (drop 7 (take 11 data)) in
        if unat bodyLen > MaxBodyLen then Inl ErrBodyTooLarge
        else if of_nat (length data - HeaderLen) \<noteq> bodyLen then Inl ErrMalformedFrame
        else let body = go_copy (replicate (unat bodyLen) 0) (drop HeaderLen data)
             in Inr (frameFromHeader data body))"

section \<open>The header as a list\<close>

definition header_of :: "Frame \<Rightarrow> bytes" where
  "header_of f =
     [fVer f] @ PutUint16 (fCmd f) @ PutUint32 (fSeq f) @ PutUint32 (of_nat (length (fBody f)))"

lemma length_header_of [simp]: "length (header_of f) = 11"
  by (simp add: header_of_def)

lemma Encode_eq:
  "Encode f = (if length (fBody f) > MaxBodyLen then Inl ErrBodyTooLarge else Inr (header_of f @ fBody f))"
  by (simp add: Encode_def putHeader_def header_of_def go_copy_def HeaderLen_def Let_def)

lemma Encode_InrD: "Encode f = Inr bs \<Longrightarrow> bs = header_of f @ fBody f \<and> length (fBody f) \<le> MaxBodyLen"
  by (auto simp: Encode_eq split: if_splits)

lemma frameFromHeader_header_of: "frameFromHeader (header_of f @ t) b = f\<lparr>fBody := b\<rparr>"
proof -
  have "header_of f @ t = fVer f # PutUint16 (fCmd f) @ PutUint32 (fSeq f) @ 
      (PutUint32 (of_nat (length (fBody f))) @ t)"
    by (simp add: header_of_def)
  moreover obtain a b c d where "PutUint32 (fSeq f) = [a, b, c, d]"
    by (simp add: PutUint32_def)
  moreover obtain u v where "PutUint16 (fCmd f) = [u, v]"
    by (simp add: PutUint16_def)
  ultimately have "take 3 (header_of f @ t) = fVer f # PutUint16 (fCmd f)"
    and "drop 3 (take 7 (header_of f @ t)) = PutUint32 (fSeq f)"
    and "(header_of f @ t) ! 0 = fVer f"
    by simp_all
  then show ?thesis by (simp add: frameFromHeader_def)
qed

lemma header_length_field [simp]: "drop 7 (header_of f) = PutUint32 (of_nat (length (fBody f)))"
  by (simp add: header_of_def PutUint16_def PutUint32_def)

lemma unat_body_length: "n \<le> MaxBodyLen \<Longrightarrow> unat (of_nat n :: u32) = n"
  by (simp add: unat_of_nat MaxBodyLen_def)

lemma body_length_pos:
  assumes "length b \<le> MaxBodyLen" and "b \<noteq> []"
  shows "(0 :: u32) < of_nat (length b)"
  using assms by (simp add: word_less_nat_alt unat_body_length)

text \<open>Every list of eleven bytes is the header of a frame.\<close>

lemma header_of_frameFromHeader:
  assumes "length h = 11" and "Uint32 (drop 7 h) = of_nat (length b)"
  shows "header_of (frameFromHeader h b) = h"
proof -
  from assms(1) obtain x0 x1 x2 x3 x4 x5 x6 x7 x8 x9 x10
    where h: "h = [x0, x1, x2, x3, x4, x5, x6, x7, x8, x9, x10]"
    by (auto simp: length_Suc_conv eval_nat_numeral)
  have len: "PutUint32 (of_nat (length b)) = [x7, x8, x9, x10]"
    using assms(2) Put_Uint32 [of x7 x8 x9 x10] by (simp add: h)
  show ?thesis
    by (simp add: h header_of_def frameFromHeader_def Put_Uint16 Put_Uint32 len)
qed

section \<open>Encode and Decode are inverse\<close>

lemma Decode_header_body:
  assumes "length (fBody f) \<le> MaxBodyLen"
  shows "Decode (header_of f @ fBody f) = Inr f"
  using assms unat_body_length [OF assms]
  by (simp add: Decode_def HeaderLen_def frameFromHeader_header_of go_copy_def
      Let_def)

lemma Decode_InrD:
  assumes dec: "Decode data = Inr f" and small: "length data < 2 ^ 32"
  shows "data = header_of f @ fBody f \<and> length (fBody f) \<le> MaxBodyLen"
proof -
  let ?h = "take 11 data" and ?n = "Uint32 (drop 7 (take 11 data))"
  from dec have len: "11 \<le> length data" and max: "unat ?n \<le> MaxBodyLen"
    and n: "of_nat (length data - 11) = ?n"
    and f: "f = frameFromHeader data (go_copy (replicate (unat ?n) 0) (drop 11 data))"
    by (auto simp: Decode_def HeaderLen_def Let_def split: if_splits)
  from small have "unat (of_nat (length data - 11) :: u32) = length data - 11"
    by (simp add: unat_of_nat)
  with n have un: "unat ?n = length data - 11" by simp
  with f have f': "f = frameFromHeader data (drop 11 data)"
    by (simp add: go_copy_def)
  have hd: "frameFromHeader data b = frameFromHeader ?h b" for b
    using len by (simp add: frameFromHeader_def)
  have "header_of f = ?h"
    unfolding f' hd using len n by (intro header_of_frameFromHeader) auto
  moreover have "fBody f = drop 11 data" by (simp add: f' frameFromHeader_def)
  ultimately show ?thesis using max un by simp
qed

text \<open>
  The round trip in both directions, on the buffers Go can hold in a frame: encoding then decoding
  gives the frame back, and a buffer that decodes is the encoding of what it decodes to.
\<close>

lemma Decode_Encode_iff:
  assumes "length data < 2 ^ 32"
  shows "Decode data = Inr f \<longleftrightarrow> Encode f = Inr data"
proof
  assume "Decode data = Inr f"
  from Decode_InrD [OF this assms] show "Encode f = Inr data" by (simp add: Encode_eq)
next
  assume "Encode f = Inr data"
  from Encode_InrD [OF this] show "Decode data = Inr f" by (simp add: Decode_header_body)
qed

lemma Encode_length: "Encode f = Inr bs \<Longrightarrow> length bs = HeaderLen + length (fBody f)"
  by (auto dest: Encode_InrD simp: HeaderLen_def)

section \<open>Properties\<close>



end
