(* ===== verification/StreamReader.thy ===== *)
theory StreamReader
  imports Frame
begin

text \<open>
  Reading frames from a byte stream: \<open>StreamReader.ReadFrame\<close> of \<^verbatim>\<open>pkg/protocol/frame.go\<close> over
  \<open>io.ReadFull\<close>, and the reader comet feeds it, \<open>wsMessageReader\<close> of
  \<^verbatim>\<open>internal/comet/server.go\<close>, which concatenates the binary messages of a WebSocket.

  The interface between the two is Go's \<open>io.Reader\<close>, the locale \<open>io_reader\<close>: a reader stands for
  the bytes it will still deliver (\<open>content\<close>) and the error that ends them (\<open>fin\<close>). A loop over a
  reader need not end, so \<open>read_at_least\<close> is a partial function; under the reader's contract it
  always returns. The locale's lemmas read frames back from any split of their encodings into
  chunks; \<open>wsMessageReader_Read\<close> interprets it.
\<close>

type_synonym 'r read_fun = "nat \<Rightarrow> 'r \<Rightarrow> (bytes \<times> error option) \<times> 'r"

section \<open>io.ReadFull\<close>

text \<open>
  The loop of \<open>io.ReadAtLeast\<close> with the minimum equal to the buffer's length: what has been read so
  far, and the error that stopped it.
\<close>

partial_function (option) read_at_least ::
  "'r read_fun \<Rightarrow> nat \<Rightarrow> bytes \<Rightarrow> 'r \<Rightarrow> (bytes \<times> error option \<times> 'r) option" where
  "read_at_least rd want acc r =
     (if want \<le> length acc then Some (acc, None, r)
      else case rd (want - length acc) r of
        ((bs, err), r') \<Rightarrow>
          (case err of
             Some e \<Rightarrow> Some (acc @ bs, Some e, r')
           | None \<Rightarrow> read_at_least rd want (acc @ bs) r'))"

text \<open>
  \<open>io.ReadFull\<close>: an error that comes with the last byte is dropped, and \<open>EOF\<close> after some bytes
  is \<open>ErrUnexpectedEOF\<close>.
\<close>

definition ReadFull :: "'r read_fun \<Rightarrow> nat \<Rightarrow> 'r \<Rightarrow> (bytes result \<times> 'r) option" where
  "ReadFull rd want r =
     (case read_at_least rd want [] r of
        None \<Rightarrow> None
      | Some (got, err, r') \<Rightarrow>
          Some (if want \<le> length got then Inr got
                else case err of
                  Some EOF \<Rightarrow> Inl (if got \<noteq> [] then ErrUnexpectedEOF else EOF)
                | Some e \<Rightarrow> Inl e
                | None \<Rightarrow> Inr got, r'))"

section \<open>ReadFrame\<close>

definition ReadFrame :: "'r read_fun \<Rightarrow> 'r \<Rightarrow> (Frame result \<times> 'r) option" where
  "ReadFrame rd r =
     (case ReadFull rd HeaderLen r of
        None \<Rightarrow> None
      | Some (Inl err, r') \<Rightarrow> Some (Inl err, r')
      | Some (Inr header, r') \<Rightarrow>
          let bodyLen = Uint32 (drop 7 (take 11 header)) in
          if unat bodyLen > MaxBodyLen then Some (Inl ErrBodyTooLarge, r')
          else if 0 < bodyLen then
            (case ReadFull rd (unat bodyLen) r' of
               None \<Rightarrow> None
             | Some (Inl err, r'') \<Rightarrow>
                 Some (Inl (if err = EOF then ErrUnexpectedEOF else err), r'')
             | Some (Inr body, r'') \<Rightarrow> Some (Inr (frameFromHeader header body), r''))
          else Some (Inr (frameFromHeader header []), r'))"

text \<open>Reading until the first error, as \<open>readLoop\<close> does: the frames in order, and the error.\<close>

fun read_frames :: "'r read_fun \<Rightarrow> nat \<Rightarrow> 'r \<Rightarrow> (Frame list \<times> error) option" where
  "read_frames rd 0 r = None"
| "read_frames rd (Suc fuel) r =
     (case ReadFrame rd r of
        None \<Rightarrow> None
      | Some (Inl e, _) \<Rightarrow> Some ([], e)
      | Some (Inr f, r') \<Rightarrow> map_option (\<lambda>(fs, e). (f # fs, e)) (read_frames rd fuel r'))"

section \<open>The contract of io.Reader\<close>

locale io_reader =
  fixes rd :: "'r read_fun"
    and content :: "'r \<Rightarrow> bytes"
    and fin :: "'r \<Rightarrow> error"
    and ok :: "'r \<Rightarrow> bool"
  assumes read_more:
      "ok r \<Longrightarrow> 0 < n \<Longrightarrow> rd n r = ((bs, None), r') \<Longrightarrow>
         bs \<noteq> [] \<and> length bs \<le> n \<and> content r = bs @ content r' \<and> fin r' = fin r \<and> ok r'"
    and read_end:
      "ok r \<Longrightarrow> 0 < n \<Longrightarrow> rd n r = ((bs, Some e), r') \<Longrightarrow>
         bs = [] \<and> content r = [] \<and> e = fin r"
begin

text \<open>The loop returns the next \<open>want\<close> bytes if the stream still has them.\<close>

lemma read_at_least_enough:
  assumes "ok r" and "content r = xs @ ys" and "want = length acc + length xs"
  shows "\<exists>r'. read_at_least rd want acc r = Some (acc @ xs, None, r') \<and> ok r' \<and> fin r' = fin r \<and>
    content r' = ys"
  using assms
proof (induction "length xs" arbitrary: acc xs r rule: less_induct)
  case less
  show ?case
  proof (cases "xs = []")
    case True
    with less.prems show ?thesis by (subst read_at_least.simps) simp
  next
    case False
    obtain bs err r' where rd: "rd (length xs) r = ((bs, err), r')" by (metis surj_pair)
    with False less.prems read_end [of r "length xs" bs _ r'] have err: "err = None"
      by (cases err) auto
    with rd False less.prems read_more [of r "length xs" bs r']
    have bs: "bs \<noteq> []" "length bs \<le> length xs" "xs @ ys = bs @ content r'" "fin r' = fin r" "ok r'"
      by auto
    then obtain zs where xs: "xs = bs @ zs" "content r' = zs @ ys"
      by (auto simp: append_eq_append_conv2)
    with bs(1) less.hyps [of zs r' "acc @ bs"] less.prems(3) bs(4,5) obtain r2 where
      "read_at_least rd want (acc @ bs) r' = Some (acc @ xs, None, r2)" "ok r2" "fin r2 = fin r"
      "content r2 = ys" by auto
    moreover from rd err False less.prems(3)
    have "read_at_least rd want acc r = read_at_least rd want (acc @ bs) r'"
      by (subst read_at_least.simps) simp
    ultimately show ?thesis by simp
  qed
qed

text \<open>Otherwise it returns all there is, and the error.\<close>

lemma read_at_least_short:
  assumes "ok r" and "length acc + length (content r) < want"
  shows "\<exists>r'. read_at_least rd want acc r = Some (acc @ content r, Some (fin r), r')"
  using assms
proof (induction "length (content r)" arbitrary: acc r rule: less_induct)
  case less
  from less.prems(2) have more: "\<not> want \<le> length acc" by simp
  obtain bs err r' where rd: "rd (want - length acc) r = ((bs, err), r')" by (metis surj_pair)
  show ?case
  proof (cases err)
    case None
    with rd more less.prems(1) read_more [of r "want - length acc" bs r']
    have bs: "bs \<noteq> []" "content r = bs @ content r'" "fin r' = fin r" "ok r'" by auto
    with less.hyps [of r' "acc @ bs"] less.prems(2) obtain r2 where
      "read_at_least rd want (acc @ bs) r' = Some (acc @ content r, Some (fin r), r2)" by auto
    moreover from rd None more
    have "read_at_least rd want acc r = read_at_least rd want (acc @ bs) r'"
      by (subst read_at_least.simps) simp
    ultimately show ?thesis by simp
  next
    case (Some e)
    with rd more less.prems(1) read_end [of r "want - length acc" bs e r']
    have "bs = []" "content r = []" "e = fin r" by auto
    with rd Some more show ?thesis by (subst read_at_least.simps) simp
  qed
qed

lemma ReadFull_exact:
  assumes "ok r" and "content r = xs @ ys"
  shows "\<exists>r'. ReadFull rd (length xs) r = Some (Inr xs, r') \<and> ok r' \<and> fin r' = fin r \<and> content r' = ys"
  using read_at_least_enough [OF assms, of _ "[]"] by (auto simp: ReadFull_def)

lemma ReadFull_short:
  assumes "ok r" and "length (content r) < n"
  shows "\<exists>r'. ReadFull rd n r =
    Some (Inl (if content r \<noteq> [] \<and> fin r = EOF then ErrUnexpectedEOF else fin r), r')"
  using read_at_least_short [OF assms(1), of "[]" n] assms(2)
  by (cases "fin r") (auto simp: ReadFull_def)

text \<open>The loop always returns: a short stream ends it with an error.\<close>

lemma ReadFull_returns: "ok r \<Longrightarrow> \<exists>res. ReadFull rd n r = Some res"
  using ReadFull_short [of r n] ReadFull_exact [of r "take n (content r)" "drop n (content r)"]
  by (cases "length (content r) < n") (auto simp: min_absorb2)

text \<open>One encoded frame is read back, wherever the chunk boundaries fall.\<close>

lemma ReadFrame_encoded:
  assumes "ok r" and "Encode f = Inr bs" and "content r = bs @ ys"
  shows "\<exists>r'. ReadFrame rd r = Some (Inr f, r') \<and> ok r' \<and> fin r' = fin r \<and> content r' = ys"
proof -
  from Encode_InrD [OF assms(2)] have bs: "bs = header_of f @ fBody f" and max: "length (fBody f) \<le> MaxBodyLen"
    by auto
  from assms(1,3) bs ReadFull_exact [of r "header_of f" "fBody f @ ys"] obtain r1 where
    r1: "ReadFull rd HeaderLen r = Some (Inr (header_of f), r1)" "ok r1" "fin r1 = fin r"
      "content r1 = fBody f @ ys"
    by (auto simp: HeaderLen_def)
  note len = unat_body_length [OF max]
  have hd: "frameFromHeader (header_of f) b = f\<lparr>fBody := b\<rparr>" for b
    using frameFromHeader_header_of [of f "[]"] by simp
  show ?thesis
  proof (cases "fBody f = []")
    case True
    with r1 show ?thesis by (simp add: ReadFrame_def hd)
  next
    case False
    then have pos: "(0::u32) < of_nat (length (fBody f))" by (rule body_length_pos [OF max])
    from ReadFull_exact [OF r1(2,4)] r1(3) obtain r2 where
      "ReadFull rd (length (fBody f)) r1 = Some (Inr (fBody f), r2)" "ok r2" "fin r2 = fin r" "content r2 = ys"
      by auto
    with r1(1) pos max len show ?thesis by (simp add: ReadFrame_def hd)
  qed
qed

text \<open>A clean end between frames, and an end in the middle of one.\<close>

lemma ReadFrame_end: "ok r \<Longrightarrow> content r = [] \<Longrightarrow> \<exists>r'. ReadFrame rd r = Some (Inl (fin r), r')"
  using ReadFull_short [of r HeaderLen] by (auto simp: ReadFrame_def HeaderLen_def)

lemma ReadFrame_truncated:
  assumes "ok r" and "Encode f = Inr bs" and "bs = content r @ ys" and "content r \<noteq> []" and "ys \<noteq> []"
    and "fin r = EOF"
  shows "\<exists>r'. ReadFrame rd r = Some (Inl ErrUnexpectedEOF, r')"
proof (cases "length (content r) < HeaderLen")
  case True
  with ReadFull_short [OF assms(1) this] assms(4,6) show ?thesis by (auto simp: ReadFrame_def)
next
  case False
  from Encode_InrD [OF assms(2)] have bs: "bs = header_of f @ fBody f" and max: "length (fBody f) \<le> MaxBodyLen"
    by auto
  define zs where "zs = drop 11 (content r)"
  from bs assms(3) have "take 11 (content r @ ys) = header_of f" "drop 11 (content r @ ys) = fBody f"
    by (metis append_eq_conv_conj length_header_of)+
  with False have zs: "content r = header_of f @ zs" "fBody f = zs @ ys"
    using append_take_drop_id [of 11 "content r"] by (auto simp: zs_def HeaderLen_def)
  from ReadFull_exact [OF assms(1) zs(1)] obtain r1 where
    r1: "ReadFull rd HeaderLen r = Some (Inr (header_of f), r1)" "ok r1" "fin r1 = EOF" "content r1 = zs"
    using assms(6) by (auto simp: HeaderLen_def)
  note len = unat_body_length [OF max]
  from zs(2) assms(5) have "fBody f \<noteq> []" by auto
  then have pos: "(0::u32) < of_nat (length (fBody f))" by (rule body_length_pos [OF max])
  from zs(2) assms(5) r1(4) have "length (content r1) < length (fBody f)" by simp
  from ReadFull_short [OF r1(2) this] r1(3) obtain r2 e where
    "ReadFull rd (length (fBody f)) r1 = Some (Inl e, r2)" "e = EOF \<or> e = ErrUnexpectedEOF"
    by (auto split: if_splits)
  with r1(1) pos max len show ?thesis by (auto simp: ReadFrame_def)
qed

lemma read_frames_encoded:
  assumes "ok r" and "list_all2 (\<lambda>f bs. Encode f = Inr bs) fs bss" and "content r = concat bss"
    and "length fs < fuel"
  shows "read_frames rd fuel r = Some (fs, fin r)"
  using assms(2,1,3,4)
proof (induction fs bss arbitrary: r fuel rule: list_all2_induct)
  case Nil
  then show ?case using ReadFrame_end [of r] by (cases fuel) auto
next
  case (Cons f fs bs bss)
  from Cons.prems(3) obtain k where fuel: "fuel = Suc k" by (cases fuel) auto
  from ReadFrame_encoded [OF Cons.prems(1) Cons.hyps(1)] Cons.prems(2) obtain r' where
    "ReadFrame rd r = Some (Inr f, r')" "ok r'" "fin r' = fin r" "content r' = concat bss"
    by auto
  with Cons.IH [of r' k] Cons.prems(3) fuel show ?case by simp
qed

end

section \<open>The WebSocket as a byte stream\<close>

text \<open>
  What the WebSocket will still deliver: its messages, each with its type, the chunks its reader
  returns and the error that ends it (\<open>EOF\<close> for a complete message), and the error \<open>NextReader\<close>
  returns after the last one. \<open>wsCur\<close> is the reader of the current message.
\<close>

record wsMessageReader =
  wsCur :: "(bytes list \<times> error) option"
  wsIn :: "(int \<times> bytes list \<times> error) list"
  wsErr :: error

definition BinaryMessage :: int where
  "BinaryMessage = 2"

definition errNonBinary :: error where
  "errNonBinary = Err ''comet: non-binary ws message type''"

text \<open>\<open>Read\<close> of a message reader: at most \<open>n\<close> bytes of the next chunk.\<close>

fun chunk_read :: "nat \<Rightarrow> bytes list \<times> error \<Rightarrow> (bytes \<times> error option) \<times> bytes list \<times> error" where
  "chunk_read n ([], e) = (([], Some e), ([], e))"
| "chunk_read n (c # cs, e) =
     (if length c \<le> n then ((c, None), (cs, e)) else ((take n c, None), (drop n c # cs, e)))"

text \<open>
  One turn of the loop on a current message: its bytes, or its error unless that is \<open>EOF\<close>, or
  nothing, and then the loop takes the next message.
\<close>

definition ws_read_cur ::
  "nat \<Rightarrow> bytes list \<times> error \<Rightarrow> ((bytes \<times> error option) \<times> (bytes list \<times> error) option) option" where
  "ws_read_cur n cur =
     (case chunk_read n cur of
        ((bs, err), cur') \<Rightarrow>
          if bs \<noteq> [] then Some ((bs, None), Some cur')
          else case err of
            Some e \<Rightarrow> if e \<noteq> EOF then Some (([], Some e), Some cur') else None
          | None \<Rightarrow> None)"

fun ws_next_loop ::
  "nat \<Rightarrow> error \<Rightarrow> (int \<times> bytes list \<times> error) list \<Rightarrow> (bytes \<times> error option) \<times> wsMessageReader" where
  "ws_next_loop n werr [] = (([], Some werr), \<lparr>wsCur = None, wsIn = [], wsErr = werr\<rparr>)"
| "ws_next_loop n werr ((mt, m) # ms) =
     (if mt \<noteq> BinaryMessage
      then (([], Some errNonBinary), \<lparr>wsCur = None, wsIn = ms, wsErr = werr\<rparr>)
      else case ws_read_cur n m of
        Some (res, cur) \<Rightarrow> (res, \<lparr>wsCur = cur, wsIn = ms, wsErr = werr\<rparr>)
      | None \<Rightarrow> ws_next_loop n werr ms)"

definition wsMessageReader_Read :: "wsMessageReader read_fun" where
  "wsMessageReader_Read n r =
     (case wsCur r of
        None \<Rightarrow> ws_next_loop n (wsErr r) (wsIn r)
      | Some cur \<Rightarrow>
          (case ws_read_cur n cur of
             Some (res, cur') \<Rightarrow> (res, r\<lparr>wsCur := cur'\<rparr>)
           | None \<Rightarrow> ws_next_loop n (wsErr r) (wsIn r)))"

text \<open>The stream such a reader stands for, and the error that ends it.\<close>

fun ws_stream :: "error \<Rightarrow> (int \<times> bytes list \<times> error) list \<Rightarrow> bytes \<times> error" where
  "ws_stream werr [] = ([], werr)"
| "ws_stream werr ((mt, cs, e) # ms) =
     (if mt \<noteq> BinaryMessage then ([], errNonBinary)
      else if e \<noteq> EOF then (concat cs, e)
      else case ws_stream werr ms of (bs, f) \<Rightarrow> (concat cs @ bs, f))"

definition ws_all :: "wsMessageReader \<Rightarrow> bytes \<times> error" where
  "ws_all r = ws_stream (wsErr r)
     ((case wsCur r of None \<Rightarrow> [] | Some (cs, e) \<Rightarrow> [(BinaryMessage, cs, e)]) @ wsIn r)"

definition ws_content :: "wsMessageReader \<Rightarrow> bytes" where
  "ws_content r = fst (ws_all r)"

definition ws_fin :: "wsMessageReader \<Rightarrow> error" where
  "ws_fin r = snd (ws_all r)"

text \<open>
  The documented behaviour of a message reader that \<open>Read\<close> relies on: it never returns zero bytes
  without an error, so no chunk is empty.
\<close>

definition ws_ok :: "wsMessageReader \<Rightarrow> bool" where
  "ws_ok r \<longleftrightarrow> (\<forall>c \<in> set (case wsCur r of None \<Rightarrow> [] | Some (cs, e) \<Rightarrow> cs). c \<noteq> []) \<and>
     (\<forall>(mt, cs, e) \<in> set (wsIn r). \<forall>c \<in> set cs. c \<noteq> [])"

lemmas ws_defs = ws_content_def ws_fin_def ws_all_def ws_ok_def

lemma ws_read_cur_Nil [simp]:
  "ws_read_cur n ([], e) = (if e = EOF then None else Some (([], Some e), Some ([], e)))"
  by (simp add: ws_read_cur_def)

lemma ws_read_cur_Cons [simp]:
  "c \<noteq> [] \<Longrightarrow> 0 < n \<Longrightarrow> ws_read_cur n (c # cs, e) =
     Some ((take n c, None), Some (if length c \<le> n then cs else drop n c # cs, e))"
  by (simp add: ws_read_cur_def)

text \<open>A successful turn on the current message delivers the next bytes of the stream.\<close>

lemma ws_take_chunk:
  assumes "c \<noteq> []" and "\<forall>c \<in> set cs. c \<noteq> []" and "\<forall>(mt, cs, e) \<in> set ms. \<forall>c \<in> set cs. c \<noteq> []" and "0 < n"
    and r': "r' = \<lparr>wsCur = Some (if length c \<le> n then cs else drop n c # cs, e), wsIn = ms, wsErr = werr\<rparr>"
  shows "fst (ws_stream werr ((BinaryMessage, c # cs, e) # ms)) = take n c @ ws_content r'"
    and "snd (ws_stream werr ((BinaryMessage, c # cs, e) # ms)) = ws_fin r'" and "ws_ok r'"
  using assms(1-4) unfolding r' by (auto simp: ws_defs split: prod.splits)

lemma ws_next_loop_more:
  assumes "\<forall>(mt, cs, e) \<in> set ms. \<forall>c \<in> set cs. c \<noteq> []" and "0 < n"
    and "ws_next_loop n werr ms = ((bs, None), r')"
  shows "bs \<noteq> [] \<and> length bs \<le> n \<and> fst (ws_stream werr ms) = bs @ ws_content r' \<and>
    snd (ws_stream werr ms) = ws_fin r' \<and> ws_ok r'"
  using assms
proof (induction n werr ms rule: ws_next_loop.induct)
  case (2 n werr mt m ms)
  from "2.prems"(3) have mt: "mt = BinaryMessage" by (simp split: if_splits)
  obtain cs e where m: "m = (cs, e)" by (cases m)
  show ?case
  proof (cases cs)
    case Nil
    with 2 m mt show ?thesis by (cases "e = EOF") (auto split: prod.splits)
  next
    case (Cons c cs')
    with "2.prems" m mt have ne: "c \<noteq> []" "\<forall>c \<in> set cs'. c \<noteq> []"
      "\<forall>(mt, cs, e) \<in> set ms. \<forall>c \<in> set cs. c \<noteq> []" by auto
    with "2.prems"(2,3) m mt Cons have bs: "bs = take n c"
      and r': "r' = \<lparr>wsCur = Some (if length c \<le> n then cs' else drop n c # cs', e), wsIn = ms, wsErr = werr\<rparr>"
      by (simp_all del: ws_next_loop.simps(1))
    from ws_take_chunk [OF ne "2.prems"(2) r'] ne(1) "2.prems"(2) bs m mt Cons show ?thesis by simp
  qed
qed simp

lemma ws_next_loop_end:
  assumes "\<forall>(mt, cs, e) \<in> set ms. \<forall>c \<in> set cs. c \<noteq> []" and "0 < n"
    and "ws_next_loop n werr ms = ((bs, Some e), r')"
  shows "bs = [] \<and> ws_stream werr ms = ([], e)"
  using assms
proof (induction n werr ms rule: ws_next_loop.induct)
  case (2 n werr mt m ms)
  obtain cs e2 where m: "m = (cs, e2)" by (cases m)
  show ?case
  proof (cases cs)
    case Nil
    with 2 m show ?thesis by (auto split: if_splits)
  next
    case (Cons c cs')
    with "2.prems" m show ?thesis by (auto split: if_splits)
  qed
qed simp

interpretation ws: io_reader wsMessageReader_Read ws_content ws_fin ws_ok
proof unfold_locales
  fix r :: wsMessageReader and r' n bs
  assume ok: "ws_ok r" and n: "0 < n" and rd: "wsMessageReader_Read n r = ((bs, None), r')"
  from ok have ms: "\<forall>(mt, cs, e) \<in> set (wsIn r). \<forall>c \<in> set cs. c \<noteq> []" by (simp add: ws_ok_def)
  note later = ws_next_loop_more [OF ms n, of "wsErr r" bs r']
  show "bs \<noteq> [] \<and> length bs \<le> n \<and> ws_content r = bs @ ws_content r' \<and> ws_fin r' = ws_fin r \<and> ws_ok r'"
  proof (cases "wsCur r")
    case None
    with rd later show ?thesis by (simp add: wsMessageReader_Read_def ws_content_def ws_fin_def ws_all_def)
  next
    case (Some cur)
    then obtain cs e where cur: "wsCur r = Some (cs, e)" by (cases cur) auto
    show ?thesis
    proof (cases cs)
      case Nil
      with cur rd later show ?thesis
        by (cases "e = EOF") (auto simp: wsMessageReader_Read_def ws_content_def ws_fin_def ws_all_def
            split: prod.splits)
    next
      case (Cons c cs')
      with ok cur have ne: "c \<noteq> []" "\<forall>c \<in> set cs'. c \<noteq> []" by (auto simp: ws_ok_def)
      with rd cur Cons n have bs: "bs = take n c"
        and r': "r' = r\<lparr>wsCur := Some (if length c \<le> n then cs' else drop n c # cs', e)\<rparr>"
        by (simp_all add: wsMessageReader_Read_def)
      have r'': "r' = \<lparr>wsCur = Some (if length c \<le> n then cs' else drop n c # cs', e), wsIn = wsIn r,
          wsErr = wsErr r\<rparr>"
        by (simp add: r')
      from ws_take_chunk [OF ne ms n r''] bs ne(1) n cur Cons show ?thesis
        by (simp add: ws_content_def ws_fin_def ws_all_def)
    qed
  qed
next
  fix r :: wsMessageReader and r' n bs e
  assume ok: "ws_ok r" and n: "0 < n" and rd: "wsMessageReader_Read n r = ((bs, Some e), r')"
  from ok have ms: "\<forall>(mt, cs, e) \<in> set (wsIn r). \<forall>c \<in> set cs. c \<noteq> []" by (simp add: ws_ok_def)
  note later = ws_next_loop_end [OF ms n, of "wsErr r" bs e r']
  have all: "bs = [] \<and> ws_all r = ([], e)"
  proof (cases "wsCur r")
    case None
    with rd later show ?thesis by (simp add: wsMessageReader_Read_def ws_all_def)
  next
    case (Some cur)
    then obtain cs f where cur: "wsCur r = Some (cs, f)" by (cases cur) auto
    show ?thesis
    proof (cases cs)
      case Nil
      with cur rd later show ?thesis
        by (auto simp: wsMessageReader_Read_def ws_all_def split: if_splits)
    next
      case (Cons c cs')
      with cur rd ok n show ?thesis
        by (auto simp: wsMessageReader_Read_def ws_ok_def split: if_splits)
    qed
  qed
  then show "bs = [] \<and> ws_content r = [] \<and> e = ws_fin r"
    by (simp add: ws_content_def ws_fin_def)
qed

section \<open>Properties\<close>

text \<open>
  C11: the read loop of a connection. However the WebSocket messages and the reads cut the bytes into
  pieces, a stream that carries the encodings of some frames is read back as exactly these frames,
  followed by the error that ends the connection.
\<close>

theorem ws_frames_read_back:
  assumes "ws_ok r" and "list_all2 (\<lambda>f bs. Encode f = Inr bs) fs bss" and "ws_content r = concat bss"
    and "length fs < fuel"
  shows "read_frames wsMessageReader_Read fuel r = Some (fs, ws_fin r)"
  by (rule ws.read_frames_encoded [OF assms])

theorem ws_frames_read_back_witness:
  "read_frames wsMessageReader_Read 3
     \<lparr>wsCur = None, wsIn = [(BinaryMessage, [[1, 0, 3, 0], [0, 0, 1, 0, 0]], EOF), (BinaryMessage, [[0, 0, 1], [0, 5, 0, 0, 0, 2, 0, 0, 0, 1, 7]], EOF)],
      wsErr = EOF\<rparr> =
     Some ([\<lparr>fVer = 1, fCmd = CmdHeartbeat, fSeq = 1, fBody = []\<rparr>, \<lparr>fVer = 1, fCmd = CmdMsgSend, fSeq = 2, fBody = [7]\<rparr>], EOF)"
proof -
  let ?r = "\<lparr>wsCur = None, wsIn = [(BinaryMessage, [[1, 0, 3, 0], [0, 0, 1, 0, 0]], EOF), (BinaryMessage, [[0, 0, 1], [0, 5, 0, 0, 0, 2, 0, 0, 0, 1, 7]], EOF)],
      wsErr = EOF\<rparr>"
  let ?f = "\<lparr>fVer = 1, fCmd = CmdHeartbeat, fSeq = 1, fBody = []\<rparr>"
  let ?g = "\<lparr>fVer = 1, fCmd = CmdMsgSend, fSeq = 2, fBody = [7]\<rparr>"
  have e: "Encode ?f = Inr [1, 0, 3, 0, 0, 0, 1, 0, 0, 0, 0]" "Encode ?g = Inr [1, 0, 5, 0, 0, 0, 2, 0, 0, 0, 1, 7]"
    by (simp_all add: Encode_eq MaxBodyLen_def header_of_def PutUint16_def PutUint32_def CmdHeartbeat_def CmdMsgSend_def)
  have "read_frames wsMessageReader_Read 3 ?r = Some ([?f, ?g], ws_fin ?r)"
    by (rule ws_frames_read_back [where bss = "[[1, 0, 3, 0, 0, 0, 1, 0, 0, 0, 0], [1, 0, 5, 0, 0, 0, 2, 0, 0, 0, 1, 7]]"])
      (simp_all add: e ws_defs)
  then show ?thesis by (simp add: ws_defs)
qed

text \<open>
  A connection that ends inside a frame. When the stream stops after some but not all bytes of a
  frame's encoding, \<open>ReadFrame\<close> returns \<open>io.ErrUnexpectedEOF\<close>, never a frame.
\<close>

theorem ws_truncated_frame:
  assumes "ws_ok r" and "Encode f = Inr (ws_content r @ rest)" and "ws_content r \<noteq> []" and "rest \<noteq> []"
    and "ws_fin r = EOF"
  shows "\<exists>r'. ReadFrame wsMessageReader_Read r = Some (Inl ErrUnexpectedEOF, r')"
  by (rule ws.ReadFrame_truncated [OF assms(1,2) refl assms(3-5)])

theorem ws_truncated_frame_witness:
  "\<exists>r'. ReadFrame wsMessageReader_Read \<lparr>wsCur = None, wsIn = [(BinaryMessage, [[1, 0, 3], [0, 0, 0]], EOF)], wsErr = EOF\<rparr> =
     Some (Inl ErrUnexpectedEOF, r')"
proof -
  have "Encode \<lparr>fVer = 1, fCmd = CmdHeartbeat, fSeq = 1, fBody = []\<rparr> = Inr [1, 0, 3, 0, 0, 0, 1, 0, 0, 0, 0]"
    by (simp add: Encode_eq MaxBodyLen_def header_of_def PutUint16_def PutUint32_def CmdHeartbeat_def)
  then show ?thesis
    by (intro ws_truncated_frame [where f = "\<lparr>fVer = 1, fCmd = CmdHeartbeat, fSeq = 1, fBody = []\<rparr>"
        and rest = "[1, 0, 0, 0, 0]"]) (simp_all add: ws_defs)
qed

end
