(* ===== verification/Messages.thy ===== *)
theory Messages
  imports Prelude
begin

text \<open>
  The Protocol Buffers messages the services exchange, as the records of their fields
  (\<^verbatim>\<open>pkg/pb/logic.pb.go\<close>, \<^verbatim>\<open>protocol.pb.go\<close>, \<^verbatim>\<open>comet.pb.go\<close>). The getters of a generated
  message return the field, or the zero value for a nil message; the field selectors play their
  part. The encoding itself is the protobuf library's and a parameter where it is used.
\<close>

section \<open>logic.proto\<close>

record VerifyTokenReq =
  vtqUid :: int
  vtqToken :: string

record VerifyTokenResp =
  vtrValid :: bool
  vtrCode :: int
  vtrUid :: int

record SendMsgReq =
  srSenderId :: int
  srConvId :: string
  srConvType :: int
  srClientMsgId :: string
  srDeviceId :: string
  srMsgType :: int
  srPayload :: bytes

record SendMsgAck =
  saCode :: int
  saMsgId :: string
  saSeq :: int
  saTimestamp :: int

record PbMsg =
  pmMsgId :: string
  pmConvId :: string
  pmConvType :: int
  pmSenderId :: int
  pmMsgType :: int
  pmPayload :: bytes
  pmSeq :: int
  pmTimestamp :: int
  pmStatus :: int

record SyncPullResp =
  yrCode :: int
  yrMessages :: "PbMsg list"
  yrMaxSeq :: int

record ReportDeliveredReq =
  rdUid :: int
  rdMsgId :: string
  rdConvId :: string

record OnlineEventReq =
  oeUid :: int
  oeDeviceId :: string
  oePlatform :: int
  oeCometAddr :: string
  oeOnline :: bool

record PendingReq =
  pqUid :: int

record MarkReadReq =
  mrUid :: int
  mrConvId :: string
  mrSeq :: int

text \<open>An envelope's message field is a pointer, nil when absent.\<close>

record Envelope =
  enRecvUid :: int
  enMsg :: "PbMsg option"

section \<open>protocol.proto\<close>

record MsgSendReq =
  mqClientMsgId :: string
  mqConvId :: string
  mqConvType :: int
  mqMsgType :: int
  mqPayload :: bytes

record MsgSendAck =
  maCode :: int
  maClientMsgId :: string
  maMsgId :: string
  maSeq :: int
  maTimestamp :: int

record MsgPush =
  mpMsgId :: string
  mpConvId :: string
  mpConvType :: int
  mpSenderId :: int
  mpMsgType :: int
  mpPayload :: bytes
  mpSeq :: int
  mpTimestamp :: int

record ReceivedAckReq =
  raMsgId :: string
  raConvId :: string
  raSeq :: int

record AuthReq =
  aqToken :: string
  aqDeviceId :: string
  aqPlatform :: int
  aqUid :: int

record AuthAck =
  aaCode :: int
  aaMsg :: string
  aaUid :: int
  aaKickReason :: int

record SyncPullReq =
  yqConvId :: string
  yqLocalMaxSeq :: int
  yqLimit :: int
  yqUid :: int

record SyncResp =
  yaConvId :: string
  yaMessages :: "MsgPush list"
  yaMaxSeq :: int
  yaCode :: int

record ConvBrief =
  cbConvId :: string
  cbConvType :: int
  cbMaxSeq :: int
  cbUnread :: int

record PendingResp =
  prConvs :: "ConvBrief list"

record SyncNotifyReq =
  snConvs :: "ConvBrief list"

record ReconnectReq =
  rcJitterMs :: int

section \<open>comet.proto\<close>

record PushFramesReq =
  pfUid :: int
  pfDeviceId :: string
  pfFrames :: "bytes list"

record PushFramesResp =
  pfOnline :: bool

record KickConnReq =
  kcUid :: int
  kcDeviceId :: string
  kcReason :: string

end
