(* ===== verification/Conv.thy ===== *)
theory Conv
  imports GoStrings
begin

unbundle bit_operations_syntax

text \<open>
  Conversation identifiers and the table a conversation's messages live in:
  \<^verbatim>\<open>internal/service/conv.go\<close> and \<^verbatim>\<open>pkg/mysqlx/ShardTable.go\<close>, with the standard library's
  \<open>crc32.ChecksumIEEE\<close>. A direct conversation is \<open>c:min:max\<close>, a group \<open>g:gid\<close>. The lemmas: both
  parsers invert their constructors, the direct identifier depends on the unordered pair only and
  determines it, no identifier is of both kinds, and every table name is one of the 64.
\<close>

section \<open>Identifiers\<close>

definition ConvIDForP2P :: "int \<Rightarrow> int \<Rightarrow> string" where
  "ConvIDForP2P a b =
     (let (a, b) = (if a > b then (b, a) else (a, b))
      in ''c:'' @ format_int a @ '':'' @ format_int b)"

definition errInvalidP2P :: error where
  "errInvalidP2P = Err ''service: invalid p2p conv id''"

definition ParseP2PConv :: "string \<Rightarrow> (int \<times> int) result" where
  "ParseP2PConv convID =
     (let parts = split_on CHR '':'' convID in
      if length parts \<noteq> 3 \<or> parts ! 0 \<noteq> ''c'' then Inl errInvalidP2P
      else case parse_int (parts ! 1) of
        Inl e \<Rightarrow> Inl errInvalidP2P
      | Inr a \<Rightarrow>
          (case parse_int (parts ! 2) of
             Inl e \<Rightarrow> Inl errInvalidP2P
           | Inr b \<Rightarrow> if a \<ge> b then Inl errInvalidP2P else Inr (a, b)))"

definition ConvTypeP2P :: int where "ConvTypeP2P = 1"
definition ConvTypeGroup :: int where "ConvTypeGroup = 2"

definition ConvIDForGroup :: "int \<Rightarrow> string" where
  "ConvIDForGroup gid = ''g:'' @ format_int gid"

definition errInvalidGroup :: error where
  "errInvalidGroup = Err ''service: invalid group conv id''"

definition ParseGroupConv :: "string \<Rightarrow> int result" where
  "ParseGroupConv convID =
     (let parts = split_on CHR '':'' convID in
      if length parts \<noteq> 2 \<or> parts ! 0 \<noteq> ''g'' then Inl errInvalidGroup
      else case parse_int (parts ! 1) of
        Inl e \<Rightarrow> Inl errInvalidGroup
      | Inr gid \<Rightarrow> if gid \<le> 0 then Inl errInvalidGroup else Inr gid)"

section \<open>The checksum and the message table\<close>

text \<open>
  The CRC-32 of the reflected polynomial \<open>0xEDB88320\<close>, bit by bit; Go's table-driven loop computes
  the same eight steps per byte.
\<close>

definition crc_step :: "u32 \<Rightarrow> u32" where
  "crc_step c = (if c AND 1 = 1 then drop_bit 1 c XOR 0xEDB88320 else drop_bit 1 c)"

definition crc_byte :: "u32 \<Rightarrow> byte \<Rightarrow> u32" where
  "crc_byte c b = (crc_step ^^ 8) (c XOR ucast b)"

definition ChecksumIEEE :: "bytes \<Rightarrow> u32" where
  "ChecksumIEEE bs = NOT (foldl crc_byte (NOT 0) bs)"

definition bytes_of :: "string \<Rightarrow> bytes" where
  "bytes_of s = map of_char s"

definition shardCount :: u32 where "shardCount = 64"

definition ShardTable :: "string \<Rightarrow> string" where
  "ShardTable convID = ''message_'' @ format_02d (unat (ChecksumIEEE (bytes_of convID) mod shardCount))"

definition ShardOfConv :: "string \<Rightarrow> string" where
  "ShardOfConv convID = ShardTable convID"

section \<open>Round trips\<close>

lemma ConvIDForP2P_eq: "ConvIDForP2P a b = ''c:'' @ format_int (min a b) @ '':'' @ format_int (max a b)"
  by (simp add: ConvIDForP2P_def min_def max_def)

lemma ConvIDForP2P_sym: "ConvIDForP2P a b = ConvIDForP2P b a"
  by (simp add: ConvIDForP2P_eq min.commute max.commute)

lemma ConvIDForP2P_inject: "ConvIDForP2P a b = ConvIDForP2P c d \<longleftrightarrow> {a, b} = {c, d}"
proof
  assume "ConvIDForP2P a b = ConvIDForP2P c d"
  then have "split_on CHR '':'' (ConvIDForP2P a b) = split_on CHR '':'' (ConvIDForP2P c d)" by simp
  then have "min a b = min c d" "max a b = max c d" by (simp_all add: ConvIDForP2P_eq)
  then show "{a, b} = {c, d}" by (auto simp: min_def max_def split: if_splits)
next
  assume "{a, b} = {c, d}"
  then show "ConvIDForP2P a b = ConvIDForP2P c d"
    by (auto simp: doubleton_eq_iff ConvIDForP2P_sym)
qed

lemma Parse_ConvIDForP2P:
  assumes "int64 a" and "int64 b" and "a \<noteq> b"
  shows "ParseP2PConv (ConvIDForP2P a b) = Inr (min a b, max a b)"
proof -
  from assms(1,2) have "parse_int (format_int (min a b)) = Inr (min a b)"
    and "parse_int (format_int (max a b)) = Inr (max a b)"
    by (auto intro!: parse_int_format simp: min_def max_def)
  with assms(3) show ?thesis
    by (simp add: ConvIDForP2P_eq ParseP2PConv_def)
qed

text \<open>What the parser accepts: an ordered pair of 64-bit numbers.\<close>

lemma ParseP2PConv_InrD:
  assumes "ParseP2PConv s = Inr (a, b)"
  shows "a < b \<and> int64 a \<and> int64 b"
  using assms by (auto simp: ParseP2PConv_def Let_def dest: parse_int_range split: if_splits sum.splits)

lemma ParseP2PConv_canonical:
  assumes "ParseP2PConv s = Inr (a, b)"
  shows "ParseP2PConv (ConvIDForP2P a b) = Inr (a, b)"
  using ParseP2PConv_InrD [OF assms] Parse_ConvIDForP2P [of a b] by simp

lemma Parse_ConvIDForGroup: "int64 gid \<Longrightarrow> 0 < gid \<Longrightarrow> ParseGroupConv (ConvIDForGroup gid) = Inr gid"
  by (simp add: ParseGroupConv_def ConvIDForGroup_def parse_int_format)

lemma ParseGroupConv_InrD: "ParseGroupConv s = Inr gid \<Longrightarrow> 0 < gid \<and> int64 gid"
  by (auto simp: ParseGroupConv_def Let_def dest: parse_int_range split: if_splits sum.splits)

lemma ConvIDForGroup_inject [simp]: "ConvIDForGroup g = ConvIDForGroup h \<longleftrightarrow> g = h"
  by (simp add: ConvIDForGroup_def)

text \<open>No identifier is accepted by both parsers.\<close>

lemma Parse_exclusive: "ParseGroupConv s = Inr g \<Longrightarrow> \<exists>e. ParseP2PConv s = Inl e"
  by (auto simp: ParseGroupConv_def ParseP2PConv_def Let_def split: if_splits sum.splits)

lemma ParseP2PConv_ConvIDForGroup: "ParseP2PConv (ConvIDForGroup g) = Inl errInvalidP2P"
  by (simp add: ParseP2PConv_def ConvIDForGroup_def)

lemma ParseGroupConv_ConvIDForP2P: "ParseGroupConv (ConvIDForP2P a b) = Inl errInvalidGroup"
  by (simp add: ParseGroupConv_def ConvIDForP2P_eq)

section \<open>Table names\<close>

lemma crc_byte_eight:
  "crc_byte c b =
     crc_step (crc_step (crc_step (crc_step (crc_step (crc_step (crc_step (crc_step (c XOR ucast b))))))))"
  by (simp add: crc_byte_def eval_nat_numeral)

lemmas shard_eval =
  ShardTable_def ChecksumIEEE_def crc_byte_eight crc_step_def bytes_of_def shardCount_def
  format_02d_def format_nat_less10 format_nat_ge10 digit_char_def

lemma format_02d_inject: "m < 100 \<Longrightarrow> n < 100 \<Longrightarrow> format_02d m = format_02d n \<longleftrightarrow> m = n"
proof -
  have two: "length (format_nat k) = (if k < 10 then 1 else 2)" if "k < 100" for k
    using that by (auto simp: format_nat_less10 format_nat_ge10)
  assume "m < 100" "n < 100"
  moreover have "hd (format_nat k) \<noteq> CHR ''0''" if "10 \<le> k" "k < 100" for k
  proof -
    from that have "1 \<le> k div 10" "k div 10 < 10" by auto
    then have "digit_val (hd (format_nat k)) \<noteq> 0"
      using that by (simp add: format_nat_ge10 format_nat_less10 digit_char_props)
    then show ?thesis by (auto simp: digit_val_def)
  qed
  ultimately show ?thesis
    by (auto simp: format_02d_def Let_def two split: if_splits) (metis list.sel(1) not_less)+
qed

lemma ShardTable_range:
  "\<exists>i < 64. ShardTable s = ''message_'' @ format_02d i"
proof -
  have "unat (ChecksumIEEE (bytes_of s) mod shardCount) < 64"
    by (simp add: shardCount_def unat_mod)
  then show ?thesis unfolding ShardTable_def by blast
qed

section \<open>Properties\<close>

text \<open>
  C35: the identifier of a direct conversation does not depend on who computes it, determines the two
  users, and is parsed back into them; no group parser accepts it.
\<close>

theorem p2p_conv_identity:
  assumes "int64 a" and "int64 b" and "a \<noteq> b"
  shows "ConvIDForP2P a b = ConvIDForP2P b a \<and>
    (\<forall>c d. ConvIDForP2P a b = ConvIDForP2P c d \<longleftrightarrow> {a, b} = {c, d}) \<and>
    ParseP2PConv (ConvIDForP2P a b) = Inr (min a b, max a b) \<and>
    ParseGroupConv (ConvIDForP2P a b) = Inl errInvalidGroup"
  using Parse_ConvIDForP2P [OF assms] ConvIDForP2P_sym ConvIDForP2P_inject ParseGroupConv_ConvIDForP2P by blast

theorem p2p_conv_identity_witness:
  "ParseP2PConv (ConvIDForP2P 20 10) = Inr (10, 20) \<and> ConvIDForP2P 20 10 = ''c:10:20''"
  using p2p_conv_identity [of 20 10]
  by (simp add: int64_iff ConvIDForP2P_def format_int_def format_nat_less10 format_nat_ge10 digit_char_def)

text \<open>
  A positive group number is parsed back from its identifier, different groups have different
  identifiers, and an identifier the group parser accepts is refused by the direct one.
\<close>

theorem group_conv_identity:
  assumes "int64 g" and "0 < g"
  shows "ParseGroupConv (ConvIDForGroup g) = Inr g \<and> (\<forall>h. ConvIDForGroup g = ConvIDForGroup h \<longleftrightarrow> g = h) \<and>
    (\<forall>s h. ParseGroupConv s = Inr h \<longrightarrow> (\<exists>e. ParseP2PConv s = Inl e))"
  using Parse_ConvIDForGroup [OF assms] Parse_exclusive by auto

theorem group_conv_identity_witness: "ParseGroupConv ''g:5'' = Inr 5"
  using group_conv_identity [of 5]
  by (simp add: int64_iff ConvIDForGroup_def format_int_def format_nat_less10 digit_char_def)


end
