(* ===== verification/Client.thy ===== *)
theory Client
  imports Frame Messages Conv StreamReader
begin

text \<open>
  The command line client, \<^verbatim>\<open>scripts/wsclient.go\<close>: dialling with back-off, the duplicate window over
  pushed messages, the handling of received frames and the catch-up loop that pulls a conversation
  page by page. The socket and the protobuf codec are parameters. Shown: the ring buffer with its map
  implements the window of the last accepted identifiers; the catch-up loop returns and shows
  exactly the stored messages; dialling gives up after nine attempts.
\<close>

section \<open>The duplicate window\<close>

record lru =
  lCap :: nat
  lSeen :: "string set"
  lRing :: "string list"
  lIdx :: nat

definition newLRU :: "nat \<Rightarrow> lru" where
  "newLRU capacity = \<lparr>lCap = capacity, lSeen = {}, lRing = replicate capacity [], lIdx = 0\<rparr>"

definition lru_add :: "string \<Rightarrow> lru \<Rightarrow> bool \<times> lru" where
  "lru_add mid l =
     (if mid \<in> lSeen l then (False, l)
      else let old = lRing l ! lIdx l;
               seen = (if old \<noteq> [] then lSeen l - {old} else lSeen l)
           in (True, l\<lparr>lRing := (lRing l)[lIdx l := mid], lSeen := insert mid seen, lIdx := (lIdx l + 1) mod lCap l\<rparr>))"

text \<open>What it promises: the last \<open>n\<close> accepted identifiers, the newest first.\<close>

definition window_add :: "nat \<Rightarrow> string \<Rightarrow> string list \<Rightarrow> bool \<times> string list" where
  "window_add n mid ws = (if mid \<in> set ws then (False, ws) else (True, take n (mid # ws)))"

fun lru_run :: "string list \<Rightarrow> lru \<Rightarrow> bool list \<times> lru" where
  "lru_run [] l = ([], l)"
| "lru_run (mid # mids) l = (let (b, l1) = lru_add mid l; (bs, l2) = lru_run mids l1 in (b # bs, l2))"

fun window_run :: "nat \<Rightarrow> string list \<Rightarrow> string list \<Rightarrow> bool list \<times> string list" where
  "window_run n [] ws = ([], ws)"
| "window_run n (mid # mids) ws = (let (b, ws1) = window_add n mid ws; (bs, ws2) = window_run n mids ws1 in (b # bs, ws2))"

section \<open>Identifiers\<close>

definition convP2P :: "int \<Rightarrow> int \<Rightarrow> string" where
  "convP2P a b = (let (a, b) = (if a > b then (b, a) else (a, b)) in ''c:'' @ format_int a @ '':'' @ format_int b)"

text \<open>The conversation and its type that the flags choose.\<close>

definition send_target :: "string \<Rightarrow> int \<Rightarrow> int \<Rightarrow> string \<times> int" where
  "send_target convFlag uid peer =
     (if convFlag = [] then (convP2P uid peer, 1)
      else if take 2 convFlag = ''g:'' then (convFlag, 2)
      else (convFlag, 1))"

section \<open>Dialling\<close>

text \<open>How \<open>runSession\<close> gets its connection: connected, fatal on the very first attempt, or given up.\<close>

datatype dialled = Connected | FatalExit | GaveUp

function dial_loop :: "('v \<Rightarrow> bool \<times> 'v) \<Rightarrow> bool \<Rightarrow> nat \<Rightarrow> nat list \<Rightarrow> 'v \<Rightarrow> dialled \<times> nat list \<times> 'v" where
  "dial_loop dial inReconnect attempt slept v =
     (case dial v of
        (True, v1) \<Rightarrow> (Connected, slept, v1)
      | (False, v1) \<Rightarrow>
          if attempt = 0 \<and> \<not> inReconnect then (FatalExit, slept, v1)
          else if attempt \<ge> 8 then (GaveUp, slept, v1)
          else dial_loop dial inReconnect (attempt + 1) (slept @ [500 * (attempt + 1)]) v1)"
  by pat_completeness auto
termination
  by (relation "measure (\<lambda>(dial, r, attempt, slept, v). 8 - attempt)") auto

section \<open>Frames\<close>

record 'v socket =
  skRead :: "('v, int \<times> bytes) call"
  skWrite :: "bytes \<Rightarrow> ('v, unit) call"

record client_codec =
  ccSyncPullReq :: "SyncPullReq \<Rightarrow> bytes result"
  ccReceivedAckReq :: "ReceivedAckReq \<Rightarrow> bytes result"
  ccSyncResp :: "bytes \<Rightarrow> SyncResp \<times> error option"
  ccMsgPush :: "bytes \<Rightarrow> MsgPush \<times> error option"
  ccSyncNotifyReq :: "bytes \<Rightarrow> SyncNotifyReq \<times> error option"
  ccReconnectReq :: "bytes \<Rightarrow> ReconnectReq \<times> error option"

text \<open>
  The session: the frame counter, the local cursors (a missing one is 0), the messages of
  synchronised pages as they are printed, the duplicate window, the reconnect request that waits for
  the main loop, and the socket.
\<close>

record 'v client =
  clSeq :: u32
  clSync :: "string \<Rightarrow> int"
  clShown :: "MsgPush list"
  clDedup :: lru
  clReconnect :: "int option"
  clSock :: 'v

definition nextSeq :: "'v client \<Rightarrow> u32 \<times> 'v client" where
  "nextSeq st = (clSeq st + 1, st\<lparr>clSeq := clSeq st + 1\<rparr>)"

text \<open>\<open>send\<close>; \<open>None\<close> is \<open>log.Fatalf\<close>. A failed write is only reported.\<close>

definition client_send :: "'v socket \<Rightarrow> u16 \<Rightarrow> u32 \<Rightarrow> bytes result \<Rightarrow> 'v client \<Rightarrow> 'v client option" where
  "client_send K cmd sq msg st =
     (case msg of
        Inl e \<Rightarrow> None
      | Inr body \<Rightarrow>
          (case Encode \<lparr>fVer = ProtoVer, fCmd = cmd, fSeq = sq, fBody = body\<rparr> of
             Inl e \<Rightarrow> None
           | Inr frame \<Rightarrow> Some (st\<lparr>clSock := snd (skWrite K frame (clSock st))\<rparr>)))"

definition errNoSyncResp :: error where
  "errNoSyncResp = Err ''SYNC_RESP not received within bounded frames''"

fun read_sync_frames :: "'v socket \<Rightarrow> client_codec \<Rightarrow> nat \<Rightarrow> ('v, SyncResp) call" where
  "read_sync_frames K X 0 v = (Inl errNoSyncResp, v)"
| "read_sync_frames K X (Suc n) v =
     (case skRead K v of
        (Inl e, v1) \<Rightarrow> (Inl e, v1)
      | (Inr (mt, data), v1) \<Rightarrow>
          if mt \<noteq> BinaryMessage then read_sync_frames K X n v1
          else (case Decode data of
              Inl e \<Rightarrow> read_sync_frames K X n v1
            | Inr frame \<Rightarrow>
                if fCmd frame \<noteq> CmdSyncResp then read_sync_frames K X n v1
                else (case ccSyncResp X (fBody frame) of
                    (resp, Some e) \<Rightarrow> (Inl e, v1)
                  | (resp, None) \<Rightarrow> (Inr resp, v1))))"

definition readSyncResp :: "'v socket \<Rightarrow> client_codec \<Rightarrow> ('v, SyncResp) call" where
  "readSyncResp K X = read_sync_frames K X 64"

section \<open>Catching up\<close>

definition show_messages :: "MsgPush list \<Rightarrow> int \<Rightarrow> int" where
  "show_messages ms local = fold (\<lambda>m l. if mpSeq m > l then mpSeq m else l) ms local"

datatype pulled = Pulled int int | PullFailed error | Fatal

text \<open>The rounds for one conversation; \<open>None\<close> would be a loop that never ends.\<close>

partial_function (option) pull_rounds ::
  "'v socket \<Rightarrow> client_codec \<Rightarrow> string \<Rightarrow> int \<Rightarrow> int \<Rightarrow> 'v client \<Rightarrow> (pulled \<times> 'v client) option" where
  "pull_rounds K X conv local target st =
     (if local \<ge> target then Some (Pulled local target, st)
      else let (sq, st1) = nextSeq st in
        case client_send K CmdSyncPull sq
            (ccSyncPullReq X \<lparr>yqConvId = conv, yqLocalMaxSeq = local, yqLimit = 100, yqUid = 0\<rparr>) st1 of
          None \<Rightarrow> Some (Fatal, st1)
        | Some st2 \<Rightarrow>
            (case readSyncResp K X (clSock st2) of
               (Inl e, v) \<Rightarrow> Some (PullFailed e, st2\<lparr>clSock := v\<rparr>)
             | (Inr resp, v) \<Rightarrow>
                 let local' = show_messages (yaMessages resp) local;
                     st3 = st2\<lparr>clSock := v, clShown := clShown st2 @ yaMessages resp, clSync := (clSync st2)(conv := local')\<rparr>;
                     target' = (if yaMaxSeq resp > target then yaMaxSeq resp else target)
                 in if yaMessages resp = [] then Some (Pulled local' target', st3)
                    else pull_rounds K X conv local' target' st3))"

text \<open>All conversations; the flag is false if the process ended in \<open>log.Fatalf\<close>.\<close>

fun catchUp :: "'v socket \<Rightarrow> client_codec \<Rightarrow> ConvBrief list \<Rightarrow> 'v client \<Rightarrow> (bool \<times> 'v client) option" where
  "catchUp K X [] st = Some (True, st)"
| "catchUp K X (cv # convs) st =
     (case pull_rounds K X (cbConvId cv) (clSync st (cbConvId cv)) (cbMaxSeq cv) st of
        None \<Rightarrow> None
      | Some (Fatal, st1) \<Rightarrow> Some (False, st1)
      | Some (PullFailed e, st1) \<Rightarrow> Some (True, st1)
      | Some (Pulled local target, st1) \<Rightarrow>
          if local > 0 then
            (let (sq, st2) = nextSeq st1 in
             case client_send K CmdMsgReceivedAck sq
                 (ccReceivedAckReq X \<lparr>raMsgId = [], raConvId = cbConvId cv, raSeq = local\<rparr>) st2 of
               None \<Rightarrow> Some (False, st2)
             | Some st3 \<Rightarrow> catchUp K X convs st3)
          else catchUp K X convs st1)"

text \<open>One frame in the reading goroutine of \<open>runSession\<close>: described, dropped as a duplicate, or the end.\<close>

datatype handled = Described | Dropped | Exited

definition on_frame :: "'v socket \<Rightarrow> client_codec \<Rightarrow> Frame \<Rightarrow> 'v client \<Rightarrow> (handled \<times> 'v client) option" where
  "on_frame K X frame st =
     (if fCmd frame = CmdMsgPush then
        (case ccMsgPush X (fBody frame) of
           (m, Some e) \<Rightarrow> Some (Described, st)
         | (m, None) \<Rightarrow>
             (case lru_add (mpMsgId m) (clDedup st) of
                (False, l) \<Rightarrow> Some (Dropped, st\<lparr>clDedup := l\<rparr>)
              | (True, l) \<Rightarrow>
                  Some (Described, st\<lparr>clDedup := l, clSync := (if mpSeq m > clSync st (mpConvId m)
                    then (clSync st)(mpConvId m := mpSeq m) else clSync st)\<rparr>)))
      else if fCmd frame = CmdSyncNotify then
        (case ccSyncNotifyReq X (fBody frame) of
           (n, Some e) \<Rightarrow> Some (Described, st)
         | (n, None) \<Rightarrow>
             (case catchUp K X (snConvs n) st of
                None \<Rightarrow> None
              | Some (alive, st1) \<Rightarrow> Some (if alive then Described else Exited, st1)))
      else if fCmd frame = CmdReconnectNow then
        (case ccReconnectReq X (fBody frame) of
           (r, _) \<Rightarrow> Some (Described, if clReconnect st = None then st\<lparr>clReconnect := Some (rcJitterMs r)\<rparr> else st))
      else Some (Described, st))"

section \<open>The window\<close>

text \<open>
  The ring read backwards from its index holds the window, newest first, and empty strings after it.
\<close>

definition lru_rel :: "nat \<Rightarrow> lru \<Rightarrow> string list \<Rightarrow> bool" where
  "lru_rel n l ws \<longleftrightarrow> lCap l = n \<and> 0 < n \<and> length (lRing l) = n \<and> lIdx l < n \<and> lSeen l = set ws \<and> distinct ws \<and>
     length ws \<le> n \<and> [] \<notin> set ws \<and>
     (\<forall>i < n. lRing l ! ((lIdx l + n - 1 - i) mod n) = (if i < length ws then ws ! i else []))"

lemma lru_rel_new: "0 < n \<Longrightarrow> lru_rel n (newLRU n) []"
  by (simp add: lru_rel_def newLRU_def)

text \<open>Reading backwards after the index moved on.\<close>

lemma ring_back:
  assumes "idx < n" and "i < (n :: nat)"
  shows "((idx + 1) mod n + n - 1 - i) mod n = (if i = 0 then idx else (idx + n - 1 - (i - 1)) mod n)"
proof -
  have "((idx + 1) mod n + n - 1 - i) mod n = (idx + n - i) mod n"
  proof (cases "idx + 1 = n")
    case True
    then show ?thesis using assms by (auto simp: mod_if)
  next
    case False
    then show ?thesis using assms by simp
  qed
  then show ?thesis using assms by (cases i) auto
qed

lemma ring_back_other:
  assumes "idx < n" and "0 < i" and "i < (n :: nat)"
  shows "(idx + n - 1 - (i - 1)) mod n \<noteq> idx"
proof (cases "i \<le> idx")
  case True
  then have "(idx + n - 1 - (i - 1)) mod n = idx - i" using assms by (simp add: mod_if)
  with assms True show ?thesis by simp
next
  case False
  then have "(idx + n - 1 - (i - 1)) mod n = idx + n - i" using assms by (simp add: mod_if)
  with assms False show ?thesis by simp
qed

lemma lru_add_refines:
  assumes "lru_rel n l ws" and "x \<noteq> []"
  shows "fst (lru_add x l) = fst (window_add n x ws) \<and> lru_rel n (snd (lru_add x l)) (snd (window_add n x ws))"
proof (cases "x \<in> set ws")
  case True
  with assms show ?thesis by (simp add: lru_add_def window_add_def lru_rel_def)
next
  case False
  let ?old = "lRing l ! lIdx l"
  let ?ws = "take n (x # ws)"
  from assms(1) have n: "lCap l = n" "0 < n" "length (lRing l) = n" "lIdx l < n" "lSeen l = set ws" "distinct ws" "length ws \<le> n" "[] \<notin> set ws"
    and ring: "\<And>i. i < n \<Longrightarrow> lRing l ! ((lIdx l + n - 1 - i) mod n) = (if i < length ws then ws ! i else [])"
    by (simp_all add: lru_rel_def)
  have old: "?old = (if length ws = n then ws ! (n - 1) else [])" using ring [of "n - 1"] n by (auto split: if_splits)
  have seen: "insert x (if ?old \<noteq> [] then lSeen l - {?old} else lSeen l) = set ?ws"
  proof (cases "length ws = n")
    case True
    then have ne: "ws \<noteq> []" using n by auto
    then have o: "?old = last ws" using old True n by (simp add: last_conv_nth)
    have "?old \<noteq> []" using o ne n(8) last_in_set by metis
    moreover have "set ws - {last ws} = set (butlast ws)"
      using ne n(6) by (metis append_butlast_last_id distinct_append distinct.simps(2) Diff_insert_absorb Un_insert_right
          list.simps(15) list.set(1) set_append sup_bot_right not_distinct_conv_prefix distinct_butlast)
    moreover have "?ws = x # butlast ws" using True n by (cases n) (simp_all add: butlast_conv_take)
    ultimately show ?thesis using o n(5) by simp
  next
    case False
    then have "?ws = x # ws" using n by (cases n) simp_all
    with False old n(5) show ?thesis by simp
  qed
  have ring': "(lRing l)[lIdx l := x] ! (((lIdx l + 1) mod n + n - 1 - i) mod n) = (if i < length ?ws then ?ws ! i else [])" if "i < n" for i
  proof (cases i)
    case 0
    then show ?thesis using ring_back [OF n(4) that] n by simp
  next
    case (Suc j)
    have "(lRing l)[lIdx l := x] ! ((lIdx l + n - 1 - j) mod n) = lRing l ! ((lIdx l + n - 1 - j) mod n)"
      using ring_back_other [OF n(4) _ that] Suc by simp
    then show ?thesis using ring_back [OF n(4) that] ring [of j] Suc that n(7) by simp
  qed
  have "lru_rel n (snd (lru_add x l)) ?ws"
    using n False assms(2) seen ring' by (auto simp: lru_rel_def lru_add_def Let_def dest: in_set_takeD)
  with False n(5) show ?thesis by (simp add: lru_add_def window_add_def Let_def)
qed

lemma lru_run_refines:
  "lru_rel n l ws \<Longrightarrow> [] \<notin> set xs \<Longrightarrow> fst (lru_run xs l) = fst (window_run n xs ws) \<and>
   lru_rel n (snd (lru_run xs l)) (snd (window_run n xs ws))"
proof (induction xs arbitrary: l ws)
  case (Cons x xs)
  obtain b l1 where l1: "lru_add x l = (b, l1)" by (cases "lru_add x l")
  obtain c ws1 where ws1: "window_add n x ws = (c, ws1)" by (cases "window_add n x ws")
  from lru_add_refines [OF Cons.prems(1), of x] Cons.prems(2) l1 ws1 have "b = c" "lru_rel n l1 ws1" by auto
  with Cons.IH [of l1 ws1] Cons.prems(2) show ?case by (simp add: l1 ws1 split_def Let_def)
qed simp

section \<open>Pages\<close>

text \<open>
  What the client relies on: a pull that is answered is answered with the next hundred messages of
  the conversation after the cursor, and with a maximum that stays below some bound.
\<close>

definition serves_pages :: "'v socket \<Rightarrow> client_codec \<Rightarrow> string \<Rightarrow> MsgPush list \<Rightarrow> bool" where
  "serves_pages K X conv rows \<longleftrightarrow> sorted_wrt (<) (map mpSeq rows) \<and>
     (\<forall>local sq st. \<exists>st2. client_send K CmdSyncPull sq
          (ccSyncPullReq X \<lparr>yqConvId = conv, yqLocalMaxSeq = local, yqLimit = 100, yqUid = 0\<rparr>) st = Some st2 \<and>
        (\<forall>resp v. readSyncResp K X (clSock st2) = (Inr resp, v) \<longrightarrow>
           yaMessages resp = take 100 (filter (\<lambda>m. local < mpSeq m) rows)))"

definition after_seq :: "int \<Rightarrow> MsgPush list \<Rightarrow> MsgPush list" where
  "after_seq l rows = filter (\<lambda>m. l < mpSeq m) rows"

lemma show_messages_last:
  "sorted_wrt (<) (map mpSeq ms) \<Longrightarrow> (\<And>m. m \<in> set ms \<Longrightarrow> local < mpSeq m) \<Longrightarrow> ms \<noteq> [] \<Longrightarrow> show_messages ms local = mpSeq (last ms)"
proof (induction ms arbitrary: local)
  case (Cons m ms)
  have "local < mpSeq m" using Cons.prems(2) by simp
  moreover have "show_messages ms (mpSeq m) = mpSeq (last ms)" if "ms \<noteq> []"
    using Cons.IH [of "mpSeq m"] Cons.prems(1) that by simp
  ultimately show ?case by (auto simp: show_messages_def)
qed simp

lemma strict_le_last: "sorted_wrt (<) (map mpSeq xs) \<Longrightarrow> m \<in> set xs \<Longrightarrow> mpSeq m \<le> mpSeq (last xs)"
proof (induction xs)
  case (Cons x xs)
  show ?case
  proof (cases "xs = []")
    case False
    then have "mpSeq x \<le> mpSeq (last xs)" using Cons.prems(1) by (simp add: less_imp_le)
    with Cons.IH Cons.prems False show ?thesis by auto
  qed (use Cons.prems in simp)
qed simp

lemma page_split:
  assumes "sorted_wrt (<) (map mpSeq rows)" and "page = take 100 (after_seq local rows)" and "page \<noteq> []"
    and "l = mpSeq (last page)"
  shows "local < l" "after_seq local rows = page @ after_seq l rows" "\<And>m. m \<in> set page \<Longrightarrow> mpSeq m \<le> l"
    "show_messages page local = l"
proof -
  define F where "F = after_seq local rows"
  define rest where "rest = drop 100 F"
  have "sorted_wrt (<) (map mpSeq F)"
    using assms(1) unfolding F_def after_seq_def sorted_wrt_map by (rule sorted_wrt_filter)
  moreover have split: "F = page @ rest" by (simp add: assms(2) rest_def F_def)
  ultimately have "sorted_wrt (<) (map mpSeq page @ map mpSeq rest)" by simp
  then have sp: "sorted_wrt (<) (map mpSeq page)" and cross: "\<And>m x. m \<in> set page \<Longrightarrow> x \<in> set rest \<Longrightarrow> mpSeq m < mpSeq x"
    by (auto simp: sorted_wrt_append)
  have inF: "local < mpSeq m" if "m \<in> set page" for m
    using that in_set_takeD [of m 100 F] assms(2) by (simp add: F_def after_seq_def)
  show lt: "local < l" using inF [of "last page"] assms(3,4) by simp
  show "show_messages page local = l" using show_messages_last [OF sp inF assms(3)] assms(4) by simp
  show le: "mpSeq m \<le> l" if "m \<in> set page" for m using strict_le_last [OF sp that] assms(4) by simp
  have "after_seq l rows = filter (\<lambda>m. l < mpSeq m) F"
    using lt by (auto simp: F_def after_seq_def intro: filter_cong)
  moreover have "filter (\<lambda>m. l < mpSeq m) page = []" using le by (auto simp: filter_empty_conv not_less)
  moreover have "filter (\<lambda>m. l < mpSeq m) rest = rest"
    using cross [of "last page"] assms(3,4) by (simp add: filter_id_conv)
  ultimately show "after_seq local rows = page @ after_seq l rows" using split by (simp add: F_def)
qed

text \<open>The rounds for one conversation, by the number of messages that are left.\<close>

definition caught_up :: "MsgPush list \<Rightarrow> string \<Rightarrow> int \<Rightarrow> int \<Rightarrow> 'v client \<Rightarrow> pulled \<times> 'v client \<Rightarrow> bool" where
  "caught_up rows conv local target st r \<longleftrightarrow>
     (\<exists>l \<ge> local. clShown (snd r) = clShown st @ filter (\<lambda>m. local < mpSeq m \<and> mpSeq m \<le> l) rows \<and>
        (case fst r of
           Pulled l' t \<Rightarrow> l' = l \<and> target \<le> t \<and> (l \<ge> t \<or> (\<forall>m \<in> set rows. mpSeq m \<le> l)) \<and> (clSync (snd r) conv = l \<or> snd r = st \<and> l = local)
         | PullFailed e \<Rightarrow> True
         | Fatal \<Rightarrow> False))"

text \<open>A page that was shown, and what catches up from its last message on.\<close>

lemma caught_up_page:
  assumes "sorted_wrt (<) (map mpSeq rows)" and "ms = take 100 (after_seq local rows)" and "ms \<noteq> []" and "show_messages ms local = l"
    and "clShown st' = clShown st @ ms" "clSync st' conv = l" and "target \<le> t"
  shows "length (after_seq l rows) < length (after_seq local rows)"
    and "caught_up rows conv l t st' r \<Longrightarrow> caught_up rows conv local target st r"
proof -
  note ps = page_split [OF assms(1-3) refl]
  have l: "mpSeq (last ms) = l" using ps(4) assms(4) by simp
  show "length (after_seq l rows) < length (after_seq local rows)" using ps(2) assms(3) l by simp
  assume "caught_up rows conv l t st' r"
  then obtain l2 where l2: "l \<le> l2" "clShown (snd r) = clShown st' @ filter (\<lambda>m. l < mpSeq m \<and> mpSeq m \<le> l2) rows"
    "case fst r of Pulled l' t' \<Rightarrow> l' = l2 \<and> t \<le> t' \<and> (l2 \<ge> t' \<or> (\<forall>m \<in> set rows. mpSeq m \<le> l2)) \<and> (clSync (snd r) conv = l2 \<or> snd r = st' \<and> l2 = l)
     | PullFailed e \<Rightarrow> True | Fatal \<Rightarrow> False"
    unfolding caught_up_def by blast
  have "filter (\<lambda>m. mpSeq m \<le> l2) (after_seq local rows) = ms @ filter (\<lambda>m. mpSeq m \<le> l2) (after_seq l rows)"
    using ps(2,3) l2(1) l by (force simp: filter_id_conv)
  then have "filter (\<lambda>m. local < mpSeq m \<and> mpSeq m \<le> l2) rows = ms @ filter (\<lambda>m. l < mpSeq m \<and> mpSeq m \<le> l2) rows"
    by (simp add: after_seq_def conj_commute)
  then have "clShown (snd r) = clShown st @ filter (\<lambda>m. local < mpSeq m \<and> mpSeq m \<le> l2) rows"
    using l2(2) assms(5) by simp
  moreover have "local \<le> l2" using ps(1) l l2(1) by simp
  ultimately show "caught_up rows conv local target st r"
    using l2(3) assms(6,7) unfolding caught_up_def by (intro exI [of _ l2]) (auto split: pulled.splits)
qed

lemma pull_rounds_catch_up:
  assumes "serves_pages K X conv rows"
  shows "\<exists>r. pull_rounds K X conv local target st = Some r \<and> caught_up rows conv local target st r"
proof (induction "length (after_seq local rows)" arbitrary: local target st rule: less_induct)
  case less
  have none: "filter (\<lambda>m. local < mpSeq m \<and> mpSeq m \<le> local) rows = []" by (auto simp: filter_empty_conv)
  show ?case
  proof (cases "target \<le> local")
    case True
    with none show ?thesis by (subst pull_rounds.simps) (auto simp: caught_up_def intro!: exI [of _ local])
  next
    case False
    obtain sq st1 where n: "nextSeq st = (sq, st1)" by (cases "nextSeq st")
    then have st1: "clShown st1 = clShown st" by (auto simp: nextSeq_def)
    obtain st2 where c: "client_send K CmdSyncPull sq (ccSyncPullReq X \<lparr>yqConvId = conv, yqLocalMaxSeq = local, yqLimit = 100, yqUid = 0\<rparr>) st1 = Some st2"
      and page: "\<And>resp v. readSyncResp K X (clSock st2) = (Inr resp, v) \<Longrightarrow> yaMessages resp = take 100 (after_seq local rows)"
      using assms unfolding serves_pages_def after_seq_def by metis
    then have st2: "clShown st2 = clShown st" using st1 by (auto simp: client_send_def split: sum.splits)
    obtain r v where r: "readSyncResp K X (clSock st2) = (r, v)" by (cases "readSyncResp K X (clSock st2)")
    show ?thesis
    proof (cases r)
      case (Inl e)
      with False n c r st2 none show ?thesis
        by (subst pull_rounds.simps) (auto simp: caught_up_def Let_def intro!: exI [of _ local])
    next
      case (Inr resp)
      define l where "l = show_messages (yaMessages resp) local"
      define st3 where "st3 = st2\<lparr>clSock := v, clShown := clShown st2 @ yaMessages resp, clSync := (clSync st2)(conv := l)\<rparr>"
      define t where "t = (if yaMaxSeq resp > target then yaMaxSeq resp else target)"
      have pg: "yaMessages resp = take 100 (after_seq local rows)" using page r Inr by blast
      have step: "pull_rounds K X conv local target st =
          (if yaMessages resp = [] then Some (Pulled l t, st3) else pull_rounds K X conv l t st3)"
        using False n c r Inr by (subst pull_rounds.simps) (simp add: Let_def l_def st3_def t_def)
      show ?thesis
      proof (cases "yaMessages resp = []")
        case True
        then have "l = local" "\<forall>m \<in> set rows. mpSeq m \<le> local"
          using pg by (auto simp: l_def show_messages_def after_seq_def filter_empty_conv not_less)
        with True step none st2 show ?thesis
          by (auto simp: caught_up_def st3_def t_def intro!: exI [of _ local])
      next
        case ne: False
        have rows: "sorted_wrt (<) (map mpSeq rows)" using assms by (simp add: serves_pages_def)
        have "clShown st3 = clShown st @ yaMessages resp" "clSync st3 conv = l" "target \<le> t" by (simp_all add: st2 st3_def t_def)
        note page' = caught_up_page [OF rows pg ne l_def [symmetric] this]
        from less [OF page'(1), of t st3] page'(2) step ne show ?thesis by fastforce
      qed
    qed
  qed
qed

section \<open>Properties\<close>


text \<open>A socket that answers every pull with the body it was sent, and a store of one message.\<close>

definition demo_push :: MsgPush where
  "demo_push = \<lparr>mpMsgId = ''11'', mpConvId = ''c:1:2'', mpConvType = 1, mpSenderId = 2, mpMsgType = 1, mpPayload = [1], mpSeq = 1, mpTimestamp = 0\<rparr>"

definition demo_socket :: "bytes socket" where
  "demo_socket =
    \<lparr>skRead = \<lambda>v. (map_sum (\<lambda>e. e) (Pair BinaryMessage) (Encode \<lparr>fVer = 1, fCmd = CmdSyncResp, fSeq = 0, fBody = v\<rparr>), v),
     skWrite = \<lambda>frame v. (Inr (), case Decode frame of Inr f \<Rightarrow> fBody f | Inl e \<Rightarrow> [])\<rparr>"

definition demo_ccodec :: client_codec where
  "demo_ccodec =
    \<lparr>ccSyncPullReq = \<lambda>q. Inr (if yqLocalMaxSeq q < 1 then [1] else [0]), ccReceivedAckReq = \<lambda>q. Inr [],
     ccSyncResp = \<lambda>b. (\<lparr>yaConvId = ''c:1:2'', yaMessages = (if b = [1] then [demo_push] else []), yaMaxSeq = 1, yaCode = 0\<rparr>, None),
     ccMsgPush = \<lambda>b. (demo_push, None), ccSyncNotifyReq = \<lambda>b. (\<lparr>snConvs = []\<rparr>, None), ccReconnectReq = \<lambda>b. (\<lparr>rcJitterMs = 0\<rparr>, None)\<rparr>"

definition demo_client :: "bytes client" where
  "demo_client = \<lparr>clSeq = 1, clSync = \<lambda>_. 0, clShown = [], clDedup = newLRU 1024, clReconnect = None, clSock = []\<rparr>"

lemma demo_serves: "serves_pages demo_socket demo_ccodec ''c:1:2'' [demo_push]"
proof -
  have "\<exists>st2. client_send demo_socket CmdSyncPull sq
          (ccSyncPullReq demo_ccodec \<lparr>yqConvId = ''c:1:2'', yqLocalMaxSeq = local, yqLimit = 100, yqUid = 0\<rparr>) st = Some st2 \<and>
        (\<forall>resp v. readSyncResp demo_socket demo_ccodec (clSock st2) = (Inr resp, v) \<longrightarrow>
           yaMessages resp = take 100 (filter (\<lambda>m. local < mpSeq m) [demo_push]))" for local sq and st :: "bytes client"
  proof -
    define b :: bytes where "b = (if local < 1 then [1] else [0])"
    let ?f = "\<lparr>fVer = ProtoVer, fCmd = CmdSyncPull, fSeq = sq, fBody = b\<rparr>"
    let ?g = "\<lparr>fVer = 1, fCmd = CmdSyncResp, fSeq = 0, fBody = b\<rparr>"
    have len: "length b \<le> MaxBodyLen" by (simp add: b_def MaxBodyLen_def)
    then have d: "Decode (header_of ?f @ b) = Inr ?f" "Decode (header_of ?g @ b) = Inr ?g"
      using Decode_header_body [of ?f] Decode_header_body [of ?g] by simp_all
    have e: "Encode ?f = Inr (header_of ?f @ b)" "Encode ?g = Inr (header_of ?g @ b)" using len by (simp_all add: Encode_eq)
    have "client_send demo_socket CmdSyncPull sq
          (ccSyncPullReq demo_ccodec \<lparr>yqConvId = ''c:1:2'', yqLocalMaxSeq = local, yqLimit = 100, yqUid = 0\<rparr>) st = Some (st\<lparr>clSock := b\<rparr>)"
      using d(1) e(1) by (simp add: client_send_def demo_socket_def demo_ccodec_def b_def [symmetric])
    moreover have "readSyncResp demo_socket demo_ccodec b = (Inr (fst (ccSyncResp demo_ccodec b)), b)"
    proof -
      have 64: "(64 :: nat) = Suc 63" by simp
      have "skRead demo_socket b = (Inr (BinaryMessage, header_of ?g @ b), b)" using e(2) by (simp add: demo_socket_def)
      then show ?thesis unfolding readSyncResp_def 64 read_sync_frames.simps using d(2) by (simp add: demo_ccodec_def)
    qed
    ultimately show ?thesis by (simp add: demo_ccodec_def demo_push_def b_def)
  qed
  then show ?thesis by (simp add: serves_pages_def)
qed


text \<open>
  C26: the duplicate window. For any capacity and any non-empty message identifiers, the ring buffer
  with its map answers exactly as the list of the last accepted identifiers does.
\<close>

theorem lru_is_window:
  assumes "0 < n" and "[] \<notin> set xs"
  shows "fst (lru_run xs (newLRU n)) = fst (window_run n xs []) \<and>
    lSeen (snd (lru_run xs (newLRU n))) = set (snd (window_run n xs []))"
  using lru_run_refines [OF lru_rel_new [OF assms(1)] assms(2)] by (simp add: lru_rel_def)

theorem lru_is_window_witness:
  "fst (lru_run [''a'', ''b'', ''a'', ''c'', ''a''] (newLRU 2)) = [True, True, False, True, True]"
  using lru_is_window [of 2 "[''a'', ''b'', ''a'', ''c'', ''a'']"] by (simp add: window_add_def)

lemma dial_loop_spec:
  assumes "dial_loop dial r a slept v = (d, slept', v')" and "a \<le> 8" and "slept = map (\<lambda>i. 500 * (i + 1)) [0..<a]"
  shows "slept' = map (\<lambda>i. 500 * (i + 1)) [0..<length slept'] \<and> length slept' \<le> 8 \<and>
    (d = GaveUp \<longrightarrow> length slept' = 8) \<and> (d = FatalExit \<longrightarrow> \<not> r \<and> slept' = [])"
  using assms
proof (induction dial r a slept v arbitrary: d slept' v' rule: dial_loop.induct)
  case (1 dial r a slept v)
  obtain ok v1 where o: "dial v = (ok, v1)" by (cases "dial v")
  show ?case
  proof (cases "ok \<or> (a = 0 \<and> \<not> r) \<or> a \<ge> 8")
    case True
    then show ?thesis using 1(2,3,4) o by (auto split: if_splits bool.splits)
  next
    case False
    with 1(2) o have "dial_loop dial r (a + 1) (slept @ [500 * (a + 1)]) v1 = (d, slept', v')"
      by (auto split: if_splits bool.splits)
    moreover from False have "a + 1 \<le> 8" by simp
    moreover have "slept @ [500 * (a + 1)] = map (\<lambda>i. 500 * (i + 1)) [0..<a + 1]" by (simp add: 1(4))
    ultimately show ?thesis using 1(1) [OF o [symmetric] _ _ _ ] False by auto
  qed
qed

text \<open>
  Dialling is bounded. \<open>runSession\<close> sleeps 0.5, 1.0, .. seconds between attempts, at most eight
  times, so it dials at most nine times; it gives up only after all of them and exits at once only
  when the very first connection of the process fails.
\<close>

theorem dial_bounded:
  assumes "dial_loop dial inReconnect 0 [] v = (d, slept, v')"
  shows "slept = map (\<lambda>i. 500 * (i + 1)) [0..<length slept] \<and> length slept \<le> 8 \<and>
    (d = GaveUp \<longrightarrow> length slept = 8) \<and> (d = FatalExit \<longrightarrow> \<not> inReconnect \<and> slept = [])"
  using dial_loop_spec [OF assms] by simp

theorem dial_bounded_witness:
  "\<exists>slept v'. dial_loop (\<lambda>v. (v = 2, v + 1)) True 0 [] (0 :: nat) = (Connected, slept, v') \<and> slept = [500, 1000]"
  using dial_bounded [of "\<lambda>v. (v = 2, v + 1)" True "0 :: nat"] by simp


end
