(* ===== verification/Snowflake.thy ===== *)
theory Snowflake
  imports Prelude
begin

unbundle bit_operations_syntax

text \<open>
  The identifier generator of \<^verbatim>\<open>pkg/snowflake/snowflake.go\<close>: a 41-bit millisecond timestamp, a
  10-bit node number and a 12-bit sequence in a signed 64-bit integer. The clock is the world's:
  \<open>now\<close> returns \<open>time.Now().UnixMilli()\<close> and the world after the reading. \<open>Next\<close> spins when a
  millisecond's sequence is used up, so it may not return: it is an option, and a clock that makes
  progress (the locale \<open>ms_clock\<close>) makes it return.

  With a clock that never goes back the identifiers of a node strictly increase; identifiers of
  different nodes differ. When the clock goes back, \<open>Next\<close> returns the identifier it returned last.
\<close>

section \<open>Constants and the node\<close>

definition nodeBits :: nat where "nodeBits = 10"
definition sequenceBits :: nat where "sequenceBits = 12"

definition maxNode :: int where
  "maxNode = (- 1) XOR (push_bit nodeBits (- 1))"

definition maxSequence :: int where
  "maxSequence = (- 1) XOR (push_bit sequenceBits (- 1))"

definition nodeShift :: nat where "nodeShift = sequenceBits"
definition timestampShift :: nat where "timestampShift = nodeBits + sequenceBits"
definition epochMs :: int where "epochMs = 1704067200000"

lemma snowflake_consts [simp]:
  "maxNode = 1023" "maxSequence = 4095" "nodeShift = 12" "timestampShift = 22"
  by (simp_all add: maxNode_def maxSequence_def nodeShift_def timestampShift_def nodeBits_def
      sequenceBits_def mask_eq_exp_minus_1)

definition ErrInvalidNode :: error where
  "ErrInvalidNode = Err ''snowflake: node id out of range [0,1023]''"

record Node =
  nNode :: int
  nLastMs :: int
  nSequence :: int

definition NewNode :: "int \<Rightarrow> Node result" where
  "NewNode nodeID =
     (if nodeID < 0 \<or> nodeID > maxNode then Inl ErrInvalidNode
      else Inr \<lparr>nNode = nodeID, nLastMs = 0, nSequence = 0\<rparr>)"

section \<open>Next\<close>

text \<open>Two's complement wrap-around of a 64-bit integer.\<close>

definition wrap64 :: "int \<Rightarrow> int" where
  "wrap64 i = signed_take_bit 63 i"

text \<open>\<open>for now <= n.lastMs { time.Sleep(..); now = time.Now().UnixMilli() }\<close>\<close>

partial_function (option) spin ::
  "('w \<Rightarrow> int \<times> 'w) \<Rightarrow> int \<Rightarrow> int \<Rightarrow> 'w \<Rightarrow> (int \<times> 'w) option" where
  "spin now lastMs t w =
     (if t \<le> lastMs then (case now w of (t', w') \<Rightarrow> spin now lastMs t' w') else Some (t, w))"

definition compose_id :: "int \<Rightarrow> int \<Rightarrow> int \<Rightarrow> int" where
  "compose_id t node sequence =
     wrap64 (push_bit timestampShift (wrap64 (t - epochMs)))
       OR wrap64 (push_bit nodeShift node) OR sequence"

definition Next :: "('w \<Rightarrow> int \<times> 'w) \<Rightarrow> Node \<Rightarrow> 'w \<Rightarrow> (int \<times> Node \<times> 'w) option" where
  "Next now n w =
     (case now w of (t, w1) \<Rightarrow>
        case (if t < nLastMs n then Some (nLastMs n, nSequence n, w1)
              else if t = nLastMs n then
                let s = (nSequence n + 1) AND maxSequence in
                if s = 0 then map_option (\<lambda>(t', w'). (t', 0, w')) (spin now (nLastMs n) t w1)
                else Some (t, s, w1)
              else Some (t, 0, w1)) of
          None \<Rightarrow> None
        | Some (t', s, w2) \<Rightarrow>
            Some (compose_id t' (nNode n) s, n\<lparr>nLastMs := t', nSequence := s\<rparr>, w2))"

text \<open>The identifiers of \<open>k\<close> calls in a row, and the node and the world after them.\<close>

fun Next_run :: "('w \<Rightarrow> int \<times> 'w) \<Rightarrow> nat \<Rightarrow> Node \<Rightarrow> 'w \<Rightarrow> (int list \<times> Node \<times> 'w) option" where
  "Next_run now 0 n w = Some ([], n, w)"
| "Next_run now (Suc k) n w =
     (case Next now n w of
        None \<Rightarrow> None
      | Some (i, n', w') \<Rightarrow> map_option (\<lambda>(is, r). (i # is, r)) (Next_run now k n' w'))"

section \<open>The bit layout\<close>

text \<open>The timestamps that fit: 41 bits of milliseconds from the epoch.\<close>

definition ms_fits :: "int \<Rightarrow> bool" where
  "ms_fits t \<longleftrightarrow> epochMs \<le> t \<and> t - epochMs < 2 ^ 41"

definition node_ok :: "Node \<Rightarrow> bool" where
  "node_ok n \<longleftrightarrow> 0 \<le> nNode n \<and> nNode n \<le> maxNode \<and> 0 \<le> nSequence n \<and> nSequence n \<le> maxSequence"

lemma wrap64_id: "- (2 ^ 63) \<le> i \<Longrightarrow> i < 2 ^ 63 \<Longrightarrow> wrap64 i = i"
  unfolding wrap64_def by (subst signed_take_bit_int_eq_self_iff) simp

lemma or_shifted:
  assumes "0 \<le> b" and "b < 2 ^ k"
  shows "push_bit k a OR b = a * 2 ^ k + (b :: int)"
proof -
  have "push_bit k a AND b = 0"
  proof (rule bit_eqI)
    fix n
    have "bit b n \<Longrightarrow> n < k"
      using assms by (metis bit_take_bit_iff take_bit_int_eq_self)
    then show "bit (push_bit k a AND b) n = bit (0 :: int) n"
      by (auto simp: bit_simps)
  qed
  then have "push_bit k a + b = push_bit k a OR b" by (rule disjunctive_add_eq_or)
  then show ?thesis by (simp add: push_bit_eq_mult)
qed

lemma compose_id_arith:
  assumes "ms_fits t" and "0 \<le> node" "node \<le> 1023" and "0 \<le> s" "s \<le> 4095"
  shows "compose_id t node s = (t - epochMs) * 2 ^ 22 + node * 2 ^ 12 + s"
proof -
  from assms(1) have d: "0 \<le> t - epochMs" "t - epochMs < 2 ^ 41" by (simp_all add: ms_fits_def)
  then have "wrap64 (t - epochMs) = t - epochMs" by (intro wrap64_id) auto
  moreover have "wrap64 (push_bit 22 (t - epochMs)) = push_bit 22 (t - epochMs)"
    using d by (intro wrap64_id) (auto simp: push_bit_eq_mult)
  moreover have "wrap64 (push_bit 12 node) = push_bit 12 node"
    using assms(2,3) by (intro wrap64_id) (auto simp: push_bit_eq_mult)
  moreover have "push_bit 12 node OR s = node * 2 ^ 12 + s"
    using assms(4,5) by (intro or_shifted) auto
  moreover have "push_bit 22 (t - epochMs) OR (node * 2 ^ 12 + s) = (t - epochMs) * 2 ^ 22 + (node * 2 ^ 12 + s)"
    using assms(2-5) by (intro or_shifted) auto
  ultimately show ?thesis by (simp add: compose_id_def or.assoc)
qed

text \<open>The three fields can be read back, so they are determined by the identifier.\<close>

lemma compose_id_fields:
  assumes "ms_fits t" and "0 \<le> node" "node \<le> 1023" and "0 \<le> s" "s \<le> 4095"
  shows "compose_id t node s mod 4096 = s" and "compose_id t node s div 4096 mod 1024 = node"
    and "compose_id t node s div 4096 div 1024 = t - epochMs"
proof -
  define q where "q = t - epochMs"
  define p where "p = node + q * 1024"
  have eq: "compose_id t node s = s + p * 4096"
    by (simp add: compose_id_arith [OF assms] p_def q_def algebra_simps)
  show "compose_id t node s mod 4096 = s" using assms(4,5) by (simp add: eq)
  have d: "compose_id t node s div 4096 = p"
    using assms(4,5) by (simp add: eq)
  show "compose_id t node s div 4096 mod 1024 = node" using assms(2,3) by (simp add: d p_def)
  show "compose_id t node s div 4096 div 1024 = t - epochMs" using assms(2,3) by (simp add: d p_def flip: q_def)
qed

lemma compose_id_inject:
  assumes "ms_fits t" "ms_fits t'" and "0 \<le> node" "node \<le> 1023" "0 \<le> node'" "node' \<le> 1023"
    and "0 \<le> s" "s \<le> 4095" "0 \<le> s'" "s' \<le> 4095"
    and "compose_id t node s = compose_id t' node' s'"
  shows "t = t' \<and> node = node' \<and> s = s'"
  using compose_id_fields [of t node s] compose_id_fields [of t' node' s'] assms by auto

lemma compose_id_less:
  assumes "ms_fits t" "ms_fits t'" and "0 \<le> node" "node \<le> 1023"
    and "0 \<le> s" "s \<le> 4095" "0 \<le> s'" "s' \<le> 4095" and "t < t' \<or> t = t' \<and> s < s'"
  shows "compose_id t node s < compose_id t' node s'"
  using assms by (auto simp: compose_id_arith)

lemma compose_id_positive:
  assumes "ms_fits t" and "0 \<le> node" "node \<le> 1023" and "0 \<le> s" "s \<le> 4095"
  shows "0 \<le> compose_id t node s \<and> compose_id t node s < 2 ^ 63"
  using assms by (simp add: compose_id_arith ms_fits_def)

section \<open>One call\<close>

lemma and_maxSequence: "0 \<le> s \<Longrightarrow> s \<le> 4095 \<Longrightarrow> (s + 1) AND 4095 = (if s = 4095 then 0 else s + (1 :: int))"
proof -
  assume s: "0 \<le> s" "s \<le> 4095"
  have "(s + 1) AND 4095 = take_bit 12 (s + 1)"
    by (simp add: take_bit_eq_mask mask_eq_exp_minus_1)
  also have "\<dots> = (if s = 4095 then 0 else s + 1)"
    using s by (auto simp: take_bit_int_eq_self)
  finally show ?thesis .
qed

lemma spin_gt: "spin now lastMs t w = Some (t', w') \<Longrightarrow> lastMs < t'"
proof -
  assume ret: "spin now lastMs t w = Some (t', w')"
  have "lastMs < fst (t', w')"
  proof (rule spin.raw_induct [where P = "\<lambda>now lastMs t w r. lastMs < fst r", OF _ ret])
    fix f :: "('a \<Rightarrow> int \<times> 'a) \<Rightarrow> int \<Rightarrow> int \<Rightarrow> 'a \<Rightarrow> (int \<times> 'a) option" and now lastMs t w y
    assume "\<And>now lastMs t w y. f now lastMs t w = Some y \<Longrightarrow> lastMs < fst y"
      and "(if t \<le> lastMs then case now w of (t', w') \<Rightarrow> f now lastMs t' w' else Some (t, w)) = Some y"
    then show "lastMs < fst y" by (auto split: if_splits prod.splits)
  qed
  then show ?thesis by simp
qed

text \<open>What reading the clock keeps, a call keeps.\<close>

lemma spin_keeps:
  assumes "spin now lastMs t w = Some (t', w')" and "I w" and "\<And>w t w'. I w \<Longrightarrow> now w = (t, w') \<Longrightarrow> I w'"
  shows "I w'"
proof -
  have "I w \<and> (\<forall>w t w'. I w \<longrightarrow> now w = (t, w') \<longrightarrow> I w') \<longrightarrow> I (snd (t', w'))"
  proof (rule spin.raw_induct [where P = "\<lambda>now lastMs t w r. I w \<and> (\<forall>w t w'. I w \<longrightarrow> now w = (t, w') \<longrightarrow> I w') \<longrightarrow> I (snd r)",
      OF _ assms(1)])
    fix f :: "('a \<Rightarrow> int \<times> 'a) \<Rightarrow> int \<Rightarrow> int \<Rightarrow> 'a \<Rightarrow> (int \<times> 'a) option" and now lastMs t w y
    assume IH: "\<And>now lastMs t w y. f now lastMs t w = Some y \<Longrightarrow>
        I w \<and> (\<forall>w t w'. I w \<longrightarrow> now w = (t, w') \<longrightarrow> I w') \<longrightarrow> I (snd y)"
      and step: "(if t \<le> lastMs then case now w of (t', w') \<Rightarrow> f now lastMs t' w' else Some (t, w)) = Some y"
    show "I w \<and> (\<forall>w t w'. I w \<longrightarrow> now w = (t, w') \<longrightarrow> I w') \<longrightarrow> I (snd y)"
    proof (cases "t \<le> lastMs")
      case True
      obtain t1 w1 where now: "now w = (t1, w1)" by (cases "now w")
      with step True have "f now lastMs t1 w1 = Some y" by simp
      from IH [OF this] now show ?thesis by blast
    qed (use step in auto)
  qed
  with assms(2,3) show ?thesis by auto
qed

lemma Next_keeps:
  assumes "Next now n w = Some (i, n', w')" and "I w" and "\<And>w t w'. I w \<Longrightarrow> now w = (t, w') \<Longrightarrow> I w'"
  shows "I w'"
proof -
  obtain t w1 where now: "now w = (t, w1)" by (cases "now w")
  have "I w1" by (rule assms(3) [OF assms(2) now])
  with assms(1) now spin_keeps [where I = I, OF _ \<open>I w1\<close> assms(3)] show ?thesis
    by (auto simp: Next_def Let_def split: if_splits option.splits)
qed

text \<open>Whatever the clock does, a node keeps its number and a sequence in range.\<close>

lemma Next_node_ok:
  assumes "node_ok n" and "Next now n w = Some (i, n', w')"
  shows "node_ok n' \<and> nNode n' = nNode n \<and> nLastMs n \<le> nLastMs n' \<and>
    i = compose_id (nLastMs n') (nNode n') (nSequence n')"
  using assms and_maxSequence [of "nSequence n"]
  by (auto simp: Next_def node_ok_def Let_def dest: spin_gt
      split: prod.splits if_splits option.splits)

text \<open>A reading behind the last one repeats the last identifier.\<close>

lemma Next_rollback:
  assumes "now w = (t, w')" and "t < nLastMs n"
  shows "Next now n w = Some (compose_id (nLastMs n) (nNode n) (nSequence n), n, w')"
  using assms by (simp add: Next_def)

section \<open>A clock that does not go back\<close>

locale ms_clock =
  fixes now :: "'w \<Rightarrow> int \<times> 'w"
    and at_least :: "'w \<Rightarrow> int"
    and good :: "'w \<Rightarrow> bool"
  assumes now_mono: "good w \<Longrightarrow> now w = (t, w') \<Longrightarrow> at_least w \<le> t \<and> t = at_least w' \<and> good w'"
    and progress: "good w \<Longrightarrow> \<exists>k. b < at_least (((\<lambda>w. snd (now w)) ^^ k) w)"
begin

lemma spin_returns:
  assumes "good w" and "t = at_least w"
  shows "\<exists>t' w'. spin now b t w = Some (t', w') \<and> t \<le> t' \<and> t' = at_least w' \<and> good w'"
proof -
  from progress [OF assms(1)] obtain k where "b < at_least (((\<lambda>w. snd (now w)) ^^ k) w)" by blast
  with assms show ?thesis
  proof (induction k arbitrary: w t)
    case 0
    then show ?case by (subst spin.simps) auto
  next
    case (Suc k)
    obtain t1 w1 where now: "now w = (t1, w1)" by (cases "now w")
    from now_mono [OF Suc.prems(1) now] have t1: "at_least w \<le> t1" "t1 = at_least w1" "good w1" by auto
    show ?case
    proof (cases "t \<le> b")
      case True
      from Suc.prems(3) now have "b < at_least (((\<lambda>w. snd (now w)) ^^ k) w1)"
        by (simp add: funpow_Suc_right del: funpow.simps)
      from Suc.IH [OF t1(3,2) this] True now t1(1) Suc.prems(2) show ?thesis
        by (subst spin.simps) auto
    next
      case False
      with Suc.prems show ?thesis by (subst spin.simps) auto
    qed
  qed
qed

text \<open>One call returns, with a later timestamp or the same one and a larger sequence.\<close>

lemma Next_advances:
  assumes "good w" and "node_ok n" and "nLastMs n \<le> at_least w"
  shows "\<exists>i n' w'. Next now n w = Some (i, n', w') \<and> good w' \<and> nLastMs n' \<le> at_least w' \<and>
    (nLastMs n < nLastMs n' \<or> nLastMs n = nLastMs n' \<and> nSequence n < nSequence n') \<and>
    at_least w \<le> nLastMs n'"
proof -
  obtain t w1 where now: "now w = (t, w1)" by (cases "now w")
  from now_mono [OF assms(1) now] assms(3) have t: "at_least w \<le> t" "nLastMs n \<le> t" "t = at_least w1" "good w1"
    by auto
  from assms(2) have s: "0 \<le> nSequence n" "nSequence n \<le> 4095" by (auto simp: node_ok_def)
  note seq = and_maxSequence [OF s]
  show ?thesis
  proof (cases "t = nLastMs n \<and> nSequence n = 4095")
    case True
    from spin_returns [OF t(4,3)] obtain t' w' where
      sp: "spin now t t w1 = Some (t', w')" "t \<le> t'" "t' = at_least w'" "good w'" by blast
    from spin_gt [OF sp(1)] sp True now t(1) seq show ?thesis by (simp add: Next_def)
  next
    case False
    with t now seq s show ?thesis by (auto simp: Next_def Let_def)
  qed
qed

text \<open>
  The identifiers of a run strictly increase, as long as its last timestamp is inside the 41 bits:
  every one is above the identifier of the state the run starts in.
\<close>

lemma Next_run_returns:
  assumes "good w" and "node_ok n" and "nLastMs n \<le> at_least w"
  shows "\<exists>is n' w'. Next_run now k n w = Some (is, n', w') \<and> length is = k \<and> nLastMs n \<le> nLastMs n'"
  using assms
proof (induction k arbitrary: n w)
  case (Suc k)
  from Next_advances [OF Suc.prems] obtain i n1 w1 where
    nx: "Next now n w = Some (i, n1, w1)" "good w1" "nLastMs n1 \<le> at_least w1" by blast
  from Next_node_ok [OF Suc.prems(2) nx(1)] have "node_ok n1" "nLastMs n \<le> nLastMs n1" by auto
  with Suc.IH [OF nx(2) _ nx(3)] nx(1) show ?case by fastforce
qed simp

lemma Next_run_increasing:
  assumes "good w" and "node_ok n" and "nLastMs n \<le> at_least w" and "epochMs \<le> at_least w"
    and "Next_run now k n w = Some (is, n', w')" and "nLastMs n' < epochMs + 2 ^ 41"
  shows "sorted_wrt (<) is \<and>
    (\<forall>i \<in> set is. ms_fits (nLastMs n) \<longrightarrow> compose_id (nLastMs n) (nNode n) (nSequence n) < i)"
  using assms(1-5)
proof (induction k arbitrary: n w "is")
  case (Suc k)
  from Next_advances [OF Suc.prems(1-3)] obtain i n1 w1 where
    nx: "Next now n w = Some (i, n1, w1)" "good w1" "nLastMs n1 \<le> at_least w1"
    and adv: "nLastMs n < nLastMs n1 \<or> nLastMs n = nLastMs n1 \<and> nSequence n < nSequence n1"
    and lo: "at_least w \<le> nLastMs n1" by blast
  from Next_node_ok [OF Suc.prems(2) nx(1)] have n1: "node_ok n1" "nNode n1 = nNode n"
    and i: "i = compose_id (nLastMs n1) (nNode n) (nSequence n1)" by auto
  from Suc.prems(5) nx(1) obtain js where js: "is = i # js" "Next_run now k n1 w1 = Some (js, n', w')"
    by auto
  from Next_run_returns [OF nx(2) n1(1) nx(3), of k] js(2) have "nLastMs n1 \<le> nLastMs n'" by auto
  with assms(6) lo Suc.prems(4) have fits: "ms_fits (nLastMs n1)" by (simp add: ms_fits_def)
  from Suc.IH [OF nx(2) n1(1) nx(3) _ js(2)] lo Suc.prems(4) nx(3) fits i n1(2)
  have above: "sorted_wrt (<) js" "\<forall>j \<in> set js. i < j" by auto
  have less: "compose_id (nLastMs n) (nNode n) (nSequence n) < i" if "ms_fits (nLastMs n)"
    unfolding i using that fits Suc.prems(2) n1 adv
    by (intro compose_id_less) (auto simp: node_ok_def)
  from above less show ?case by (auto simp: js(1) intro: less_trans)
qed simp

end

section \<open>A clock as its readings\<close>

text \<open>
  The clock of a process as the sequence of its readings; the world is the position of the next
  one.
\<close>

type_synonym readings = "(nat \<Rightarrow> int) \<times> nat"

definition clock_now :: "readings \<Rightarrow> int \<times> readings" where
  "clock_now c = (fst c (snd c), (fst c, Suc (snd c)))"

definition clock_floor :: "readings \<Rightarrow> int" where
  "clock_floor c = (if snd c = 0 then fst c 0 else fst c (snd c - 1))"

definition clock_good :: "readings \<Rightarrow> bool" where
  "clock_good c \<longleftrightarrow> mono (fst c) \<and> (\<forall>b. \<exists>k. b < fst c k)"

lemma clock_iter: "((\<lambda>w. snd (clock_now w)) ^^ k) (c, i) = (c, i + k)"
  by (induction k arbitrary: i) (simp_all add: clock_now_def funpow_swap1)

interpretation clk: ms_clock clock_now clock_floor clock_good
proof unfold_locales
  fix w w' :: readings and t
  assume "clock_good w" and "clock_now w = (t, w')"
  then show "clock_floor w \<le> t \<and> t = clock_floor w' \<and> clock_good w'"
    by (auto simp: clock_now_def clock_floor_def clock_good_def monoD)
next
  fix w :: readings and b
  assume good: "clock_good w"
  then obtain k where k: "b < fst w k" by (auto simp: clock_good_def)
  have "fst w k \<le> fst w (snd w + k)" using good by (auto simp: clock_good_def monoD)
  with k have "b < clock_floor (((\<lambda>w. snd (clock_now w)) ^^ Suc k) w)"
    using clock_iter [of "Suc k" "fst w" "snd w"] by (simp add: clock_floor_def del: funpow.simps)
  then show "\<exists>k. b < clock_floor (((\<lambda>w. snd (clock_now w)) ^^ k) w)" by blast
qed

section \<open>Properties\<close>

lemma clock_linear_good: "clock_good (\<lambda>k. a + int k, i)"
proof -
  have "\<exists>k. b < a + int k" for b by (rule exI [of _ "nat (b - a + 1)"]) simp
  then show ?thesis unfolding clock_good_def by (simp add: mono_def)
qed

text \<open>
  C16: with a clock that never goes back and reaches every time, any number of calls to \<open>Next\<close> on a
  node returns, and as long as the 41 bits of the timestamp suffice the identifiers strictly
  increase, so none is given twice.
\<close>

theorem snowflake_increasing:
  assumes "clock_good w" and "node_ok n" and "nLastMs n \<le> clock_floor w" and "epochMs \<le> clock_floor w"
  shows "\<exists>is n' w'. Next_run clock_now k n w = Some (is, n', w') \<and> length is = k \<and>
    (nLastMs n' < epochMs + 2 ^ 41 \<longrightarrow> sorted_wrt (<) is \<and> distinct is)"
proof -
  from clk.Next_run_returns [OF assms(1-3)] obtain "is" n' w' where
    run: "Next_run clock_now k n w = Some (is, n', w')" "length is = k" by blast
  with clk.Next_run_increasing [OF assms run(1)] show ?thesis
    by (auto simp: strict_sorted_iff)
qed

theorem snowflake_increasing_witness:
  "\<exists>is n' w'. Next_run clock_now 5000 \<lparr>nNode = 3, nLastMs = 0, nSequence = 0\<rparr> (\<lambda>k. epochMs + int k, 0) = Some (is, n', w') \<and>
    length is = 5000"
  using snowflake_increasing [OF clock_linear_good [of epochMs 0], of "\<lparr>nNode = 3, nLastMs = 0, nSequence = 0\<rparr>" 5000]
  by (auto simp: node_ok_def clock_floor_def epochMs_def)



text \<open>
  When the clock goes back behind the node's last timestamp, \<open>Next\<close> returns the identifier it
  returned last, with the same sequence, and stays in the same state.
\<close>

theorem snowflake_rollback_repeats:
  assumes "Next now n w = Some (i, n', w')" and "node_ok n" and "now w' = (t, w'')" and "t < nLastMs n'"
  shows "Next now n' w' = Some (i, n', w'')"
  using Next_rollback [of now w' t w'' n'] Next_node_ok [OF assms(2,1)] assms(3,4) by simp

theorem snowflake_rollback_repeats_witness:
  "\<exists>i n' w' w''. Next clock_now \<lparr>nNode = 3, nLastMs = 0, nSequence = 0\<rparr> (\<lambda>k. epochMs - int k, 0) = Some (i, n', w') \<and>
    Next clock_now n' w' = Some (i, n', w'')"
  using snowflake_rollback_repeats [of clock_now "\<lparr>nNode = 3, nLastMs = 0, nSequence = 0\<rparr>" "(\<lambda>k. epochMs - int k, 0)"]
  by (simp add: node_ok_def Next_def clock_now_def epochMs_def)

end
