(* ===== verification/Services.thy ===== *)
theory Services
  imports GoStrings Snowflake
begin

text \<open>
  The services outside the repository, as the code sees them: a Redis client, a MySQL client and a
  Kafka producer. None of their code is modelled: each is a record of calls on an unknown world
  \<open>'w\<close>, a parameter of every definition that uses it. What the program relies on is the locale
  \<open>services\<close>: a view \<open>st\<close> of the world (the Redis keyspace, the MySQL tables, the Kafka log) and the
  documented effect of each call on it. A call that fails has either not happened or happened
  without its answer arriving, so the laws of a failed write allow both. Keys do not expire and no
  other client writes within a run the lemmas speak about.

  The last section is an executable instance, a world that keeps the three stores in lists and
  fails on demand; it interprets the locale and the witnesses compute with it.
\<close>

section \<open>The tables\<close>

text \<open>
  The rows of \<^verbatim>\<open>migrations/\<close>, without the columns no query reads (\<open>updated_at\<close>, \<open>top\<close>, \<open>muted\<close>,
  \<open>remark\<close>, \<open>max_members\<close> and the creation times other than a message's).
\<close>

record user_row =
  uId :: int
  uName :: string
  uHash :: string
  uNick :: string

record friend_row =
  frUid :: int
  frFriend :: int
  frStatus :: int

record group_row =
  gId :: int
  gName :: string
  gOwner :: int

record member_row =
  gmGroup :: int
  gmUid :: int
  gmRole :: int

record conv_row =
  cvUid :: int
  cvConv :: string
  cvType :: int
  cvTarget :: int
  cvLast :: int
  cvRead :: int
  cvUnread :: int

record message_row =
  msId :: nat
  msConv :: string
  msSeq :: int
  msSender :: int
  msType :: int
  msPayload :: bytes
  msStatus :: int
  msCreated :: int

record tables =
  tUser :: "user_row list"
  tFriend :: "friend_row list"
  tGroup :: "group_row list"
  tMember :: "member_row list"
  tConv :: "conv_row list"
  tMsg :: "string \<Rightarrow> message_row list"

section \<open>The keyspace\<close>

text \<open>
  A Redis key holds a string, a hash, a set or a sorted set (scores are always 0 here). The
  collections are lists; no law depends on their order.
\<close>

datatype rvalue = VStr string | VHash "(string \<times> string) list" | VSet "string list" | VZSet "string list"

type_synonym keyspace = "string \<rightharpoonup> rvalue"

definition hash_at :: "keyspace \<Rightarrow> string \<Rightarrow> string \<rightharpoonup> string" where
  "hash_at K k = (case K k of Some (VHash h) \<Rightarrow> map_of h | _ \<Rightarrow> Map.empty)"

definition set_at :: "keyspace \<Rightarrow> string \<Rightarrow> string set" where
  "set_at K k = (case K k of Some (VSet s) \<Rightarrow> set s | _ \<Rightarrow> {})"

definition zset_at :: "keyspace \<Rightarrow> string \<Rightarrow> string set" where
  "zset_at K k = (case K k of Some (VZSet s) \<Rightarrow> set s | _ \<Rightarrow> {})"

text \<open>A Kafka record; and the three stores together with the last reading of the clock.\<close>

record kmsg =
  kmTopic :: string
  kmKey :: bytes
  kmValue :: bytes
  kmHeaders :: "(string \<times> string) list"

record svc =
  sKeys :: keyspace
  sTabs :: tables
  sLog :: "kmsg list"
  sLast :: int

section \<open>The clients\<close>

text \<open>The calls of go-redis the program makes; times to live are in milliseconds.\<close>

record 'w redis =
  rGet :: "string \<Rightarrow> ('w, string) call"
  rSet :: "string \<Rightarrow> string \<Rightarrow> int \<Rightarrow> ('w, unit) call"
  rSetNX :: "string \<Rightarrow> string \<Rightarrow> int \<Rightarrow> ('w, bool) call"
  rDel :: "string \<Rightarrow> ('w, unit) call"
  rIncr :: "string \<Rightarrow> ('w, int) call"
  rExists :: "string \<Rightarrow> ('w, int) call"
  rHSet :: "string \<Rightarrow> string \<Rightarrow> string \<Rightarrow> ('w, unit) call"
  rHDel :: "string \<Rightarrow> string list \<Rightarrow> ('w, unit) call"
  rHGetAll :: "string \<Rightarrow> ('w, (string \<times> string) list) call"
  rHLen :: "string \<Rightarrow> ('w, int) call"
  rSMembers :: "string \<Rightarrow> ('w, string list) call"
  rSAdd :: "string \<Rightarrow> string list \<Rightarrow> ('w, unit) call"
  rExpire :: "string \<Rightarrow> int \<Rightarrow> ('w, unit) call"
  rZRank :: "string \<Rightarrow> string \<Rightarrow> ('w, int) call"
  rZAdd :: "string \<Rightarrow> string list \<Rightarrow> ('w, unit) call"
  rScan :: "nat \<Rightarrow> string \<Rightarrow> int \<Rightarrow> ('w, string list \<times> nat) call"

text \<open>
  A query sees the tables and its rows are computed from them; a statement is a function on the
  tables, with \<open>Inl\<close> for a violated key. A transaction is one statement of its parts.
\<close>

record 'w mysql =
  mQuery :: "('w, tables) call"
  mExec :: "(tables \<Rightarrow> tables result) \<Rightarrow> ('w, unit) call"

type_synonym 'w kwriter = "kmsg \<Rightarrow> ('w, unit) call"

section \<open>What the program relies on\<close>

text \<open>
  The effect of a write: it happened, or it failed; a failed write may have happened. On the
  keyspace, everything but one key stays.
\<close>

definition wrote :: "('w \<Rightarrow> svc) \<Rightarrow> 'w \<Rightarrow> 'a result \<Rightarrow> 'w \<Rightarrow> svc \<Rightarrow> bool" where
  "wrote st w res w' s \<longleftrightarrow> st w' = s \<or> isl res \<and> st w' = st w"

definition wrote_key ::
  "('w \<Rightarrow> svc) \<Rightarrow> 'w \<Rightarrow> 'a result \<Rightarrow> 'w \<Rightarrow> string \<Rightarrow> (keyspace \<Rightarrow> bool) \<Rightarrow> bool" where
  "wrote_key st w res w' k post \<longleftrightarrow>
     sTabs (st w') = sTabs (st w) \<and> sLog (st w') = sLog (st w) \<and> sLast (st w') = sLast (st w) \<and>
     (\<forall>k'. k' \<noteq> k \<longrightarrow> sKeys (st w') k' = sKeys (st w) k') \<and> post (sKeys (st w')) \<or>
     isl res \<and> st w' = st w"

locale services =
  fixes R :: "'w redis" and M :: "'w mysql" and P :: "'w kwriter" and now :: "'w \<Rightarrow> int \<times> 'w"
    and st :: "'w \<Rightarrow> svc"
  assumes Get: "\<And>k w res w'. rGet R k w = (res, w') \<Longrightarrow> st w' = st w \<and>
      (\<forall>v. res = Inr v \<longrightarrow> sKeys (st w) k = Some (VStr v)) \<and>
      (res = Inl RedisNil \<longrightarrow> sKeys (st w) k = None)"
    and Set: "\<And>k v t w res w'. rSet R k v t w = (res, w') \<Longrightarrow>
      wrote_key st w res w' k (\<lambda>K. K k = Some (VStr v))"
    and SetNX: "\<And>k v t w res w'. rSetNX R k v t w = (res, w') \<Longrightarrow>
      (if sKeys (st w) k = None then wrote_key st w res w' k (\<lambda>K. K k = Some (VStr v)) else st w' = st w) \<and>
      (\<forall>b. res = Inr b \<longrightarrow> b = (sKeys (st w) k = None))"
    and Del: "\<And>k w res w'. rDel R k w = (res, w') \<Longrightarrow> wrote_key st w res w' k (\<lambda>K. K k = None)"
    and Incr: "\<And>k w res w'. rIncr R k w = (res, w') \<Longrightarrow>
      (\<exists>i. (sKeys (st w) k = None \<and> i = 0 \<or> sKeys (st w) k = Some (VStr (format_int i))) \<and>
         wrote_key st w res w' k (\<lambda>K. K k = Some (VStr (format_int (i + 1)))) \<and>
         (\<forall>n. res = Inr n \<longrightarrow> n = i + 1) \<and> int64 i \<and> int64 (i + 1)) \<or>
      isl res \<and> st w' = st w"
    and Exists: "\<And>k w res w'. rExists R k w = (res, w') \<Longrightarrow> st w' = st w \<and>
      (\<forall>n. res = Inr n \<longrightarrow> n = (if sKeys (st w) k = None then 0 else 1))"
    and HSet: "\<And>k f v w res w'. rHSet R k f v w = (res, w') \<Longrightarrow>
      wrote_key st w res w' k (\<lambda>K. hash_at K k = (hash_at (sKeys (st w)) k)(f \<mapsto> v) \<and>
        (sKeys (st w) k = None \<or> (\<exists>h. sKeys (st w) k = Some (VHash h))) \<and> (\<exists>h. K k = Some (VHash h)))"
    and HDel: "\<And>k fs w res w'. rHDel R k fs w = (res, w') \<Longrightarrow>
      wrote_key st w res w' k
        (\<lambda>K. hash_at K k = (\<lambda>f. if f \<in> set fs then None else hash_at (sKeys (st w)) k f) \<and>
          (K k = None \<or> (\<exists>h. K k = Some (VHash h))) \<and> (sKeys (st w) k = None \<longrightarrow> K k = None))"
    and HGetAll: "\<And>k w res w'. rHGetAll R k w = (res, w') \<Longrightarrow> st w' = st w \<and>
      (\<forall>kvs. res = Inr kvs \<longrightarrow> distinct (map fst kvs) \<and> map_of kvs = hash_at (sKeys (st w)) k)"
    and HLen: "\<And>k w res w'. rHLen R k w = (res, w') \<Longrightarrow> st w' = st w \<and>
      (\<forall>n. res = Inr n \<longrightarrow> n = int (card (dom (hash_at (sKeys (st w)) k))))"
    and SMembers: "\<And>k w res w'. rSMembers R k w = (res, w') \<Longrightarrow> st w' = st w \<and>
      (\<forall>vs. res = Inr vs \<longrightarrow> distinct vs \<and> set vs = set_at (sKeys (st w)) k)"
    and SAdd: "\<And>k vs w res w'. rSAdd R k vs w = (res, w') \<Longrightarrow>
      wrote_key st w res w' k (\<lambda>K. set_at K k = set_at (sKeys (st w)) k \<union> set vs \<and>
        (sKeys (st w) k = None \<or> (\<exists>s. sKeys (st w) k = Some (VSet s))))"
    and Expire: "\<And>k t w res w'. rExpire R k t w = (res, w') \<Longrightarrow> st w' = st w"
    and ZRank: "\<And>k v w res w'. rZRank R k v w = (res, w') \<Longrightarrow> st w' = st w \<and>
      (\<forall>n. res = Inr n \<longrightarrow> v \<in> zset_at (sKeys (st w)) k) \<and>
      (res = Inl RedisNil \<longrightarrow> v \<notin> zset_at (sKeys (st w)) k)"
    and ZAdd: "\<And>k vs w res w'. rZAdd R k vs w = (res, w') \<Longrightarrow>
      wrote_key st w res w' k (\<lambda>K. zset_at K k = zset_at (sKeys (st w)) k \<union> set vs \<and>
        (sKeys (st w) k = None \<or> (\<exists>s. sKeys (st w) k = Some (VZSet s))))"
    and Scan: "\<And>c p n w res w'. rScan R c p n w = (res, w') \<Longrightarrow> st w' = st w"
    and Query: "\<And>w res w'. mQuery M w = (res, w') \<Longrightarrow> st w' = st w \<and> (\<forall>t. res = Inr t \<longrightarrow> t = sTabs (st w))"
    and Exec: "\<And>q w res w'. mExec M q w = (res, w') \<Longrightarrow>
      (case q (sTabs (st w)) of
         Inr t \<Rightarrow> wrote st w res w' ((st w)\<lparr>sTabs := t\<rparr>)
       | Inl e \<Rightarrow> st w' = st w \<and> isl res)"
    and Write: "\<And>m w res w'. P m w = (res, w') \<Longrightarrow> wrote st w res w' ((st w)\<lparr>sLog := sLog (st w) @ [m]\<rparr>)"
    and Now: "\<And>w t w'. now w = (t, w') \<Longrightarrow> st w' = (st w)\<lparr>sLast := t\<rparr>"
begin

text \<open>What every call on Redis leaves alone: the tables and the log, and every other key.\<close>

lemma wrote_key_other:
  "wrote_key st w res w' k post \<Longrightarrow> sTabs (st w') = sTabs (st w) \<and> sLog (st w') = sLog (st w) \<and>
     sLast (st w') = sLast (st w) \<and>
     (\<forall>k'. k' \<noteq> k \<longrightarrow> sKeys (st w') k' = sKeys (st w) k')"
  by (auto simp: wrote_key_def)

lemma wrote_key_ok: "wrote_key st w (Inr v) w' k post \<Longrightarrow> post (sKeys (st w'))"
  by (auto simp: wrote_key_def)

end

text \<open>A clock that never goes back and reaches every time.\<close>

locale timed_services = services +
  assumes forward: "\<And>w t w'. now w = (t, w') \<Longrightarrow> sLast (st w) \<le> t"
    and reaches: "\<And>b w. \<exists>k. b < sLast (st (((\<lambda>w. snd (now w)) ^^ k) w))"

sublocale timed_services \<subseteq> ms_clock now "\<lambda>w. sLast (st w)" "\<lambda>w. True"
proof unfold_locales
  fix w t w'
  assume "now w = (t, w')"
  then show "sLast (st w) \<le> t \<and> t = sLast (st w') \<and> True" using forward Now by fastforce
qed (use reaches in auto)

section \<open>An executable instance\<close>

text \<open>
  A world in memory. Each call takes the head of \<open>mmFaults\<close>: 0 (also when the list is empty) lets
  it succeed, 1 makes it fail before and any other number after its effect. The clock advances one
  millisecond with every reading.
\<close>

record mem =
  mmKeys :: "(string \<times> rvalue) list"
  mmTabs :: tables
  mmLog :: "kmsg list"
  mmClock :: int
  mmFaults :: "nat list"

definition mem_st :: "mem \<Rightarrow> svc" where
  "mem_st m = \<lparr>sKeys = map_of (mmKeys m), sTabs = mmTabs m, sLog = mmLog m, sLast = mmClock m\<rparr>"

definition mem_down :: error where
  "mem_down = Err ''connection refused''"

definition mem_wrongtype :: error where
  "mem_wrongtype = Err ''WRONGTYPE''"

definition mem_call :: "(mem \<Rightarrow> 'a result \<times> mem) \<Rightarrow> (mem, 'a) call" where
  "mem_call f m =
     (let m0 = m\<lparr>mmFaults := tl (mmFaults m)\<rparr>; n = (case mmFaults m of [] \<Rightarrow> 0 | n # _ \<Rightarrow> n)
      in if n = 0 then f m0 else if n = 1 then (Inl mem_down, m0) else (Inl mem_down, snd (f m0)))"

definition mem_put :: "string \<Rightarrow> rvalue option \<Rightarrow> mem \<Rightarrow> mem" where
  "mem_put k v m = m\<lparr>mmKeys := (case v of None \<Rightarrow> [] | Some x \<Rightarrow> [(k, x)]) @ filter (\<lambda>p. fst p \<noteq> k) (mmKeys m)\<rparr>"

definition mem_hash :: "string \<Rightarrow> mem \<Rightarrow> (string \<times> string) list result" where
  "mem_hash k m = (case map_of (mmKeys m) k of None \<Rightarrow> Inr [] | Some (VHash h) \<Rightarrow> Inr h | _ \<Rightarrow> Inl mem_wrongtype)"

definition mem_set :: "string \<Rightarrow> mem \<Rightarrow> string list result" where
  "mem_set k m = (case map_of (mmKeys m) k of None \<Rightarrow> Inr [] | Some (VSet s) \<Rightarrow> Inr s | _ \<Rightarrow> Inl mem_wrongtype)"

definition mem_zset :: "string \<Rightarrow> mem \<Rightarrow> string list result" where
  "mem_zset k m = (case map_of (mmKeys m) k of None \<Rightarrow> Inr [] | Some (VZSet s) \<Rightarrow> Inr s | _ \<Rightarrow> Inl mem_wrongtype)"

definition mem_redis :: "mem redis" where
  "mem_redis =
    \<lparr>rGet = \<lambda>k. mem_call (\<lambda>m. (case map_of (mmKeys m) k of
        None \<Rightarrow> Inl RedisNil | Some (VStr v) \<Rightarrow> Inr v | _ \<Rightarrow> Inl mem_wrongtype, m)),
     rSet = \<lambda>k v t. mem_call (\<lambda>m. (Inr (), mem_put k (Some (VStr v)) m)),
     rSetNX = \<lambda>k v t. mem_call (\<lambda>m. (case map_of (mmKeys m) k of
        None \<Rightarrow> (Inr True, mem_put k (Some (VStr v)) m) | _ \<Rightarrow> (Inr False, m))),
     rDel = \<lambda>k. mem_call (\<lambda>m. (Inr (), mem_put k None m)),
     rIncr = \<lambda>k. mem_call (\<lambda>m. (case map_of (mmKeys m) k of
        None \<Rightarrow> (Inr 1, mem_put k (Some (VStr (format_int 1))) m)
      | Some (VStr s) \<Rightarrow> (case parse_int s of
            Inl e \<Rightarrow> (Inl mem_wrongtype, m)
          | Inr i \<Rightarrow> if format_int i = s \<and> i < int64_max
              then (Inr (i + 1), mem_put k (Some (VStr (format_int (i + 1)))) m) else (Inl mem_wrongtype, m))
      | _ \<Rightarrow> (Inl mem_wrongtype, m))),
     rExists = \<lambda>k. mem_call (\<lambda>m. (Inr (if map_of (mmKeys m) k = None then 0 else 1), m)),
     rHSet = \<lambda>k f v. mem_call (\<lambda>m. (case mem_hash k m of
        Inl e \<Rightarrow> (Inl e, m) | Inr h \<Rightarrow> (Inr (), mem_put k (Some (VHash ((f, v) # h))) m))),
     rHDel = \<lambda>k fs. mem_call (\<lambda>m. (case mem_hash k m of
        Inl e \<Rightarrow> (Inl e, m)
      | Inr h \<Rightarrow> (let h' = filter (\<lambda>p. fst p \<notin> set fs) h in
           (Inr (), mem_put k (if h' = [] then None else Some (VHash h')) m)))),
     rHGetAll = \<lambda>k. mem_call (\<lambda>m. (case mem_hash k m of
        Inl e \<Rightarrow> Inl e | Inr h \<Rightarrow> Inr (map (\<lambda>f. (f, the (map_of h f))) (remdups (map fst h))), m)),
     rHLen = \<lambda>k. mem_call (\<lambda>m. (case mem_hash k m of
        Inl e \<Rightarrow> Inl e | Inr h \<Rightarrow> Inr (int (length (remdups (map fst h)))), m)),
     rSMembers = \<lambda>k. mem_call (\<lambda>m. (map_sum id remdups (mem_set k m), m)),
     rSAdd = \<lambda>k vs. mem_call (\<lambda>m. (case mem_set k m of
        Inl e \<Rightarrow> (Inl e, m) | Inr s \<Rightarrow> (Inr (), mem_put k (Some (VSet (s @ vs))) m))),
     rExpire = \<lambda>k t. mem_call (\<lambda>m. (Inr (), m)),
     rZRank = \<lambda>k v. mem_call (\<lambda>m. (case mem_zset k m of
        Inl e \<Rightarrow> Inl e | Inr s \<Rightarrow> if v \<in> set s then Inr 0 else Inl RedisNil, m)),
     rZAdd = \<lambda>k vs. mem_call (\<lambda>m. (case mem_zset k m of
        Inl e \<Rightarrow> (Inl e, m) | Inr s \<Rightarrow> (Inr (), mem_put k (Some (VZSet (s @ vs))) m))),
     rScan = \<lambda>c p n. mem_call (\<lambda>m. (Inr (filter (\<lambda>k. take (length p - 1) k = butlast p) (map fst (mmKeys m)), 0), m))\<rparr>"

definition mem_mysql :: "mem mysql" where
  "mem_mysql =
    \<lparr>mQuery = mem_call (\<lambda>m. (Inr (mmTabs m), m)),
     mExec = \<lambda>q. mem_call (\<lambda>m. (case q (mmTabs m) of
        Inl e \<Rightarrow> (Inl e, m) | Inr t \<Rightarrow> (Inr (), m\<lparr>mmTabs := t\<rparr>)))\<rparr>"

definition mem_kafka :: "mem kwriter" where
  "mem_kafka x = mem_call (\<lambda>m. (Inr (), m\<lparr>mmLog := mmLog m @ [x]\<rparr>))"

definition mem_now :: "mem \<Rightarrow> int \<times> mem" where
  "mem_now m = (mmClock m + 1, m\<lparr>mmClock := mmClock m + 1\<rparr>)"

lemma mem_call_cases:
  assumes "mem_call f m = (res, m')"
  obtains fs where "f (m\<lparr>mmFaults := fs\<rparr>) = (res, m')"
    | fs where "res = Inl mem_down" "m' = m\<lparr>mmFaults := fs\<rparr>"
    | fs r where "res = Inl mem_down" "f (m\<lparr>mmFaults := fs\<rparr>) = (r, m')"
  using assms by (auto simp: mem_call_def Let_def split: if_splits) (metis prod.collapse)

lemma mem_st_faults [simp]: "mem_st (m\<lparr>mmFaults := fs\<rparr>) = mem_st m"
  by (simp add: mem_st_def)

lemma mem_st_put [simp]:
  "mem_st (mem_put k v m) = (mem_st m)\<lparr>sKeys := (sKeys (mem_st m))(k := v)\<rparr>"
  by (auto simp: mem_st_def mem_put_def map_of_filter_key map_add_def fun_eq_iff split: option.splits)


lemma mem_st_simps [simp]:
  "mem_st (m\<lparr>mmTabs := t\<rparr>) = (mem_st m)\<lparr>sTabs := t\<rparr>" "mem_st (m\<lparr>mmLog := l\<rparr>) = (mem_st m)\<lparr>sLog := l\<rparr>"
  "mem_st (m\<lparr>mmClock := c\<rparr>) = (mem_st m)\<lparr>sLast := c\<rparr>"
  by (simp_all add: mem_st_def)

lemma sKeys_mem_st: "map_of (mmKeys m) = sKeys (mem_st m)" "mmTabs m = sTabs (mem_st m)" "mmLog m = sLog (mem_st m)"
  by (simp_all add: mem_st_def)

lemma map_of_remdups_keys:
  "map_of (map (\<lambda>f. (f, the (map_of h f))) (remdups (map fst h))) = map_of h"
proof
  fix k
  have "k \<in> fst ` set h \<longleftrightarrow> map_of h k \<noteq> None" by (simp add: map_of_eq_None_iff)
  then show "map_of (map (\<lambda>f. (f, the (map_of h f))) (remdups (map fst h))) k = map_of h k"
    by (cases "map_of h k") (auto simp: map_of_map_restrict restrict_map_def)
qed

lemma card_dom_map_of: "card (dom (map_of h)) = length (remdups (map fst h))"
  by (simp add: dom_map_of_conv_image_fst length_remdups_card_conv)

lemma mem_hdel_state:
  assumes "mem_hash k m = Inr h" and "h' = filter (\<lambda>p. fst p \<notin> F) h"
    and "K = (sKeys (mem_st m))(k := if h' = [] then None else Some (VHash h'))"
  shows "hash_at K k = (\<lambda>f. if f \<in> F then None else hash_at (sKeys (mem_st m)) k f) \<and>
    (K k = None \<or> (\<exists>h. K k = Some (VHash h))) \<and> (sKeys (mem_st m) k = None \<longrightarrow> K k = None)"
proof -
  from assms(1) have old: "hash_at (sKeys (mem_st m)) k = map_of h" "sKeys (mem_st m) k = None \<longrightarrow> h = []"
    by (auto simp: mem_hash_def hash_at_def sKeys_mem_st split: option.splits rvalue.splits)
  have "hash_at K k = map_of h'" by (simp add: assms(3) hash_at_def)
  then have "hash_at K k = (\<lambda>f. if f \<in> F then None else hash_at (sKeys (mem_st m)) k f)"
    unfolding old(1) assms(2) by (simp add: map_of_filter_keys)
  with old(2) show ?thesis by (simp add: assms(2,3))
qed

lemma mem_hdel_law:
  assumes "rHDel mem_redis k fs w = (res, w')"
  shows "wrote_key mem_st w res w' k
        (\<lambda>K. hash_at K k = (\<lambda>f. if f \<in> set fs then None else hash_at (sKeys (mem_st w)) k f) \<and>
          (K k = None \<or> (\<exists>h. K k = Some (VHash h))) \<and> (sKeys (mem_st w) k = None \<longrightarrow> K k = None))"
proof -
  have frame: "mem_hash k (w\<lparr>mmFaults := x\<rparr>) = mem_hash k w" for x by (simp add: mem_hash_def)
  show ?thesis
  proof (cases "mem_hash k w")
    case (Inl e)
    with assms show ?thesis
      by (auto simp: mem_redis_def frame wrote_key_def elim!: mem_call_cases)
  next
    case (Inr h)
    define K where "K = (sKeys (mem_st w))(k := if filter (\<lambda>p. fst p \<notin> set fs) h = [] then None
      else Some (VHash (filter (\<lambda>p. fst p \<notin> set fs) h)))"
    from assms Inr have "mem_st w' = (mem_st w)\<lparr>sKeys := K\<rparr> \<or> isl res \<and> mem_st w' = mem_st w"
      by (auto simp: mem_redis_def frame Let_def K_def elim!: mem_call_cases)
    moreover have "\<forall>k'. k' \<noteq> k \<longrightarrow> K k' = sKeys (mem_st w) k'" by (simp add: K_def)
    ultimately show ?thesis using mem_hdel_state [OF Inr refl K_def]
      unfolding wrote_key_def by (elim disjE) simp_all
  qed
qed

text \<open>The two shapes of a call: it reads, or it answers and moves to another state.\<close>

lemma mem_reads:
  assumes "mem_call (\<lambda>m. (g m, m)) w = (res, w')" and "\<And>fs. g (w\<lparr>mmFaults := fs\<rparr>) = g w"
  shows "mem_st w' = mem_st w \<and> (res = g w \<or> res = Inl mem_down)"
  using assms(1) by (rule mem_call_cases) (auto simp: assms(2))

lemma mem_writes:
  assumes "mem_call f w = (res, w')"
    and "\<And>fs. fst (f (w\<lparr>mmFaults := fs\<rparr>)) = fst (f w)" "\<And>fs. mem_st (snd (f (w\<lparr>mmFaults := fs\<rparr>))) = mem_st (snd (f w))"
  shows "mem_st w' = mem_st (snd (f w)) \<and> res = fst (f w) \<or>
    isl res \<and> (mem_st w' = mem_st w \<or> mem_st w' = mem_st (snd (f w)))"
  using assms(1)
proof (rule mem_call_cases)
  fix fs assume "f (w\<lparr>mmFaults := fs\<rparr>) = (res, w')"
  with assms(2,3) [of fs] show ?thesis by simp
next
  fix fs r assume "res = Inl mem_down" "f (w\<lparr>mmFaults := fs\<rparr>) = (r, w')"
  with assms(3) [of fs] show ?thesis by simp
qed simp

lemma wrote_key_put:
  assumes "mem_st w' = (mem_st w)\<lparr>sKeys := (sKeys (mem_st w))(k := v)\<rparr>" and "post ((sKeys (mem_st w))(k := v))"
  shows "wrote_key mem_st w res w' k post"
  using assms by (simp add: wrote_key_def)

lemma wrote_key_none: "isl res \<Longrightarrow> mem_st w' = mem_st w \<Longrightarrow> wrote_key mem_st w res w' k post"
  by (simp add: wrote_key_def)

lemma mem_frames [simp]:
  "mem_hash k (m\<lparr>mmFaults := fs\<rparr>) = mem_hash k m" "mem_set k (m\<lparr>mmFaults := fs\<rparr>) = mem_set k m"
  "mem_zset k (m\<lparr>mmFaults := fs\<rparr>) = mem_zset k m"
  by (simp_all add: mem_hash_def mem_set_def mem_zset_def)

lemma mem_hash_InrD:
  "mem_hash k m = Inr h \<Longrightarrow> sKeys (mem_st m) k = None \<and> h = [] \<or> sKeys (mem_st m) k = Some (VHash h)"
  by (auto simp: mem_hash_def sKeys_mem_st split: option.splits rvalue.splits)

lemma mem_set_InrD:
  "mem_set k m = Inr s \<Longrightarrow> sKeys (mem_st m) k = None \<and> s = [] \<or> sKeys (mem_st m) k = Some (VSet s)"
  by (auto simp: mem_set_def sKeys_mem_st split: option.splits rvalue.splits)

lemma mem_zset_InrD:
  "mem_zset k m = Inr s \<Longrightarrow> sKeys (mem_st m) k = None \<and> s = [] \<or> sKeys (mem_st m) k = Some (VZSet s)"
  by (auto simp: mem_zset_def sKeys_mem_st split: option.splits rvalue.splits)

lemma mem_errs [simp]:
  "mem_zset k m \<noteq> Inl RedisNil" "mem_down \<noteq> RedisNil" "mem_wrongtype \<noteq> RedisNil"
  by (auto simp: mem_zset_def mem_wrongtype_def mem_down_def split: option.splits rvalue.splits)

lemma mem_Get:
  "rGet mem_redis k w = (res, w') \<Longrightarrow> mem_st w' = mem_st w \<and>
      (\<forall>v. res = Inr v \<longrightarrow> sKeys (mem_st w) k = Some (VStr v)) \<and>
      (res = Inl RedisNil \<longrightarrow> sKeys (mem_st w) k = None)"
  by (simp add: mem_redis_def, drule mem_reads) (auto simp: sKeys_mem_st split: option.splits rvalue.splits)

lemma mem_Set:
  "rSet mem_redis k v t w = (res, w') \<Longrightarrow>
      wrote_key mem_st w res w' k (\<lambda>K. K k = Some (VStr v))"
  by (simp add: mem_redis_def, drule mem_writes) (auto intro: wrote_key_put wrote_key_none)

lemma mem_SetNX:
  "rSetNX mem_redis k v t w = (res, w') \<Longrightarrow>
      (if sKeys (mem_st w) k = None then wrote_key mem_st w res w' k (\<lambda>K. K k = Some (VStr v)) else mem_st w' = mem_st w) \<and>
      (\<forall>b. res = Inr b \<longrightarrow> b = (sKeys (mem_st w) k = None))"
  by (simp add: mem_redis_def, drule mem_writes) (auto simp: sKeys_mem_st intro: wrote_key_put wrote_key_none split: option.splits)

lemma mem_Del:
  "rDel mem_redis k w = (res, w') \<Longrightarrow> wrote_key mem_st w res w' k (\<lambda>K. K k = None)"
  by (simp add: mem_redis_def, drule mem_writes) (auto intro: wrote_key_put wrote_key_none)

lemma mem_Incr:
  "rIncr mem_redis k w = (res, w') \<Longrightarrow>
      (\<exists>i. (sKeys (mem_st w) k = None \<and> i = 0 \<or> sKeys (mem_st w) k = Some (VStr (format_int i))) \<and>
         wrote_key mem_st w res w' k (\<lambda>K. K k = Some (VStr (format_int (i + 1)))) \<and>
         (\<forall>n. res = Inr n \<longrightarrow> n = i + 1) \<and> int64 i \<and> int64 (i + 1)) \<or>
      isl res \<and> mem_st w' = mem_st w"
proof -
  assume c: "rIncr mem_redis k w = (res, w')"
  note W = mem_writes [OF c [unfolded mem_redis_def, simplified]]
  show ?thesis
  proof (cases "map_of (mmKeys w) k")
    case None
    with W have "mem_st w' = mem_st (mem_put k (Some (VStr (format_int 1))) w) \<and> (res = Inr 1 \<or> isl res) \<or>
        isl res \<and> mem_st w' = mem_st w" by auto
    then have "wrote_key mem_st w res w' k (\<lambda>K. K k = Some (VStr (format_int (0 + 1)))) \<and> (\<forall>n. res = Inr n \<longrightarrow> n = 0 + 1)"
      by (auto intro: wrote_key_put wrote_key_none)
    moreover have "sKeys (mem_st w) k = None" "int64 0" "int64 (0 + 1)" using None by (simp_all add: sKeys_mem_st int64_iff)
    ultimately show ?thesis by blast
  next
    case (Some x)
    show ?thesis
    proof (cases "\<exists>i. x = VStr (format_int i) \<and> parse_int (format_int i) = Inr i \<and> i < int64_max")
      case True
      then obtain i where i: "x = VStr (format_int i)" "parse_int (format_int i) = Inr i" "i < int64_max" by blast
      from W Some i have "mem_st w' = mem_st (mem_put k (Some (VStr (format_int (i + 1)))) w) \<and> (res = Inr (i + 1) \<or> isl res) \<or>
          isl res \<and> mem_st w' = mem_st w" by auto
      then have "wrote_key mem_st w res w' k (\<lambda>K. K k = Some (VStr (format_int (i + 1)))) \<and> (\<forall>n. res = Inr n \<longrightarrow> n = i + 1)"
        by (auto intro: wrote_key_put wrote_key_none)
      moreover have "sKeys (mem_st w) k = Some (VStr (format_int i))" "int64 i" "int64 (i + 1)"
        using Some i parse_int_range [OF i(2)] by (simp_all add: sKeys_mem_st int64_def int64_max_def int64_min_def)
      ultimately show ?thesis by blast
    next
      case False
      with W Some show ?thesis
        by (cases x) (fastforce split: sum.splits if_splits)+
    qed
  qed
qed

lemma mem_Exists:
  "rExists mem_redis k w = (res, w') \<Longrightarrow> mem_st w' = mem_st w \<and>
      (\<forall>n. res = Inr n \<longrightarrow> n = (if sKeys (mem_st w) k = None then 0 else 1))"
  by (simp add: mem_redis_def, drule mem_reads) (auto simp: sKeys_mem_st)

lemma mem_HSet:
  "rHSet mem_redis k f v w = (res, w') \<Longrightarrow>
      wrote_key mem_st w res w' k (\<lambda>K. hash_at K k = (hash_at (sKeys (mem_st w)) k)(f \<mapsto> v) \<and>
        (sKeys (mem_st w) k = None \<or> (\<exists>h. sKeys (mem_st w) k = Some (VHash h))) \<and> (\<exists>h. K k = Some (VHash h)))"
proof -
  assume c: "rHSet mem_redis k f v w = (res, w')"
  show ?thesis
  proof (cases "mem_hash k w")
    case (Inl e)
    with mem_writes [OF c [unfolded mem_redis_def, simplified]] show ?thesis by (auto intro: wrote_key_none)
  next
    case (Inr h)
    note old = mem_hash_InrD [OF this]
    from Inr mem_writes [OF c [unfolded mem_redis_def, simplified]]
    have "mem_st w' = mem_st (mem_put k (Some (VHash ((f, v) # h))) w) \<or> isl res \<and> mem_st w' = mem_st w" by auto
    then show ?thesis
    proof
      assume "mem_st w' = mem_st (mem_put k (Some (VHash ((f, v) # h))) w)"
      then show ?thesis using old by (intro wrote_key_put) (elim disjE; simp add: hash_at_def)+
    qed (auto intro: wrote_key_none)
  qed
qed

lemma mem_HDel:
  "rHDel mem_redis k fs w = (res, w') \<Longrightarrow>
      wrote_key mem_st w res w' k
        (\<lambda>K. hash_at K k = (\<lambda>f. if f \<in> set fs then None else hash_at (sKeys (mem_st w)) k f) \<and>
          (K k = None \<or> (\<exists>h. K k = Some (VHash h))) \<and> (sKeys (mem_st w) k = None \<longrightarrow> K k = None))"
  by (rule mem_hdel_law)

lemma mem_HGetAll:
  "rHGetAll mem_redis k w = (res, w') \<Longrightarrow> mem_st w' = mem_st w \<and>
      (\<forall>kvs. res = Inr kvs \<longrightarrow> distinct (map fst kvs) \<and> map_of kvs = hash_at (sKeys (mem_st w)) k)"
  by (simp add: mem_redis_def, drule mem_reads) (auto simp: map_of_remdups_keys comp_def simp: hash_at_def dest!: mem_hash_InrD split: sum.splits)

lemma mem_HLen:
  "rHLen mem_redis k w = (res, w') \<Longrightarrow> mem_st w' = mem_st w \<and>
      (\<forall>n. res = Inr n \<longrightarrow> n = int (card (dom (hash_at (sKeys (mem_st w)) k))))"
  by (simp add: mem_redis_def, drule mem_reads) (auto simp: card_dom_map_of simp: hash_at_def dest!: mem_hash_InrD split: sum.splits)

lemma mem_SMembers:
  "rSMembers mem_redis k w = (res, w') \<Longrightarrow> mem_st w' = mem_st w \<and>
      (\<forall>vs. res = Inr vs \<longrightarrow> distinct vs \<and> set vs = set_at (sKeys (mem_st w)) k)"
proof -
  assume "rSMembers mem_redis k w = (res, w')"
  then have r: "mem_st w' = mem_st w" "res = map_sum id remdups (mem_set k w) \<or> res = Inl mem_down"
    by (simp_all add: mem_redis_def) (drule mem_reads; simp)+
  show ?thesis
  proof (cases "mem_set k w")
    case (Inl e)
    with r show ?thesis by auto
  next
    case (Inr s)
    from mem_set_InrD [OF this] have "set_at (sKeys (mem_st w)) k = set s" by (elim disjE) (simp_all add: set_at_def)
    with r Inr show ?thesis by (elim disjE) simp_all
  qed
qed

lemma mem_SAdd:
  "rSAdd mem_redis k vs w = (res, w') \<Longrightarrow>
      wrote_key mem_st w res w' k (\<lambda>K. set_at K k = set_at (sKeys (mem_st w)) k \<union> set vs \<and>
        (sKeys (mem_st w) k = None \<or> (\<exists>s. sKeys (mem_st w) k = Some (VSet s))))"
proof -
  assume c: "rSAdd mem_redis k vs w = (res, w')"
  show ?thesis
  proof (cases "mem_set k w")
    case (Inl e)
    with mem_writes [OF c [unfolded mem_redis_def, simplified]] show ?thesis by (auto intro: wrote_key_none)
  next
    case (Inr s)
    note old = mem_set_InrD [OF this]
    from Inr mem_writes [OF c [unfolded mem_redis_def, simplified]]
    have "mem_st w' = mem_st (mem_put k (Some (VSet (s @ vs))) w) \<or> isl res \<and> mem_st w' = mem_st w" by auto
    then show ?thesis
    proof
      assume "mem_st w' = mem_st (mem_put k (Some (VSet (s @ vs))) w)"
      then show ?thesis using old by (intro wrote_key_put) (elim disjE; simp add: set_at_def)+
    qed (auto intro: wrote_key_none)
  qed
qed

lemma mem_Expire:
  "rExpire mem_redis k t w = (res, w') \<Longrightarrow> mem_st w' = mem_st w"
  by (simp add: mem_redis_def, drule mem_reads) (auto)

lemma mem_ZRank:
  "rZRank mem_redis k v w = (res, w') \<Longrightarrow> mem_st w' = mem_st w \<and>
      (\<forall>n. res = Inr n \<longrightarrow> v \<in> zset_at (sKeys (mem_st w)) k) \<and>
      (res = Inl RedisNil \<longrightarrow> v \<notin> zset_at (sKeys (mem_st w)) k)"
  by (simp add: mem_redis_def, drule mem_reads) (auto simp: zset_at_def dest: mem_zset_InrD split: sum.splits if_splits)

lemma mem_ZAdd:
  "rZAdd mem_redis k vs w = (res, w') \<Longrightarrow>
      wrote_key mem_st w res w' k (\<lambda>K. zset_at K k = zset_at (sKeys (mem_st w)) k \<union> set vs \<and>
        (sKeys (mem_st w) k = None \<or> (\<exists>s. sKeys (mem_st w) k = Some (VZSet s))))"
proof -
  assume c: "rZAdd mem_redis k vs w = (res, w')"
  show ?thesis
  proof (cases "mem_zset k w")
    case (Inl e)
    with mem_writes [OF c [unfolded mem_redis_def, simplified]] show ?thesis by (auto intro: wrote_key_none)
  next
    case (Inr s)
    note old = mem_zset_InrD [OF this]
    from Inr mem_writes [OF c [unfolded mem_redis_def, simplified]]
    have "mem_st w' = mem_st (mem_put k (Some (VZSet (s @ vs))) w) \<or> isl res \<and> mem_st w' = mem_st w" by auto
    then show ?thesis
    proof
      assume "mem_st w' = mem_st (mem_put k (Some (VZSet (s @ vs))) w)"
      then show ?thesis using old by (intro wrote_key_put) (elim disjE; simp add: zset_at_def)+
    qed (auto intro: wrote_key_none)
  qed
qed

lemma mem_Scan:
  "rScan mem_redis c p n w = (res, w') \<Longrightarrow> mem_st w' = mem_st w"
  by (simp add: mem_redis_def, drule mem_reads) (auto)

lemma mem_Query:
  "mQuery mem_mysql w = (res, w') \<Longrightarrow> mem_st w' = mem_st w \<and> (\<forall>t. res = Inr t \<longrightarrow> t = sTabs (mem_st w))"
  by (simp add: mem_mysql_def, drule mem_reads) (auto simp: sKeys_mem_st)

lemma mem_Exec:
  "mExec mem_mysql q w = (res, w') \<Longrightarrow>
      (case q (sTabs (mem_st w)) of
         Inr t \<Rightarrow> wrote mem_st w res w' ((mem_st w)\<lparr>sTabs := t\<rparr>)
       | Inl e \<Rightarrow> mem_st w' = mem_st w \<and> isl res)"
  by (simp add: mem_mysql_def, drule mem_writes) (auto simp: sKeys_mem_st wrote_def split: sum.splits)

lemma mem_Write:
  "mem_kafka m w = (res, w') \<Longrightarrow> wrote mem_st w res w' ((mem_st w)\<lparr>sLog := sLog (mem_st w) @ [m]\<rparr>)"
  by (simp add: mem_kafka_def, drule mem_writes) (auto simp: sKeys_mem_st wrote_def)

lemma mem_Now:
  "mem_now w = (t, w') \<Longrightarrow> mem_st w' = (mem_st w)\<lparr>sLast := t\<rparr>"
  by (auto simp: mem_now_def)

lemmas mem_laws =
  mem_Get mem_Set mem_SetNX mem_Del mem_Incr mem_Exists mem_HSet mem_HDel mem_HGetAll mem_HLen mem_SMembers mem_SAdd
  mem_Expire mem_ZRank mem_ZAdd mem_Scan mem_Query mem_Exec mem_Write mem_Now

interpretation mem: services mem_redis mem_mysql mem_kafka mem_now mem_st
  by unfold_locales (erule mem_laws)+

interpretation memt: timed_services mem_redis mem_mysql mem_kafka mem_now mem_st
proof unfold_locales
  fix w w' :: mem and t
  assume "mem_now w = (t, w')"
  then show "sLast (mem_st w) \<le> t" by (auto simp: mem_now_def mem_st_def)
next
  fix b :: int and w :: mem
  have "sLast (mem_st (((\<lambda>w. snd (mem_now w)) ^^ k) w)) = sLast (mem_st w) + int k" for k
    by (induction k) (simp_all add: mem_now_def mem_st_def)
  then have "b < sLast (mem_st (((\<lambda>w. snd (mem_now w)) ^^ nat (b - sLast (mem_st w) + 1)) w))" by simp
  then show "\<exists>k. b < sLast (mem_st (((\<lambda>w. snd (mem_now w)) ^^ k) w))" by blast
qed

end
