(* ===== verification/Kafkax.thy ===== *)
theory Kafkax
  imports Services
begin

text \<open>
  The producer of \<^verbatim>\<open>pkg/kafkax/kafkax.go\<close>: \<open>Send\<close> with the headers it builds. A Go map argument is
  the list of its entries in the order the loop visits them, so the lemmas hold for every order.
  The random bytes and the writer are calls on the world.
\<close>

definition TraceIDHeader :: string where "TraceIDHeader = ''trace-id''"

text \<open>
  \<open>strings.EqualFold\<close> against an ASCII word none of whose letters has a fold outside ASCII: equality
  after lowering the ASCII capitals.
\<close>

definition lower_char :: "char \<Rightarrow> char" where
  "lower_char c = (let n = of_char c in if 65 \<le> n \<and> n \<le> (90 :: nat) then char_of (n + 32) else c)"

definition EqualFold :: "string \<Rightarrow> string \<Rightarrow> bool" where
  "EqualFold s t \<longleftrightarrow> map lower_char s = map lower_char t"

section \<open>Trace identifiers\<close>

definition hex_digit :: "nat \<Rightarrow> char" where
  "hex_digit n = (if n < 10 then digit_char n else char_of (87 + n))"

definition EncodeToString :: "bytes \<Rightarrow> string" where
  "EncodeToString bs = concat (map (\<lambda>b. [hex_digit (unat b div 16), hex_digit (unat b mod 16)]) bs)"

fun format_hex_nat :: "nat \<Rightarrow> string" where
  "format_hex_nat n = (if n < 16 then [hex_digit n] else format_hex_nat (n div 16) @ [hex_digit (n mod 16)])"

declare format_hex_nat.simps [simp del]

definition format_hex :: "int \<Rightarrow> string" where
  "format_hex i = (if i < 0 then ''-'' else []) @ format_hex_nat (nat \<bar>i\<bar>)"

record 'w entropy =
  eRead :: "('w, bytes) call"
  eUnixNano :: "'w \<Rightarrow> int \<times> 'w"

definition newTraceID :: "'w entropy \<Rightarrow> 'w \<Rightarrow> string \<times> 'w" where
  "newTraceID E w =
     (case eRead E w of
        (Inl e, w1) \<Rightarrow> (case eUnixNano E w1 of (t, w2) \<Rightarrow> (''t'' @ format_hex t, w2))
      | (Inr b, w1) \<Rightarrow> (EncodeToString b, w1))"

section \<open>Headers\<close>

fun collect_headers ::
  "(string \<times> string) list \<Rightarrow> string \<times> (string \<times> string) list \<Rightarrow> string \<times> (string \<times> string) list" where
  "collect_headers [] acc = acc"
| "collect_headers ((k, v) # m) (traceID, headers) =
     collect_headers m (if EqualFold k TraceIDHeader then v else traceID, headers @ [(k, v)])"

definition buildHeaders ::
  "'w entropy \<Rightarrow> (string \<times> string) list list \<Rightarrow> 'w \<Rightarrow> (string \<times> string) list \<times> 'w" where
  "buildHeaders E maps w =
     (let (traceID, headers) = fold collect_headers maps ([], []) in
      if traceID = [] then
        (case newTraceID E w of (t, w') \<Rightarrow> (headers @ [(TraceIDHeader, t)], w'))
      else (headers, w))"

definition Send ::
  "'w entropy \<Rightarrow> 'w kwriter \<Rightarrow> string \<Rightarrow> bytes \<Rightarrow> bytes \<Rightarrow> (string \<times> string) list list \<Rightarrow> ('w, unit) call" where
  "Send E P topic key value headers w =
     (case buildHeaders E headers w of (hs, w1) \<Rightarrow>
        case P \<lparr>kmTopic = topic, kmKey = key, kmValue = value, kmHeaders = hs\<rparr> w1 of
          (Inl e, w2) \<Rightarrow> (Inl (errorf (''kafkax: produce to '' @ topic) e), w2)
        | (Inr _, w2) \<Rightarrow> (Inr (), w2))"

section \<open>Lemmas\<close>

definition is_trace :: "string \<times> string \<Rightarrow> bool" where
  "is_trace h \<longleftrightarrow> EqualFold (fst h) TraceIDHeader"

lemma is_trace_TraceIDHeader [simp]: "is_trace (TraceIDHeader, v)"
  by (simp add: is_trace_def EqualFold_def)

lemma collect_headers_eq:
  "collect_headers m (t, hs) =
     ((if filter is_trace m = [] then t else snd (last (filter is_trace m))), hs @ m)"
  by (induction m "(t, hs)" arbitrary: t hs rule: collect_headers.induct)
    (auto simp: is_trace_def)

lemma fold_collect_headers:
  "fold collect_headers maps (t, hs) =
     ((if filter is_trace (concat maps) = [] then t else snd (last (filter is_trace (concat maps)))),
      hs @ concat maps)"
proof (induction maps arbitrary: t hs)
  case (Cons m ms)
  then show ?case by (auto simp: collect_headers_eq)
qed simp

lemma EncodeToString_length: "length (EncodeToString bs) = 2 * length bs"
  by (induction bs) (simp_all add: EncodeToString_def)

lemma newTraceID_nonempty:
  assumes "newTraceID E w = (t, w')" and "\<And>b w''. eRead E w = (Inr b, w'') \<Longrightarrow> length b = 16"
  shows "t \<noteq> []"
proof (cases "eRead E w")
  case (Pair r w1)
  show ?thesis
  proof (cases r)
    case (Inr b)
    with assms Pair have "length t = 32" by (auto simp: newTraceID_def EncodeToString_length)
    then show ?thesis by auto
  qed (use assms(1) Pair in \<open>auto simp: newTraceID_def split: prod.splits\<close>)
qed

text \<open>The headers a caller passes are all sent, and a trace identifier is appended when the last one is empty.\<close>

lemma buildHeaders_eq:
  "buildHeaders E maps w =
     (let ts = filter is_trace (concat maps) in
      if ts = [] \<or> snd (last ts) = [] then
        (case newTraceID E w of (t, w') \<Rightarrow> (concat maps @ [(TraceIDHeader, t)], w'))
      else (concat maps, w))"
  by (simp add: buildHeaders_def fold_collect_headers Let_def split: prod.splits)

lemma buildHeaders_has_trace:
  assumes "\<And>b w'. eRead E w = (Inr b, w') \<Longrightarrow> length b = 16" and "buildHeaders E maps w = (hs, w')"
  shows "\<exists>t. t \<noteq> [] \<and> (\<exists>k. EqualFold k TraceIDHeader \<and> (k, t) \<in> set hs)"
proof (cases "filter is_trace (concat maps) = [] \<or> snd (last (filter is_trace (concat maps))) = []")
  case True
  with assms(2) obtain t where t: "newTraceID E w = (t, w')" "hs = concat maps @ [(TraceIDHeader, t)]"
    by (auto simp: buildHeaders_eq Let_def split: prod.splits)
  have "t \<noteq> []" by (rule newTraceID_nonempty [OF t(1)]) (rule assms(1))
  moreover have "(TraceIDHeader, t) \<in> set hs" by (simp add: t(2))
  ultimately show ?thesis unfolding EqualFold_def by blast
next
  case False
  let ?h = "last (filter is_trace (concat maps))"
  from False have "?h \<in> set (filter is_trace (concat maps))" by (intro last_in_set) auto
  moreover from False assms(2) have "hs = concat maps" by (auto simp: buildHeaders_eq Let_def)
  ultimately show ?thesis using False
    by (intro exI [of _ "snd ?h"] conjI exI [of _ "fst ?h"]) (auto simp: is_trace_def)
qed

lemma buildHeaders_count:
  assumes "buildHeaders E maps w = (hs, w')"
  shows "length (filter is_trace hs) =
    (let ts = filter is_trace (concat maps) in
     length ts + (if ts = [] \<or> snd (last ts) = [] then 1 else 0))"
  using assms by (auto simp: buildHeaders_eq Let_def split: prod.splits if_splits)

section \<open>Properties\<close>

text \<open>
  Every record the producer sends carries all headers of the caller and a trace identifier that
  is not empty; there is exactly one when the caller passed none, or exactly one that is not empty.
\<close>

theorem headers_traced:
  assumes "\<forall>b w'. eRead E w = (Inr b, w') \<longrightarrow> length b = 16" and "buildHeaders E maps w = (hs, w')"
  shows "set (concat maps) \<subseteq> set hs \<and> (\<exists>k t. EqualFold k TraceIDHeader \<and> t \<noteq> [] \<and> (k, t) \<in> set hs) \<and>
    (length (filter is_trace hs) = 1 \<longleftrightarrow>
       filter is_trace (concat maps) = [] \<or> (\<exists>h. filter is_trace (concat maps) = [h] \<and> snd h \<noteq> []))"
proof (intro conjI)
  show "set (concat maps) \<subseteq> set hs"
    using assms(2) by (auto simp: buildHeaders_eq Let_def split: prod.splits if_splits)
  show "\<exists>k t. EqualFold k TraceIDHeader \<and> t \<noteq> [] \<and> (k, t) \<in> set hs"
    using buildHeaders_has_trace [OF _ assms(2)] assms(1) by blast
  let ?ts = "filter is_trace (concat maps)"
  show "length (filter is_trace hs) = 1 \<longleftrightarrow> ?ts = [] \<or> (\<exists>h. ?ts = [h] \<and> snd h \<noteq> [])"
    unfolding buildHeaders_count [OF assms(2)] Let_def
    by (cases ?ts; cases "tl ?ts") auto
qed

theorem headers_traced_witness:
  "\<exists>hs. buildHeaders \<lparr>eRead = \<lambda>w :: nat. (Inr (replicate 16 0), w), eUnixNano = \<lambda>w. (0, w)\<rparr>
      [[(''trace-id'', ''a'')], [(''Trace-Id'', ''b'')]] 0 = (hs, 0) \<and> length (filter is_trace hs) \<noteq> 1"
proof -
  let ?E = "\<lparr>eRead = \<lambda>w :: nat. (Inr (replicate 16 0), w), eUnixNano = \<lambda>w. (0, w)\<rparr>"
  let ?maps = "[[(''trace-id'', ''a'')], [(''Trace-Id'', ''b'')]]"
  have ts: "filter is_trace (concat ?maps) = concat ?maps"
    by code_simp
  have b: "buildHeaders ?E ?maps 0 = (concat ?maps, 0)" unfolding buildHeaders_eq ts by simp
  have "length (filter is_trace (concat ?maps)) \<noteq> 1"
    using headers_traced [of ?E 0 ?maps "concat ?maps" 0] b unfolding ts by simp
  with b show ?thesis by blast
qed

end
