(* ===== verification/ClientSession.thy ===== *)
theory ClientSession
  imports Client Kafkax
begin

text \<open>
  Whole sessions of the command line client, \<open>main\<close> and \<open>runSession\<close> of \<^verbatim>\<open>scripts/wsclient.go\<close>: the reading
  goroutine, the sending goroutine, the heartbeat and the main loop as events in any order, and the
  sessions that follow each other after a request to reconnect. Shown: whatever arrives, the cursors of
  a session never move back and the duplicate window stays one; a session ends only for the reasons the
  code gives, and only a request of the server starts another one.
\<close>

section \<open>Flags and codec\<close>

record client_flags =
  cfToken :: string
  cfUid :: int
  cfDevice :: string
  cfPlatform :: int
  cfSend :: string
  cfPeer :: int
  cfCmid :: string
  cfConv :: string

definition flags_ok :: "client_flags \<Rightarrow> bool" where
  "flags_ok F \<longleftrightarrow> \<not> (cfToken F = [] \<or> cfUid F = 0) \<and> \<not> (cfSend F \<noteq> [] \<and> cfPeer F = 0 \<and> cfConv F = [])"

text \<open>
  What a session uses besides the reads and writes of \<open>socket\<close>: the three encoders, the close message it
  writes on an interrupt (\<open>scBye\<close>) and the deferred closing of the connection (\<open>scClose\<close>).
\<close>

record 'v session_codec =
  scAuthReq :: "AuthReq \<Rightarrow> bytes result"
  scHeartbeatReq :: "bytes result"
  scMsgSendReq :: "MsgSendReq \<Rightarrow> bytes result"
  scBye :: "'v \<Rightarrow> 'v"
  scClose :: "'v \<Rightarrow> 'v"

definition randomID :: "'w entropy \<Rightarrow> 'w \<Rightarrow> string \<times> 'w" where
  "randomID E w =
     (case eRead E w of
        (Inl e, w1) \<Rightarrow> (case eUnixNano E w1 of (t, w2) \<Rightarrow> (''cm-'' @ format_int t, w2))
      | (Inr b, w1) \<Rightarrow> (EncodeToString (take 8 b), w1))"

section \<open>A session\<close>

text \<open>
  What happens next in a session: a message is read, a read fails, a heartbeat is due, the sending
  goroutine sends its next message (with the random identifier it would use), the main loop takes the
  requested reconnection, the user interrupts.
\<close>

datatype sevent = Arrived int bytes | ReadFailed error | Beat | SendNext string | TakeReconnect | Interrupted

datatype session_end = Reconnect int | Ended | Crashed

definition send_or_crash :: "'v socket \<Rightarrow> u16 \<Rightarrow> bytes result \<Rightarrow> 'v client \<Rightarrow> session_end option \<times> 'v client" where
  "send_or_crash K cmd msg st =
     (let (sq, st1) = nextSeq st in
      case client_send K cmd sq msg st1 of None \<Rightarrow> (Some Crashed, st1) | Some st2 \<Rightarrow> (None, st2))"

definition session_open :: "'v socket \<Rightarrow> 'v session_codec \<Rightarrow> client_flags \<Rightarrow> 'v \<Rightarrow> session_end option \<times> 'v client" where
  "session_open K Y F v =
     send_or_crash K CmdAuth
       (scAuthReq Y \<lparr>aqToken = cfToken F, aqDeviceId = cfDevice F, aqPlatform = sint (word_of_int (cfPlatform F) :: 32 word), aqUid = cfUid F\<rparr>)
       \<lparr>clSeq = 0, clSync = \<lambda>_. 0, clShown = [], clDedup = newLRU 1024, clReconnect = None, clSock = v\<rparr>"

text \<open>A message of the socket in the reading goroutine; \<open>None\<close> if a catch-up never ends.\<close>

definition on_message :: "'v socket \<Rightarrow> client_codec \<Rightarrow> int \<Rightarrow> bytes \<Rightarrow> 'v client \<Rightarrow> (session_end option \<times> 'v client) option" where
  "on_message K X mt data st =
     (if mt \<noteq> BinaryMessage then Some (None, st)
      else case Decode data of
        Inl e \<Rightarrow> Some (None, st)
      | Inr frame \<Rightarrow>
          (case on_frame K X frame st of
             None \<Rightarrow> None
           | Some (Exited, st1) \<Rightarrow> Some (Some Crashed, st1)
           | Some (_, st1) \<Rightarrow> Some (None, st1)))"

definition send_text :: "'v socket \<Rightarrow> 'v session_codec \<Rightarrow> client_flags \<Rightarrow> string \<Rightarrow> 'v client \<Rightarrow> session_end option \<times> 'v client" where
  "send_text K Y F fresh st =
     (let (conv, convType) = send_target (cfConv F) (cfUid F) (cfPeer F);
          mid = (if cfCmid F = [] then fresh else cfCmid F)
      in send_or_crash K CmdMsgSend
           (scMsgSendReq Y \<lparr>mqClientMsgId = mid, mqConvId = conv, mqConvType = convType, mqMsgType = 1, mqPayload = bytes_of (cfSend F)\<rparr>) st)"

definition session_event ::
  "'v socket \<Rightarrow> client_codec \<Rightarrow> 'v session_codec \<Rightarrow> client_flags \<Rightarrow> sevent \<Rightarrow> 'v client \<Rightarrow> (session_end option \<times> 'v client) option" where
  "session_event K X Y F ev st =
     (case ev of
        Arrived mt data \<Rightarrow> on_message K X mt data st
      | ReadFailed e \<Rightarrow> Some (Some Ended, st)
      | Beat \<Rightarrow> Some (send_or_crash K CmdHeartbeat (scHeartbeatReq Y) st)
      | SendNext fresh \<Rightarrow> Some (if cfSend F = [] then (None, st) else send_text K Y F fresh st)
      | TakeReconnect \<Rightarrow> (case clReconnect st of None \<Rightarrow> Some (None, st) | Some j \<Rightarrow> Some (Some (Reconnect j), st))
      | Interrupted \<Rightarrow> Some (Some Ended, st\<lparr>clSock := scBye Y (clSock st)\<rparr>))"

text \<open>
  The loop of \<open>runSession\<close> on the events it meets; \<open>None\<close> in the result while it goes on after the last of
  them. Returning runs the deferred \<open>ws.Close\<close>; \<open>log.Fatalf\<close> (\<open>Crashed\<close>) does not.
\<close>

fun run_events ::
  "'v socket \<Rightarrow> client_codec \<Rightarrow> 'v session_codec \<Rightarrow> client_flags \<Rightarrow> sevent list \<Rightarrow> 'v client \<Rightarrow> (session_end option \<times> 'v client) option" where
  "run_events K X Y F [] st = Some (None, st)"
| "run_events K X Y F (ev # evs) st =
     (case session_event K X Y F ev st of
        None \<Rightarrow> None
      | Some (Some r, st1) \<Rightarrow> Some (Some r, st1)
      | Some (None, st1) \<Rightarrow> run_events K X Y F evs st1)"

definition leave :: "'v session_codec \<Rightarrow> session_end option \<Rightarrow> 'v client \<Rightarrow> session_end option \<times> 'v" where
  "leave Y r st = (r, case r of None \<Rightarrow> clSock st | Some Crashed \<Rightarrow> clSock st | _ \<Rightarrow> scClose Y (clSock st))"

definition runSession ::
  "('v \<Rightarrow> bool \<times> 'v) \<Rightarrow> 'v socket \<Rightarrow> client_codec \<Rightarrow> 'v session_codec \<Rightarrow> client_flags \<Rightarrow> bool \<Rightarrow> sevent list \<Rightarrow> 'v \<Rightarrow> (session_end option \<times> 'v) option" where
  "runSession dial K X Y F inReconnect evs v =
     (case dial_loop dial inReconnect 0 [] v of
        (FatalExit, _, v1) \<Rightarrow> Some (Some Crashed, v1)
      | (GaveUp, _, v1) \<Rightarrow> Some (Some Ended, v1)
      | (Connected, _, v1) \<Rightarrow>
          (case session_open K Y F v1 of
             (Some r, st) \<Rightarrow> Some (leave Y (Some r) st)
           | (None, st) \<Rightarrow> map_option (\<lambda>(r, st1). leave Y r st1) (run_events K X Y F evs st)))"

text \<open>\<open>main\<close>, a list of events per session: the jitters it slept and whether it returned.\<close>

fun sessions ::
  "('v \<Rightarrow> bool \<times> 'v) \<Rightarrow> 'v socket \<Rightarrow> client_codec \<Rightarrow> 'v session_codec \<Rightarrow> client_flags \<Rightarrow> bool \<Rightarrow> sevent list list \<Rightarrow> 'v \<Rightarrow> (int list \<times> bool) option" where
  "sessions dial K X Y F inReconnect [] v = Some ([], False)"
| "sessions dial K X Y F inReconnect (evs # rest) v =
     (case runSession dial K X Y F inReconnect evs v of
        None \<Rightarrow> None
      | Some (None, v1) \<Rightarrow> Some ([], False)
      | Some (Some (Reconnect j), v1) \<Rightarrow> map_option (\<lambda>(js, b). (j # js, b)) (sessions dial K X Y F True rest v1)
      | Some (Some Ended, v1) \<Rightarrow> Some ([], True)
      | Some (Some Crashed, v1) \<Rightarrow> Some ([], True))"

definition client_main ::
  "('v \<Rightarrow> bool \<times> 'v) \<Rightarrow> 'v socket \<Rightarrow> client_codec \<Rightarrow> 'v session_codec \<Rightarrow> client_flags \<Rightarrow> sevent list list \<Rightarrow> 'v \<Rightarrow> (int list \<times> bool) option" where
  "client_main dial K X Y F evss v = (if \<not> flags_ok F then Some ([], True) else sessions dial K X Y F False evss v)"

section \<open>Cursors\<close>

definition ahead :: "'v client \<Rightarrow> 'v client \<Rightarrow> bool" where
  "ahead st st' \<longleftrightarrow> (\<forall>c. clSync st c \<le> clSync st' c) \<and> clDedup st' = clDedup st \<and> clReconnect st' = clReconnect st"

lemma ahead_refl [simp, intro]: "ahead st st"
  by (simp add: ahead_def)

lemma ahead_trans: "ahead st st' \<Longrightarrow> ahead st' st'' \<Longrightarrow> ahead st st''"
  by (auto simp: ahead_def intro: order_trans)

lemma ahead_nextSeq: "nextSeq st = (sq, st') \<Longrightarrow> ahead st st' \<and> clSync st' = clSync st"
  by (auto simp: nextSeq_def ahead_def)

lemma ahead_send: "client_send K cmd sq msg st = Some st' \<Longrightarrow> ahead st st' \<and> clSync st' = clSync st"
  by (auto simp: client_send_def ahead_def split: sum.splits)

lemma ahead_send_or_crash: "ahead st (snd (send_or_crash K cmd msg st))"
  by (auto simp: send_or_crash_def nextSeq_def split: option.splits dest!: ahead_send intro: ahead_trans [rotated] simp: ahead_def)

lemma show_messages_ge: "local \<le> show_messages ms local"
  unfolding show_messages_def by (induction ms arbitrary: local) (auto intro: order_trans less_imp_le)

lemma pull_rounds_ahead:
  assumes "pull_rounds K X conv local target st = Some r" and "clSync st conv = local"
  shows "ahead st (snd r)"
  using assms
proof (induction K X conv local target st r rule: pull_rounds.raw_induct [rotated 1, consumes 1])
  case (1 f K X conv local target st r)
  note eq = 1(2)
  show ?case
  proof (cases "local \<ge> target")
    case True
    with eq show ?thesis by auto
  next
    case False
    obtain sq st1 where n: "nextSeq st = (sq, st1)" by (cases "nextSeq st")
    note N = ahead_nextSeq [OF n]
    let ?msg = "ccSyncPullReq X \<lparr>yqConvId = conv, yqLocalMaxSeq = local, yqLimit = 100, yqUid = 0\<rparr>"
    show ?thesis
    proof (cases "client_send K CmdSyncPull sq ?msg st1")
      case None
      with eq False n N show ?thesis by auto
    next
      case (Some st2)
      note S = ahead_send [OF Some]
      obtain res v where rs: "readSyncResp K X (clSock st2) = (res, v)" by (cases "readSyncResp K X (clSock st2)")
      have st2: "ahead st st2" "clSync st2 = clSync st" using N S ahead_trans by auto
      show ?thesis
      proof (cases res)
        case (Inl e)
        with eq False n Some rs have "snd r = st2\<lparr>clSock := v\<rparr>" by auto
        with st2 show ?thesis by (simp add: ahead_def)
      next
        case (Inr resp)
        let ?l = "show_messages (yaMessages resp) local"
        let ?st3 = "st2\<lparr>clSock := v, clShown := clShown st2 @ yaMessages resp, clSync := (clSync st2)(conv := ?l)\<rparr>"
        let ?t = "if yaMaxSeq resp > target then yaMaxSeq resp else target"
        have a: "ahead st ?st3" using st2 1(3) show_messages_ge [of local "yaMessages resp"] by (auto simp: ahead_def)
        show ?thesis
        proof (cases "yaMessages resp = []")
          case True
          with eq False n Some rs Inr have "snd r = ?st3" by (auto simp: Let_def)
          with a show ?thesis by simp
        next
          case ne: False
          with eq False n Some rs Inr have "f K X conv ?l ?t ?st3 = Some r" by (simp add: Let_def)
          then have "ahead ?st3 (snd r)" by (rule 1(1)) simp
          with a show ?thesis by (rule ahead_trans)
        qed
      qed
    qed
  qed
qed

lemma catchUp_ahead: "catchUp K X convs st = Some (b, st') \<Longrightarrow> ahead st st'"
proof (induction convs arbitrary: st)
  case (Cons cv convs)
  obtain r where r: "pull_rounds K X (cbConvId cv) (clSync st (cbConvId cv)) (cbMaxSeq cv) st = Some r"
    using Cons.prems by (auto split: option.splits)
  obtain p st1 where p: "r = (p, st1)" by (cases r)
  have a: "ahead st st1" using pull_rounds_ahead [OF r] p by simp
  show ?case
  proof (cases "\<exists>local target. p = Pulled local target \<and> local > 0")
    case False
    with Cons r p a show ?thesis by (auto split: pulled.splits intro: ahead_trans)
  next
    case True
    then obtain local target where l: "p = Pulled local target" "local > 0" by blast
    obtain sq st2 where n: "nextSeq st1 = (sq, st2)" by (cases "nextSeq st1")
    note N = ahead_nextSeq [OF n]
    show ?thesis
    proof (cases "client_send K CmdMsgReceivedAck sq (ccReceivedAckReq X \<lparr>raMsgId = [], raConvId = cbConvId cv, raSeq = local\<rparr>) st2")
      case None
      with Cons.prems r p l n have "st' = st2" by auto
      with a N show ?thesis by (auto intro: ahead_trans)
    next
      case (Some st3)
      with Cons.prems r p l n have "catchUp K X convs st3 = Some (b, st')" by auto
      from Cons.IH [OF this] a N ahead_send [OF Some] show ?thesis by (blast intro: ahead_trans)
    qed
  qed
qed simp

text \<open>The invariant of a session: cursors only grow, and the window keeps its 1024 places.\<close>

definition session_ok :: "'v client \<Rightarrow> bool" where
  "session_ok st \<longleftrightarrow> lCap (clDedup st) = 1024 \<and> length (lRing (clDedup st)) = 1024 \<and> lIdx (clDedup st) < 1024"

definition onward :: "'v client \<Rightarrow> 'v client \<Rightarrow> bool" where
  "onward st st' \<longleftrightarrow> (\<forall>c. clSync st c \<le> clSync st' c) \<and> (session_ok st \<longrightarrow> session_ok st')"

lemma onward_trans: "onward st st' \<Longrightarrow> onward st' st'' \<Longrightarrow> onward st st''"
  unfolding onward_def by (meson order_trans)

lemma onward_refl [simp, intro]: "onward st st"
  by (simp add: onward_def)

lemma onward_sock: "onward st (st\<lparr>clSock := v\<rparr>)"
  by (simp add: onward_def session_ok_def)

lemma ahead_onward: "ahead st st' \<Longrightarrow> onward st st' \<and> clReconnect st' = clReconnect st"
  by (simp add: ahead_def onward_def session_ok_def)

lemma send_onward: "send_or_crash K cmd msg st = (r, st') \<Longrightarrow> onward st st' \<and> clReconnect st' = clReconnect st \<and> (r = None \<or> r = Some Crashed)"
  using ahead_onward [OF ahead_send_or_crash [of st K cmd msg]] by (auto simp: send_or_crash_def split: option.splits prod.splits)

text \<open>The jitter of a frame that asks the client to reconnect.\<close>

definition asks_reconnect :: "client_codec \<Rightarrow> sevent \<Rightarrow> int \<Rightarrow> bool" where
  "asks_reconnect X ev j \<longleftrightarrow> (\<exists>data frame. ev = Arrived BinaryMessage data \<and> Decode data = Inr frame \<and> fCmd frame = CmdReconnectNow \<and>
     rcJitterMs (fst (ccReconnectReq X (fBody frame))) = j)"

lemma on_frame_onward:
  assumes "on_frame K X frame st = Some (h, st')"
  shows "onward st st' \<and> (clReconnect st' = clReconnect st \<or>
    fCmd frame = CmdReconnectNow \<and> clReconnect st' = Some (rcJitterMs (fst (ccReconnectReq X (fBody frame)))))"
proof (cases "fCmd frame = CmdSyncNotify")
  case True
  with assms show ?thesis
    by (auto simp: on_frame_def CmdSyncNotify_def CmdMsgPush_def split: prod.splits option.splits dest!: catchUp_ahead dest: ahead_onward)
next
  case False
  with assms show ?thesis
    by (auto simp: on_frame_def onward_def session_ok_def lru_add_def Let_def split: if_splits prod.splits option.splits)
qed

lemma session_event_onward:
  assumes "session_event K X Y F ev st = Some (r, st')"
  shows "onward st st'" "\<And>j. clReconnect st' = Some j \<Longrightarrow> clReconnect st = Some j \<or> asks_reconnect X ev j"
    "\<And>j. r = Some (Reconnect j) \<Longrightarrow> clReconnect st' = Some j"
proof -
  have "onward st st' \<and> (\<forall>j. clReconnect st' = Some j \<longrightarrow> clReconnect st = Some j \<or> asks_reconnect X ev j) \<and>
      (\<forall>j. r = Some (Reconnect j) \<longrightarrow> clReconnect st' = Some j)"
  proof (cases ev)
    case (Arrived mt data)
    with assms show ?thesis
      by (auto simp: session_event_def on_message_def asks_reconnect_def split: if_splits sum.splits option.splits handled.splits dest!: on_frame_onward)
  qed (use assms in \<open>auto simp: session_event_def send_text_def Let_def onward_sock split: if_splits option.splits prod.splits dest!: send_onward\<close>)
  then show "onward st st'" "\<And>j. clReconnect st' = Some j \<Longrightarrow> clReconnect st = Some j \<or> asks_reconnect X ev j"
    "\<And>j. r = Some (Reconnect j) \<Longrightarrow> clReconnect st' = Some j" by auto
qed

lemma run_events_spec:
  "run_events K X Y F evs st = Some (r, st') \<Longrightarrow> onward st st' \<and>
     (\<forall>j. clReconnect st' = Some j \<longrightarrow> clReconnect st = Some j \<or> (\<exists>ev \<in> set evs. asks_reconnect X ev j)) \<and>
     (\<forall>j. r = Some (Reconnect j) \<longrightarrow> clReconnect st' = Some j)"
proof (induction evs arbitrary: st)
  case (Cons ev evs)
  then obtain r1 st1 where e: "session_event K X Y F ev st = Some (r1, st1)" by (auto split: option.splits)
  note E = session_event_onward [OF e]
  show ?case
  proof (cases r1)
    case None
    with Cons.prems e have "run_events K X Y F evs st1 = Some (r, st')" by simp
    note IH = Cons.IH [OF this]
    have "onward st st'" using E(1) IH onward_trans by blast
    with IH E(2) show ?thesis by auto
  next
    case (Some x)
    with Cons.prems e have "r = r1" "st' = st1" by auto
    with E show ?thesis by auto
  qed
qed simp

section \<open>Properties\<close>

text \<open>
  C22: a session of the client. Whatever arrives and in whatever order reading, sending, heartbeats and
  catching up happen, the cursor of no conversation moves back and the duplicate window keeps its
  shape; the session asks to reconnect only with a jitter that a frame of the server named, and
  it starts from empty cursors and the full window.
\<close>

theorem session_cursors_grow:
  assumes "session_open K Y F v = (None, st)" and "run_events K X Y F (evs1 @ evs2) st = Some (r, st2)"
    and "run_events K X Y F evs1 st = Some (None, st1)"
  shows "(\<forall>c. 0 \<le> clSync st1 c \<and> clSync st1 c \<le> clSync st2 c) \<and> lCap (clDedup st2) = 1024 \<and> length (lRing (clDedup st2)) = 1024 \<and>
    (\<forall>j. r = Some (Reconnect j) \<longrightarrow> (\<exists>ev \<in> set (evs1 @ evs2). asks_reconnect X ev j))"
proof -
  have split: "run_events K X Y F (xs @ ys) s = (case run_events K X Y F xs s of None \<Rightarrow> None | Some (Some e, s1) \<Rightarrow> Some (Some e, s1)
      | Some (None, s1) \<Rightarrow> run_events K X Y F ys s1)" for xs ys s
    by (induction xs arbitrary: s) (auto split: option.splits)
  from assms(2,3) have two: "run_events K X Y F evs2 st1 = Some (r, st2)" by (simp add: split)
  have start: "\<forall>c. clSync st c = 0" "session_ok st" "clReconnect st = None"
    using assms(1) by (auto simp: session_open_def send_or_crash_def nextSeq_def session_ok_def newLRU_def split: option.splits dest!: ahead_send)
      (auto simp: ahead_def)
  note A = run_events_spec [OF assms(3)] and B = run_events_spec [OF two] and C = run_events_spec [OF assms(2)]
  have "\<forall>c. 0 \<le> clSync st1 c" using A start(1) by (metis onward_def)
  moreover have "\<forall>c. clSync st1 c \<le> clSync st2 c" using B by (simp add: onward_def)
  moreover have "session_ok st2" using C start(2) by (simp add: onward_def)
  ultimately show ?thesis using C start(3) by (auto simp: session_ok_def)
qed

text \<open>A session that shows one pushed message and is then interrupted.\<close>

definition demo_flags :: client_flags where
  "demo_flags = \<lparr>cfToken = ''t'', cfUid = 1, cfDevice = ''d1'', cfPlatform = 1, cfSend = [], cfPeer = 0, cfCmid = [], cfConv = []\<rparr>"

definition demo_session :: "bytes session_codec" where
  "demo_session = \<lparr>scAuthReq = \<lambda>q. Inr [1], scHeartbeatReq = Inr [], scMsgSendReq = \<lambda>q. Inr [2], scBye = \<lambda>v. [3], scClose = \<lambda>v. []\<rparr>"

definition demo_pushed :: Frame where
  "demo_pushed = \<lparr>fVer = 1, fCmd = CmdMsgPush, fSeq = 0, fBody = []\<rparr>"

lemma demo_session_runs:
  fixes ev defines "ev \<equiv> Arrived BinaryMessage (header_of demo_pushed @ [])"
  obtains st st1 st2 where "session_open demo_socket demo_session demo_flags [] = (None, st)"
    "run_events demo_socket demo_ccodec demo_session demo_flags [ev] st = Some (None, st1)" "clSync st1 ''c:1:2'' = 1"
    "run_events demo_socket demo_ccodec demo_session demo_flags ([ev] @ [Interrupted]) st = Some (Some Ended, st2)"
proof -
  have d: "Decode (header_of demo_pushed @ []) = Inr demo_pushed"
    using Decode_header_body [of demo_pushed] by (simp add: demo_pushed_def MaxBodyLen_def)
  define st where "st = snd (session_open demo_socket demo_session demo_flags [])"
  have o: "session_open demo_socket demo_session demo_flags [] = (None, st)"
    unfolding st_def by (simp add: session_open_def send_or_crash_def nextSeq_def client_send_def demo_socket_def demo_session_def Encode_eq MaxBodyLen_def)
  then have n: "clSync st = (\<lambda>_. 0)" "clDedup st = newLRU 1024"
    by (auto simp: session_open_def send_or_crash_def nextSeq_def client_send_def split: sum.splits option.splits prod.splits)
  have e: "\<exists>st1. session_event demo_socket demo_ccodec demo_session demo_flags ev st = Some (None, st1) \<and> clSync st1 ''c:1:2'' = 1"
    using d n by (simp add: ev_def session_event_def on_message_def on_frame_def demo_pushed_def demo_ccodec_def demo_push_def lru_add_def newLRU_def)
  then obtain st1 where "session_event demo_socket demo_ccodec demo_session demo_flags ev st = Some (None, st1)" "clSync st1 ''c:1:2'' = 1" by blast
  with o that show thesis by (simp add: session_event_def)
qed

theorem session_cursors_grow_witness:
  "\<exists>st st1 st2. session_open demo_socket demo_session demo_flags [] = (None, st) \<and>
    run_events demo_socket demo_ccodec demo_session demo_flags [Arrived BinaryMessage (header_of demo_pushed @ [])] st = Some (None, st1) \<and>
    run_events demo_socket demo_ccodec demo_session demo_flags
      ([Arrived BinaryMessage (header_of demo_pushed @ [])] @ [Interrupted]) st = Some (Some Ended, st2) \<and>
    clSync st1 ''c:1:2'' = 1 \<and> clSync st1 ''c:1:2'' \<le> clSync st2 ''c:1:2''"
proof -
  obtain st st1 st2 where r: "session_open demo_socket demo_session demo_flags [] = (None, st)"
    "run_events demo_socket demo_ccodec demo_session demo_flags [Arrived BinaryMessage (header_of demo_pushed @ [])] st = Some (None, st1)"
    "clSync st1 ''c:1:2'' = 1"
    "run_events demo_socket demo_ccodec demo_session demo_flags
      ([Arrived BinaryMessage (header_of demo_pushed @ [])] @ [Interrupted]) st = Some (Some Ended, st2)"
    by (rule demo_session_runs)
  from session_cursors_grow [OF r(1,4,2)] have "clSync st1 ''c:1:2'' \<le> clSync st2 ''c:1:2''" by blast
  with r show ?thesis by blast
qed

end
