(* ===== verification/RedisKeys.thy ===== *)
theory RedisKeys
  imports GoStrings
begin

text \<open>
  The key constructors of \<^verbatim>\<open>pkg/redisx/keys.go\<close>. Every constructor is injective and no two of them
  build the same key, so the state kept under one family of keys is not disturbed by another.
\<close>

definition routePrefix :: string where "routePrefix = ''route:''"
definition cometAlivePrefix :: string where "cometAlivePrefix = ''comet:alive:''"
definition seqPrefix :: string where "seqPrefix = ''seq:''"
definition idemPrefix :: string where "idemPrefix = ''idem:''"
definition presencePrefix :: string where "presencePrefix = ''presence:''"
definition tokenPrefix :: string where "tokenPrefix = ''token:''"
definition convMembersPrefix :: string where "convMembersPrefix = ''conv:members:''"
definition friendPrefix :: string where "friendPrefix = ''friend:''"
definition deliveredPrefix :: string where "deliveredPrefix = ''delivered:''"

definition RouteKey :: "int \<Rightarrow> string" where
  "RouteKey uid = routePrefix @ format_int uid"

definition CometAliveKey :: "string \<Rightarrow> string" where
  "CometAliveKey addr = cometAlivePrefix @ addr"

definition SeqKey :: "string \<Rightarrow> string" where
  "SeqKey convID = seqPrefix @ convID"

definition IdemKey :: "int \<Rightarrow> string \<Rightarrow> string" where
  "IdemKey senderID clientMsgID = idemPrefix @ format_int senderID @ '':'' @ clientMsgID"

definition PresenceKey :: "int \<Rightarrow> string" where
  "PresenceKey uid = presencePrefix @ format_int uid"

definition TokenKey :: "int \<Rightarrow> string" where
  "TokenKey uid = tokenPrefix @ format_int uid"

definition ConvMembersKey :: "int \<Rightarrow> string" where
  "ConvMembersKey gid = convMembersPrefix @ format_int gid"

definition FriendKey :: "int \<Rightarrow> string" where
  "FriendKey uid = friendPrefix @ format_int uid"

definition DeliveredKey :: "int \<Rightarrow> string \<Rightarrow> string" where
  "DeliveredKey uid msgID = deliveredPrefix @ format_int uid @ '':'' @ msgID"

lemmas key_defs =
  RouteKey_def CometAliveKey_def SeqKey_def IdemKey_def PresenceKey_def TokenKey_def ConvMembersKey_def
  FriendKey_def DeliveredKey_def routePrefix_def cometAlivePrefix_def seqPrefix_def idemPrefix_def
  presencePrefix_def tokenPrefix_def convMembersPrefix_def friendPrefix_def deliveredPrefix_def

section \<open>Injectivity\<close>

lemma key_inject [simp]:
  "RouteKey u = RouteKey u' \<longleftrightarrow> u = u'"
  "CometAliveKey a = CometAliveKey a' \<longleftrightarrow> a = a'"
  "SeqKey c = SeqKey c' \<longleftrightarrow> c = c'"
  "PresenceKey u = PresenceKey u' \<longleftrightarrow> u = u'"
  "TokenKey u = TokenKey u' \<longleftrightarrow> u = u'"
  "ConvMembersKey u = ConvMembersKey u' \<longleftrightarrow> u = u'"
  "FriendKey u = FriendKey u' \<longleftrightarrow> u = u'"
  by (simp_all add: key_defs)

lemma pair_key_inject [simp]:
  "IdemKey u m = IdemKey u' m' \<longleftrightarrow> u = u' \<and> m = m'"
  "DeliveredKey u m = DeliveredKey u' m' \<longleftrightarrow> u = u' \<and> m = m'"
proof -
  have split: "format_int u @ '':'' @ m = format_int u' @ '':'' @ m' \<longleftrightarrow> u = u' \<and> m = m'"
    using prefix_colon_inject [of "format_int u" "format_int u'" m m'] by auto
  show "IdemKey u m = IdemKey u' m' \<longleftrightarrow> u = u' \<and> m = m'"
    "DeliveredKey u m = DeliveredKey u' m' \<longleftrightarrow> u = u' \<and> m = m'"
    using split by (simp_all add: key_defs)
qed

section \<open>Families\<close>

datatype key_family = KRoute | KAlive | KSeq | KIdem | KPresence | KToken | KMembers | KFriend | KDelivered

text \<open>The family of a key, read off its first characters.\<close>

definition family_of :: "string \<Rightarrow> key_family option" where
  "family_of k =
     (if take 6 k = ''route:'' then Some KRoute
      else if take 12 k = ''comet:alive:'' then Some KAlive
      else if take 4 k = ''seq:'' then Some KSeq
      else if take 5 k = ''idem:'' then Some KIdem
      else if take 9 k = ''presence:'' then Some KPresence
      else if take 6 k = ''token:'' then Some KToken
      else if take 13 k = ''conv:members:'' then Some KMembers
      else if take 7 k = ''friend:'' then Some KFriend
      else if take 10 k = ''delivered:'' then Some KDelivered
      else None)"

lemma family_of_key [simp]:
  "family_of (RouteKey u) = Some KRoute" "family_of (CometAliveKey a) = Some KAlive"
  "family_of (SeqKey c) = Some KSeq" "family_of (IdemKey u m) = Some KIdem"
  "family_of (PresenceKey u) = Some KPresence" "family_of (TokenKey u) = Some KToken"
  "family_of (ConvMembersKey g) = Some KMembers" "family_of (FriendKey u) = Some KFriend"
  "family_of (DeliveredKey u m) = Some KDelivered"
  by (simp_all add: family_of_def key_defs)

lemma keys_differ: "family_of k \<noteq> family_of k' \<Longrightarrow> k \<noteq> k'"
  by auto

section \<open>Properties\<close>

text \<open>
  Two keys built by the constructors are equal only if the same constructor built them from the
  same arguments; in particular the idempotency key determines sender and client message id
  although the latter is arbitrary text.
\<close>

theorem redis_keys_disjoint:
  "(IdemKey u m = IdemKey u' m' \<longleftrightarrow> u = u' \<and> m = m') \<and> (DeliveredKey u m = DeliveredKey u' m' \<longleftrightarrow> u = u' \<and> m = m') \<and>
   (SeqKey c = SeqKey c' \<longleftrightarrow> c = c') \<and> (RouteKey u = RouteKey u' \<longleftrightarrow> u = u') \<and>
   distinct [RouteKey u, CometAliveKey a, SeqKey c, IdemKey u m, PresenceKey u, TokenKey u, ConvMembersKey g,
     FriendKey u, DeliveredKey u m]"
proof -
  have "distinct (map family_of [RouteKey u, CometAliveKey a, SeqKey c, IdemKey u m, PresenceKey u, TokenKey u,
      ConvMembersKey g, FriendKey u, DeliveredKey u m])" by simp
  then have "distinct [RouteKey u, CometAliveKey a, SeqKey c, IdemKey u m, PresenceKey u, TokenKey u,
      ConvMembersKey g, FriendKey u, DeliveredKey u m]" unfolding distinct_map by blast
  then show ?thesis by simp
qed

end
