(* ===== verification/Comet.thy ===== *)
theory Comet
  imports Frame Messages Services RedisKeys
begin

text \<open>
  The WebSocket access layer, \<^verbatim>\<open>internal/comet\<close>: connections with their bounded send queue
  (\<^verbatim>\<open>conn.go\<close>), the sharded connection table (\<^verbatim>\<open>bucket.go\<close>), the read and write loops, login, mutual
  kicking and draining (\<^verbatim>\<open>server.go\<close>), the handlers of client frames (\<^verbatim>\<open>dispatch.go\<close>) and the gRPC
  service with the alive registration (\<^verbatim>\<open>grpc.go\<close>).

  The process state is the record \<open>comet\<close>: a heap of connections addressed by numbers, the 256
  buckets, the cached peers, the calls that timers and goroutines still have to make, and the world
  outside. A handler is one step of the process; timers and spawned goroutines are tasks of their
  own, so that any interleaving of them with the handlers is a run of the step relation of
  \<open>CometRun\<close>. The logic service, the other comets, Redis, the clock and the protobuf codec are
  parameters.
\<close>

section \<open>Parameters\<close>

text \<open>
  The protobuf functions the layer uses. \<open>Unmarshal\<close> returns the message as far as it was decoded
  and an error, since the code reads a field of a message whose decoding failed.
\<close>

record wire_codec =
  unAuthReq :: "bytes \<Rightarrow> AuthReq \<times> error option"
  unMsgSendReq :: "bytes \<Rightarrow> MsgSendReq \<times> error option"
  unReceivedAckReq :: "bytes \<Rightarrow> ReceivedAckReq \<times> error option"
  unSyncPullReq :: "bytes \<Rightarrow> SyncPullReq \<times> error option"
  maAuthAck :: "AuthAck \<Rightarrow> bytes result"
  maMsgSendAck :: "MsgSendAck \<Rightarrow> bytes result"
  maSyncResp :: "SyncResp \<Rightarrow> bytes result"
  maSyncNotifyReq :: "SyncNotifyReq \<Rightarrow> bytes result"
  maReconnectReq :: "ReconnectReq \<Rightarrow> bytes result"

text \<open>The client of the logic service, \<open>pb.LogicClient\<close>.\<close>

record 'w LogicClient =
  lcVerifyToken :: "VerifyTokenReq \<Rightarrow> ('w, VerifyTokenResp) call"
  lcSendMsg :: "SendMsgReq \<Rightarrow> ('w, SendMsgAck) call"
  lcMarkRead :: "MarkReadReq \<Rightarrow> ('w, unit) call"
  lcReportDelivered :: "ReportDeliveredReq \<Rightarrow> ('w, unit) call"
  lcSyncPull :: "SyncPullReq \<Rightarrow> ('w, SyncPullResp) call"
  lcOnlineEvent :: "OnlineEventReq \<Rightarrow> ('w, PendingResp) call"

section \<open>Connections\<close>

definition sendChanSize :: nat where "sendChanSize = 256"
definition idleTimeout :: int where "idleTimeout = 75"
definition slowKickAfter :: int where "slowKickAfter = 5000"
definition presenceTTL :: int where "presenceTTL = 90 * 1000"

definition ErrSlowConsumer :: error where "ErrSlowConsumer = Err ''comet: slow consumer''"
definition ErrConnClosed :: error where "ErrConnClosed = Err ''comet: connection closed''"

definition CodeAuthFailed :: int where "CodeAuthFailed = 40101"
definition CodeKicked :: int where "CodeKicked = 40103"
definition CodeNotImplemented :: int where "CodeNotImplemented = 50104"
definition CodeLogicUnavailable :: int where "CodeLogicUnavailable = 50101"

text \<open>
  A connection. \<open>cnWire\<close> holds the messages written to its socket, \<open>cnClosed\<close> says that \<open>Close\<close> has
  run, and \<open>cnReading\<close> and \<open>cnWriting\<close> that its two goroutines have not returned.
\<close>

record Conn =
  cnUid :: int
  cnDeviceID :: string
  cnPlatform :: int
  cnAuthed :: bool
  cnSend :: "bytes list"
  cnLastActive :: int
  cnFullSince :: int
  cnClosed :: bool
  cnWire :: "bytes list"
  cnReading :: bool
  cnWriting :: bool

text \<open>What timers and goroutines have still to do.\<close>

datatype task = TClose nat | TWatchdog nat | TRenew int | TNotify nat int

record 'w comet =
  coHeap :: "nat \<Rightarrow> Conn"
  coNext :: nat
  coBuckets :: "nat \<Rightarrow> (string \<times> nat) list"
  coPeers :: "string list"
  coTasks :: "task list"
  coWorld :: 'w

text \<open>
  The immutable part of \<open>Server\<close>. The dispatcher is a function of the connection and the frame; it is
  called with the server, which the only implementation does not use.
\<close>

record 'w Comet =
  csAddr :: string
  csRdb :: "'w redis option"
  csLogic :: "'w LogicClient"
  csDispatch :: "(nat \<Rightarrow> Frame \<Rightarrow> 'w comet \<Rightarrow> 'w comet) option"
  csCodec :: wire_codec
  csNowSec :: "'w \<Rightarrow> int \<times> 'w"
  csNowMs :: "'w \<Rightarrow> int \<times> 'w"
  csDial :: "string \<Rightarrow> ('w, unit) call"
  csPeerKick :: "string \<Rightarrow> KickConnReq \<Rightarrow> ('w, unit) call"
  csJitter :: "'w \<Rightarrow> int \<times> 'w"

abbreviation conn :: "'w comet \<Rightarrow> nat \<Rightarrow> Conn" where
  "conn s c \<equiv> coHeap s c"

definition conn_upd :: "nat \<Rightarrow> (Conn \<Rightarrow> Conn) \<Rightarrow> 'w comet \<Rightarrow> 'w comet" where
  "conn_upd c f s = s\<lparr>coHeap := (coHeap s)(c := f (coHeap s c))\<rparr>"

definition spawn :: "task \<Rightarrow> 'w comet \<Rightarrow> 'w comet" where
  "spawn t s = s\<lparr>coTasks := coTasks s @ [t]\<rparr>"

definition outside :: "('w \<Rightarrow> 'a \<times> 'w) \<Rightarrow> 'w comet \<Rightarrow> 'a \<times> 'w comet" where
  "outside f s = (let (r, w) = f (coWorld s) in (r, s\<lparr>coWorld := w\<rparr>))"

definition newConn :: "'w Comet \<Rightarrow> 'w comet \<Rightarrow> nat \<times> 'w comet" where
  "newConn S s =
     (let (now, s1) = outside (csNowSec S) s; c = coNext s1 in
      (c, s1\<lparr>coNext := Suc c, coHeap := (coHeap s1)(c :=
         \<lparr>cnUid = 0, cnDeviceID = [], cnPlatform = 0, cnAuthed = False, cnSend = [], cnLastActive = now,
          cnFullSince = 0, cnClosed = False, cnWire = [], cnReading = True, cnWriting = True\<rparr>)\<rparr>))"

definition DeviceKey :: "int \<Rightarrow> string \<Rightarrow> string" where
  "DeviceKey uid deviceID = format_int uid @ '':'' @ deviceID"

definition Touch :: "'w Comet \<Rightarrow> nat \<Rightarrow> 'w comet \<Rightarrow> 'w comet" where
  "Touch S c s = (let (now, s1) = outside (csNowSec S) s in conn_upd c (cnLastActive_update (\<lambda>_. now)) s1)"

definition idleSeconds :: "Conn \<Rightarrow> int \<Rightarrow> int" where
  "idleSeconds cn now = now - cnLastActive cn"

definition setIdentity :: "nat \<Rightarrow> int \<Rightarrow> string \<Rightarrow> int \<Rightarrow> 'w comet \<Rightarrow> 'w comet" where
  "setIdentity c uid deviceID platform =
     conn_upd c (\<lambda>cn. cn\<lparr>cnUid := uid, cnDeviceID := deviceID, cnPlatform := platform\<rparr>)"

definition markAuthed :: "nat \<Rightarrow> 'w comet \<Rightarrow> 'w comet" where
  "markAuthed c = conn_upd c (cnAuthed_update (\<lambda>_. True))"

definition Push :: "nat \<Rightarrow> bytes \<Rightarrow> 'w comet \<Rightarrow> unit result \<times> 'w comet" where
  "Push c frame s =
     (if cnClosed (conn s c) then (Inl ErrConnClosed, s)
      else if length (cnSend (conn s c)) < sendChanSize
        then (Inr (), conn_upd c (cnSend_update (\<lambda>q. q @ [frame])) s)
      else (Inl ErrSlowConsumer, s))"

definition checkSlow :: "nat \<Rightarrow> int \<Rightarrow> 'w comet \<Rightarrow> bool \<times> 'w comet" where
  "checkSlow c nowMs s =
     (if length (cnSend (conn s c)) < sendChanSize then (False, conn_upd c (cnFullSince_update (\<lambda>_. 0)) s)
      else let fs = cnFullSince (conn s c) in
        if fs = 0 then (False, conn_upd c (cnFullSince_update (\<lambda>_. nowMs)) s)
        else (nowMs - fs > slowKickAfter, s))"

section \<open>Buckets\<close>

text \<open>
  A bucket is a map from device keys to connections, kept as an association list; the order in which
  Go iterates over it is unspecified and no lemma depends on it.
\<close>

type_synonym Bucket = "(string \<times> nat) list"

definition bucketNum :: int where "bucketNum = 256"

definition bucket_put :: "string \<Rightarrow> nat \<Rightarrow> Bucket \<Rightarrow> nat option \<times> Bucket" where
  "bucket_put key c b = (map_of b key, (key, c) # filter (\<lambda>p. fst p \<noteq> key) b)"

definition bucket_get :: "string \<Rightarrow> Bucket \<Rightarrow> nat option" where
  "bucket_get key b = map_of b key"

definition bucket_del :: "string \<Rightarrow> Bucket \<Rightarrow> bool \<times> Bucket" where
  "bucket_del key b = (if map_of b key = None then (False, b) else (True, filter (\<lambda>p. fst p \<noteq> key) b))"

definition bucket_size :: "Bucket \<Rightarrow> nat" where
  "bucket_size b = length b"

definition idleConns :: "(nat \<Rightarrow> Conn) \<Rightarrow> int \<Rightarrow> int \<Rightarrow> Bucket \<Rightarrow> nat list" where
  "idleConns heap now timeoutSec b =
     filter (\<lambda>c. cnAuthed (heap c) \<and> idleSeconds (heap c) now > timeoutSec) (map snd b)"

definition bucketIndex :: "int \<Rightarrow> nat" where
  "bucketIndex uid = nat ((uid mod 2 ^ 64) mod bucketNum)"

definition routeField :: "int \<Rightarrow> string \<Rightarrow> string" where
  "routeField platform deviceID = format_int platform @ '':'' @ deviceID"

abbreviation bucket :: "'w comet \<Rightarrow> int \<Rightarrow> Bucket" where
  "bucket s uid \<equiv> coBuckets s (bucketIndex uid)"

definition set_bucket :: "int \<Rightarrow> Bucket \<Rightarrow> 'w comet \<Rightarrow> 'w comet" where
  "set_bucket uid b s = s\<lparr>coBuckets := (coBuckets s)(bucketIndex uid := b)\<rparr>"

section \<open>Closing\<close>

definition removeConn :: "'w Comet \<Rightarrow> nat \<Rightarrow> 'w comet \<Rightarrow> 'w comet" where
  "removeConn S c s =
     (let uid = cnUid (conn s c); deviceID = cnDeviceID (conn s c);
          s1 = set_bucket uid (snd (bucket_del (DeviceKey uid deviceID) (bucket s uid))) s in
      case csRdb S of
        None \<Rightarrow> s1
      | Some rdb \<Rightarrow>
          (let (_, s2) = outside (rHDel rdb (RouteKey uid) [routeField (cnPlatform (conn s c)) deviceID]) s1;
               (remain, s3) = outside (rHLen rdb (RouteKey uid)) s2 in
           if remain = Inr 0 then snd (outside (rDel rdb (PresenceKey uid)) s3) else s3))"

definition Close :: "'w Comet \<Rightarrow> nat \<Rightarrow> 'w comet \<Rightarrow> 'w comet" where
  "Close S c s =
     (if cnClosed (conn s c) then s
      else conn_upd c (cnClosed_update (\<lambda>_. True)) (if cnAuthed (conn s c) then removeConn S c s else s))"

section \<open>Replies\<close>

definition mustMarshal :: "bytes result \<Rightarrow> bytes" where
  "mustMarshal r = (case r of Inl e \<Rightarrow> [] | Inr b \<Rightarrow> b)"

definition push_encoded :: "nat \<Rightarrow> u16 \<Rightarrow> u32 \<Rightarrow> bytes \<Rightarrow> 'w comet \<Rightarrow> unit result \<times> 'w comet" where
  "push_encoded c cmd sq body s =
     (case Encode \<lparr>fVer = ProtoVer, fCmd = cmd, fSeq = sq, fBody = body\<rparr> of
        Inl e \<Rightarrow> (Inl e, s)
      | Inr frame \<Rightarrow> Push c frame s)"

definition replyAck :: "nat \<Rightarrow> u16 \<Rightarrow> u32 \<Rightarrow> bytes \<Rightarrow> 'w comet \<Rightarrow> 'w comet" where
  "replyAck c cmd sq body s = snd (push_encoded c cmd sq body s)"

definition auth_ack :: "'w Comet \<Rightarrow> int \<Rightarrow> string \<Rightarrow> int \<Rightarrow> int \<Rightarrow> bytes" where
  "auth_ack S code msg uid reason =
     mustMarshal (maAuthAck (csCodec S) \<lparr>aaCode = code, aaMsg = msg, aaUid = uid, aaKickReason = reason\<rparr>)"

definition send_ack :: "wire_codec \<Rightarrow> int \<Rightarrow> string \<Rightarrow> string \<Rightarrow> int \<Rightarrow> int \<Rightarrow> bytes" where
  "send_ack X code cmid mid sq ts =
     mustMarshal (maMsgSendAck X \<lparr>maCode = code, maClientMsgId = cmid, maMsgId = mid, maSeq = sq, maTimestamp = ts\<rparr>)"

definition sync_resp :: "wire_codec \<Rightarrow> string \<Rightarrow> MsgPush list \<Rightarrow> int \<Rightarrow> int \<Rightarrow> bytes" where
  "sync_resp X conv msgs mx code =
     mustMarshal (maSyncResp X \<lparr>yaConvId = conv, yaMessages = msgs, yaMaxSeq = mx, yaCode = code\<rparr>)"

definition replyNotImplemented :: "'w Comet \<Rightarrow> nat \<Rightarrow> Frame \<Rightarrow> 'w comet \<Rightarrow> 'w comet" where
  "replyNotImplemented S c frame s =
     (if fCmd frame = CmdMsgSend then
        replyAck c CmdMsgSendAck (fSeq frame)
          (send_ack (csCodec S) CodeNotImplemented (mqClientMsgId (fst (unMsgSendReq (csCodec S) (fBody frame)))) [] 0 0) s
      else if fCmd frame = CmdSyncPull then
        replyAck c CmdSyncResp (fSeq frame) (sync_resp (csCodec S) [] [] 0 CodeNotImplemented) s
      else s)"

section \<open>Kicking\<close>

definition KickConn :: "'w Comet \<Rightarrow> nat \<Rightarrow> string \<Rightarrow> 'w comet \<Rightarrow> 'w comet" where
  "KickConn S c reason s =
     spawn (TClose c) (snd (push_encoded c CmdAuthAck 0 (auth_ack S CodeKicked reason 0 1) s))"

definition cometConn :: "'w Comet \<Rightarrow> string \<Rightarrow> 'w comet \<Rightarrow> unit result \<times> 'w comet" where
  "cometConn S addr s =
     (if addr \<in> set (coPeers s) then (Inr (), s)
      else case outside (csDial S addr) s of
        (Inl e, s1) \<Rightarrow> (Inl e, s1)
      | (Inr _, s1) \<Rightarrow> (Inr (), s1\<lparr>coPeers := addr # coPeers s1\<rparr>))"

definition kickRemote :: "'w Comet \<Rightarrow> string \<Rightarrow> int \<Rightarrow> string \<Rightarrow> string \<Rightarrow> 'w comet \<Rightarrow> unit result \<times> 'w comet" where
  "kickRemote S addr uid deviceID reason s =
     (case cometConn S addr s of
        (Inl e, s1) \<Rightarrow> (Inl e, s1)
      | (Inr _, s1) \<Rightarrow> outside (csPeerKick S addr \<lparr>kcUid = uid, kcDeviceId = deviceID, kcReason = reason\<rparr>) s1)"

definition same_platform :: string where "same_platform = ''same-platform login''"

fun kick_fields :: "'w Comet \<Rightarrow> int \<Rightarrow> string \<Rightarrow> string \<Rightarrow> (string \<times> string) list \<Rightarrow> nat \<Rightarrow> 'w comet \<Rightarrow> nat \<times> 'w comet" where
  "kick_fields S uid want curDevice [] kicked s = (kicked, s)"
| "kick_fields S uid want curDevice ((field, addr) # route) kicked s =
     (if length field \<le> length want \<or> take (length want) field \<noteq> want
      then kick_fields S uid want curDevice route kicked s
      else let device = drop (length want) field in
        if device = curDevice then kick_fields S uid want curDevice route kicked s
        else if addr = csAddr S then
          (case bucket_get (DeviceKey uid device) (bucket s uid) of
             Some old \<Rightarrow> kick_fields S uid want curDevice route (Suc kicked) (KickConn S old same_platform s)
           | None \<Rightarrow> kick_fields S uid want curDevice route kicked s)
        else case kickRemote S addr uid device same_platform s of
            (Inl e, s1) \<Rightarrow> kick_fields S uid want curDevice route kicked s1
          | (Inr _, s1) \<Rightarrow> kick_fields S uid want curDevice route (Suc kicked) s1)"

definition kickSamePlatform :: "'w Comet \<Rightarrow> int \<Rightarrow> int \<Rightarrow> string \<Rightarrow> 'w comet \<Rightarrow> nat \<times> 'w comet" where
  "kickSamePlatform S uid platform curDevice s =
     (case csRdb S of
        None \<Rightarrow> (0, s)
      | Some rdb \<Rightarrow>
          (case outside (rHGetAll rdb (RouteKey uid)) s of
             (Inl e, s1) \<Rightarrow> (0, s1)
           | (Inr route, s1) \<Rightarrow> kick_fields S uid (format_int platform @ '':'') curDevice route 0 s1))"

section \<open>Login\<close>

definition register_route :: "'w Comet \<Rightarrow> nat \<Rightarrow> int \<Rightarrow> 'w comet \<Rightarrow> 'w comet" where
  "register_route S c uid s =
     (case csRdb S of
        None \<Rightarrow> s
      | Some rdb \<Rightarrow>
          snd (outside (rSet rdb (PresenceKey uid) ''online'' presenceTTL)
            (snd (outside (rHSet rdb (RouteKey uid) (routeField (cnPlatform (conn s c)) (cnDeviceID (conn s c))) (csAddr S)) s))))"

text \<open>The part of \<open>handleAuth\<close> after a successful verification.\<close>

definition login :: "'w Comet \<Rightarrow> nat \<Rightarrow> Frame \<Rightarrow> int \<Rightarrow> AuthReq \<Rightarrow> 'w comet \<Rightarrow> 'w comet" where
  "login S c frame uid req s1 =
     (let s2 = setIdentity c uid (aqDeviceId req) (aqPlatform req) s1;
          (kicked, s3) = kickSamePlatform S uid (aqPlatform req) (aqDeviceId req) s2;
          (old, b) = bucket_put (DeviceKey uid (cnDeviceID (conn s3 c))) c (bucket s3 uid);
          s4 = set_bucket uid b s3;
          s5 = (case old of Some c' \<Rightarrow> if c' \<noteq> c then Close S c' s4 else s4 | None \<Rightarrow> s4);
          s6 = markAuthed c (register_route S c uid s5);
          s7 = replyAck c CmdAuthAck (fSeq frame) (auth_ack S 0 ''ok'' uid 0) s6
      in spawn (TNotify c (cnPlatform (conn s7 c))) s7)"

definition handleAuth :: "'w Comet \<Rightarrow> nat \<Rightarrow> Frame \<Rightarrow> 'w comet \<Rightarrow> 'w comet" where
  "handleAuth S c frame s =
     (case unAuthReq (csCodec S) (fBody frame) of
        (req, Some e) \<Rightarrow>
          Close S c (replyAck c CmdAuthAck (fSeq frame) (auth_ack S CodeAuthFailed ''auth frame malformed'' 0 0) s)
      | (req, None) \<Rightarrow>
          (case outside (lcVerifyToken (csLogic S) \<lparr>vtqUid = aqUid req, vtqToken = aqToken req\<rparr>) s of
             (Inl e, s1) \<Rightarrow>
               Close S c (replyAck c CmdAuthAck (fSeq frame) (auth_ack S CodeAuthFailed ''verify failed'' 0 0) s1)
           | (Inr resp, s1) \<Rightarrow>
               if \<not> vtrValid resp then
                 Close S c (replyAck c CmdAuthAck (fSeq frame) (auth_ack S (vtrCode resp) ''verify failed'' 0 0) s1)
               else login S c frame (vtrUid resp) req s1))"

section \<open>Client frames\<close>

definition handleMsgSend :: "'w LogicClient \<Rightarrow> wire_codec \<Rightarrow> nat \<Rightarrow> Frame \<Rightarrow> 'w comet \<Rightarrow> 'w comet" where
  "handleMsgSend L X c frame s =
     (case unMsgSendReq X (fBody frame) of
        (req, Some e) \<Rightarrow> replyAck c CmdMsgSendAck (fSeq frame) (send_ack X CodeAuthFailed (mqClientMsgId req) [] 0 0) s
      | (req, None) \<Rightarrow>
          (let (res, s1) = outside (lcSendMsg L
                 \<lparr>srSenderId = cnUid (conn s c), srConvId = mqConvId req, srConvType = mqConvType req,
                  srClientMsgId = mqClientMsgId req, srDeviceId = cnDeviceID (conn s c), srMsgType = mqMsgType req,
                  srPayload = mqPayload req\<rparr>) s;
               ack = (case res of Inl e \<Rightarrow> \<lparr>saCode = CodeLogicUnavailable, saMsgId = [], saSeq = 0, saTimestamp = 0\<rparr> | Inr a \<Rightarrow> a)
           in replyAck c CmdMsgSendAck (fSeq frame)
                (send_ack X (saCode ack) (mqClientMsgId req) (saMsgId ack) (saSeq ack) (saTimestamp ack)) s1))"

definition handleMsgReceivedAck :: "'w LogicClient \<Rightarrow> wire_codec \<Rightarrow> nat \<Rightarrow> Frame \<Rightarrow> 'w comet \<Rightarrow> 'w comet" where
  "handleMsgReceivedAck L X c frame s =
     (case unReceivedAckReq X (fBody frame) of
        (req, Some e) \<Rightarrow> s
      | (req, None) \<Rightarrow>
          (let (_, s1) = outside (lcMarkRead L \<lparr>mrUid = cnUid (conn s c), mrConvId = raConvId req, mrSeq = raSeq req\<rparr>) s;
               (_, s2) = outside (lcReportDelivered L
                  \<lparr>rdUid = cnUid (conn s1 c), rdMsgId = raMsgId req, rdConvId = raConvId req\<rparr>) s1
           in s2))"

definition push_of_pb :: "PbMsg \<Rightarrow> MsgPush" where
  "push_of_pb m =
     \<lparr>mpMsgId = pmMsgId m, mpConvId = pmConvId m, mpConvType = pmConvType m, mpSenderId = pmSenderId m,
      mpMsgType = pmMsgType m, mpPayload = pmPayload m, mpSeq = pmSeq m, mpTimestamp = pmTimestamp m\<rparr>"

definition handleSyncPull :: "'w LogicClient \<Rightarrow> wire_codec \<Rightarrow> nat \<Rightarrow> Frame \<Rightarrow> 'w comet \<Rightarrow> 'w comet" where
  "handleSyncPull L X c frame s =
     (case unSyncPullReq X (fBody frame) of
        (req, Some e) \<Rightarrow> replyAck c CmdSyncResp (fSeq frame) (sync_resp X [] [] 0 CodeAuthFailed) s
      | (req, None) \<Rightarrow>
          (case outside (lcSyncPull L
              \<lparr>yqConvId = yqConvId req, yqLocalMaxSeq = yqLocalMaxSeq req, yqLimit = yqLimit req, yqUid = cnUid (conn s c)\<rparr>) s of
             (Inl e, s1) \<Rightarrow> replyAck c CmdSyncResp (fSeq frame) (sync_resp X [] [] 0 CodeLogicUnavailable) s1
           | (Inr resp, s1) \<Rightarrow>
               replyAck c CmdSyncResp (fSeq frame)
                 (sync_resp X (yqConvId req) (map push_of_pb (yrMessages resp)) (yrMaxSeq resp) (yrCode resp)) s1))"

definition NewLogicDispatcher :: "'w LogicClient \<Rightarrow> wire_codec \<Rightarrow> nat \<Rightarrow> Frame \<Rightarrow> 'w comet \<Rightarrow> 'w comet" where
  "NewLogicDispatcher L X c frame s =
     (if fCmd frame = CmdMsgSend then handleMsgSend L X c frame s
      else if fCmd frame = CmdMsgReceivedAck then handleMsgReceivedAck L X c frame s
      else if fCmd frame = CmdSyncPull then handleSyncPull L X c frame s
      else s)"

definition NotifyOnline :: "'w Comet \<Rightarrow> nat \<Rightarrow> int \<Rightarrow> 'w comet \<Rightarrow> 'w comet" where
  "NotifyOnline S c platform s =
     (case outside (lcOnlineEvent (csLogic S)
         \<lparr>oeUid = cnUid (conn s c), oeDeviceId = cnDeviceID (conn s c), oePlatform = platform,
          oeCometAddr = csAddr S, oeOnline = True\<rparr>) s of
        (Inl e, s1) \<Rightarrow> s1
      | (Inr resp, s1) \<Rightarrow>
          if prConvs resp = [] then s1
          else snd (push_encoded c CmdSyncNotify 0 (mustMarshal (maSyncNotifyReq (csCodec S) \<lparr>snConvs = prConvs resp\<rparr>)) s1))"

section \<open>The loops\<close>

definition renewPresence :: "'w Comet \<Rightarrow> int \<Rightarrow> 'w comet \<Rightarrow> 'w comet" where
  "renewPresence S uid s =
     (case csRdb S of
        None \<Rightarrow> s
      | Some rdb \<Rightarrow> snd (outside (rSet rdb (PresenceKey uid) ''online'' presenceTTL) s))"

definition renewPresenceAsync :: "'w Comet \<Rightarrow> int \<Rightarrow> 'w comet \<Rightarrow> 'w comet" where
  "renewPresenceAsync S uid s = (if csRdb S = None then s else spawn (TRenew uid) s)"

text \<open>One round of \<open>readLoop\<close>, given what \<open>ReadFrame\<close> returned.\<close>

definition read_round :: "'w Comet \<Rightarrow> nat \<Rightarrow> Frame result \<Rightarrow> 'w comet \<Rightarrow> 'w comet" where
  "read_round S c res s =
     (case res of
        Inl e \<Rightarrow> conn_upd c (cnReading_update (\<lambda>_. False)) (Close S c s)
      | Inr frame \<Rightarrow>
          (let s1 = Touch S c s in
           if \<not> cnAuthed (conn s1 c) then
             (if fCmd frame \<noteq> CmdAuth then conn_upd c (cnReading_update (\<lambda>_. False)) (Close S c s1)
              else handleAuth S c frame s1)
           else if fCmd frame = CmdHeartbeat then
             renewPresenceAsync S (cnUid (conn s1 c)) (replyAck c CmdHeartbeatAck (fSeq frame) [] s1)
           else if fCmd frame = CmdAuth then s1
           else if fCmd frame \<in> {CmdMsgSend, CmdMsgReceivedAck, CmdSyncPull} then
             (case csDispatch S of
                Some dispatch \<Rightarrow> dispatch c frame s1
              | None \<Rightarrow> replyNotImplemented S c frame s1)
           else s1))"

text \<open>The cases of \<open>writeLoop\<close>: a queued frame, written or not; a tick; the closed signal.\<close>

definition write_frame :: "'w Comet \<Rightarrow> nat \<Rightarrow> bool \<Rightarrow> 'w comet \<Rightarrow> 'w comet" where
  "write_frame S c fails s =
     (case cnSend (conn s c) of
        [] \<Rightarrow> s
      | frame # q \<Rightarrow>
          (let s1 = conn_upd c (cnSend_update (\<lambda>_. q)) s in
           if fails then conn_upd c (cnWriting_update (\<lambda>_. False)) (Close S c s1)
           else conn_upd c (cnWire_update (\<lambda>ws. ws @ [frame])) s1))"

definition write_tick :: "'w Comet \<Rightarrow> nat \<Rightarrow> 'w comet \<Rightarrow> 'w comet" where
  "write_tick S c s =
     (let (t, s1) = outside (csNowMs S) s; (slow, s2) = checkSlow c t s1 in
      if slow then conn_upd c (cnWriting_update (\<lambda>_. False)) (Close S c s2) else s2)"

definition write_closed :: "nat \<Rightarrow> 'w comet \<Rightarrow> 'w comet" where
  "write_closed c s = (if cnClosed (conn s c) then conn_upd c (cnWriting_update (\<lambda>_. False)) s else s)"

text \<open>A tick of the idle scan of one bucket (\<open>StartBackground\<close>).\<close>

definition idle_scan :: "'w Comet \<Rightarrow> nat \<Rightarrow> 'w comet \<Rightarrow> 'w comet" where
  "idle_scan S i s =
     (let (t, s1) = outside (csNowSec S) s
      in fold (Close S) (idleConns (coHeap s1) t idleTimeout (coBuckets s1 i)) s1)"

definition ServeWS :: "'w Comet \<Rightarrow> 'w comet \<Rightarrow> 'w comet" where
  "ServeWS S s = (let (c, s1) = newConn S s in spawn (TWatchdog c) s1)"

definition run_task :: "'w Comet \<Rightarrow> task \<Rightarrow> 'w comet \<Rightarrow> 'w comet" where
  "run_task S t s =
     (case t of
        TClose c \<Rightarrow> Close S c s
      | TWatchdog c \<Rightarrow> if cnAuthed (conn s c) then s else Close S c s
      | TRenew uid \<Rightarrow> renewPresence S uid s
      | TNotify c platform \<Rightarrow> NotifyOnline S c platform s)"

section \<open>Draining\<close>

definition OnlineCount :: "'w comet \<Rightarrow> nat" where
  "OnlineCount s = sum_list (map (\<lambda>i. bucket_size (coBuckets s i)) [0..<256])"

definition drain_conn :: "'w Comet \<Rightarrow> nat \<Rightarrow> 'w comet \<Rightarrow> 'w comet" where
  "drain_conn S c s =
     (let (jitter, s1) = outside (csJitter S) s
      in snd (push_encoded c CmdReconnectNow 0 (mustMarshal (maReconnectReq (csCodec S) \<lparr>rcJitterMs = jitter\<rparr>)) s1))"

definition drain_broadcast :: "'w Comet \<Rightarrow> 'w comet \<Rightarrow> 'w comet" where
  "drain_broadcast S s = fold (\<lambda>i s. fold (drain_conn S) (map snd (coBuckets s i)) s) [0..<256] s"

text \<open>
  The wait after the broadcast, on the times and states its rounds find: \<open>None\<close> while the grace
  period goes on.
\<close>

fun drain_wait :: "int \<Rightarrow> (int \<times> 'w comet) list \<Rightarrow> nat option" where
  "drain_wait deadline [] = None"
| "drain_wait deadline ((t, s) # rounds) =
     (if t < deadline then (if OnlineCount s = 0 then Some 0 else drain_wait deadline rounds)
      else Some (OnlineCount s))"

section \<open>The gRPC service\<close>

fun push_all :: "nat \<Rightarrow> bytes list \<Rightarrow> 'w comet \<Rightarrow> bool \<times> 'w comet" where
  "push_all c [] s = (True, s)"
| "push_all c (frame # frames) s =
     (case Push c frame s of (Inl e, s1) \<Rightarrow> (False, s1) | (Inr _, s1) \<Rightarrow> push_all c frames s1)"

definition PushFrames :: "PushFramesReq \<Rightarrow> 'w comet \<Rightarrow> PushFramesResp \<times> 'w comet" where
  "PushFrames req s =
     (case bucket_get (DeviceKey (pfUid req) (pfDeviceId req)) (bucket s (pfUid req)) of
        None \<Rightarrow> (\<lparr>pfOnline = False\<rparr>, s)
      | Some c \<Rightarrow> (let (ok, s1) = push_all c (pfFrames req) s in (\<lparr>pfOnline = ok\<rparr>, s1)))"

definition Kick :: "'w Comet \<Rightarrow> KickConnReq \<Rightarrow> 'w comet \<Rightarrow> 'w comet" where
  "Kick S req s =
     (case bucket_get (DeviceKey (kcUid req) (kcDeviceId req)) (bucket s (kcUid req)) of
        None \<Rightarrow> s
      | Some c \<Rightarrow> KickConn S c (kcReason req) s)"

definition aliveTTL :: int where "aliveTTL = 30 * 1000"

definition Alive_Start :: "'w redis \<Rightarrow> string \<Rightarrow> ('w, unit) call" where
  "Alive_Start rdb addr = rSet rdb (CometAliveKey addr) ''1'' aliveTTL"

definition Alive_renew :: "'w redis \<Rightarrow> string \<Rightarrow> 'w \<Rightarrow> 'w" where
  "Alive_renew rdb addr w = snd (rSet rdb (CometAliveKey addr) ''1'' aliveTTL w)"

definition Alive_Stop :: "'w redis \<Rightarrow> string \<Rightarrow> 'w \<Rightarrow> 'w" where
  "Alive_Stop rdb addr w = snd (rDel rdb (CometAliveKey addr) w)"

section \<open>Start\<close>

text \<open>\<open>NewServer\<close> as \<^verbatim>\<open>cmd/comet\<close> calls it, with the dispatcher of the logic service; and its buckets.\<close>

definition NewComet ::
  "string \<Rightarrow> 'w redis option \<Rightarrow> 'w LogicClient \<Rightarrow> wire_codec \<Rightarrow> ('w \<Rightarrow> int \<times> 'w) \<Rightarrow> ('w \<Rightarrow> int \<times> 'w) \<Rightarrow>
   (string \<Rightarrow> ('w, unit) call) \<Rightarrow> (string \<Rightarrow> KickConnReq \<Rightarrow> ('w, unit) call) \<Rightarrow> ('w \<Rightarrow> int \<times> 'w) \<Rightarrow> 'w Comet" where
  "NewComet addr rdb L X sec ms dial peerKick jitter =
     \<lparr>csAddr = addr, csRdb = rdb, csLogic = L, csDispatch = Some (NewLogicDispatcher L X), csCodec = X,
      csNowSec = sec, csNowMs = ms, csDial = dial, csPeerKick = peerKick, csJitter = jitter\<rparr>"

definition blank_conn :: Conn where
  "blank_conn = \<lparr>cnUid = 0, cnDeviceID = [], cnPlatform = 0, cnAuthed = False, cnSend = [], cnLastActive = 0,
     cnFullSince = 0, cnClosed = False, cnWire = [], cnReading = False, cnWriting = False\<rparr>"

definition comet_init :: "'w \<Rightarrow> 'w comet" where
  "comet_init w = \<lparr>coHeap = \<lambda>_. blank_conn, coNext = 0, coBuckets = \<lambda>_. [], coPeers = [], coTasks = [], coWorld = w\<rparr>"

end
