(* ===== verification/Members.thy ===== *)
theory Members
  imports Services RedisKeys
begin

text \<open>
  The group member source of \<^verbatim>\<open>internal/service/members.go\<close>: a Redis set in front of the
  \<open>group_member\<close> table. The cache of a group is coherent when it is absent or holds exactly the
  table's members; every read keeps it so and then returns the members of the table, also when
  Redis is down, and \<open>Invalidate\<close> makes it coherent after the table changed.
\<close>

section \<open>Operations\<close>

fun parseUIDs :: "string list \<Rightarrow> int list" where
  "parseUIDs [] = []"
| "parseUIDs (v # vals) =
     (case parse_int v of Inr n \<Rightarrow> n # parseUIDs vals | Inl _ \<Rightarrow> parseUIDs vals)"

text \<open>\<open>SELECT uid FROM group_member WHERE group_id = ?\<close>\<close>

definition select_members :: "int \<Rightarrow> tables \<Rightarrow> int list" where
  "select_members gid T = map gmUid (filter (\<lambda>r. gmGroup r = gid) (tMember T))"

definition membersTTL :: int where "membersTTL = 24 * 3600 * 1000"

definition loadAndBackfill :: "'w redis \<Rightarrow> 'w mysql \<Rightarrow> int \<Rightarrow> bool \<Rightarrow> ('w, int list) call" where
  "loadAndBackfill R M gid backfill w =
     (case mQuery M w of
        (Inl e, w1) \<Rightarrow> (Inl (errorf ''service: load group members'' e), w1)
      | (Inr T, w1) \<Rightarrow>
          (let uids = select_members gid T in
           if backfill \<and> uids \<noteq> [] then
             (case rSAdd R (ConvMembersKey gid) (map format_int uids) w1 of
                (Inl e, w2) \<Rightarrow> (Inr uids, w2)
              | (Inr _, w2) \<Rightarrow>
                  (case rExpire R (ConvMembersKey gid) membersTTL w2 of (_, w3) \<Rightarrow> (Inr uids, w3)))
           else (Inr uids, w1)))"

definition Members :: "'w redis \<Rightarrow> 'w mysql \<Rightarrow> int \<Rightarrow> ('w, int list) call" where
  "Members R M gid w =
     (case rSMembers R (ConvMembersKey gid) w of
        (Inr vals, w1) \<Rightarrow>
          if vals \<noteq> [] then (Inr (parseUIDs vals), w1) else loadAndBackfill R M gid True w1
      | (Inl e, w1) \<Rightarrow>
          if e \<noteq> RedisNil then loadAndBackfill R M gid False w1 else loadAndBackfill R M gid True w1)"

definition IsMember :: "'w redis \<Rightarrow> 'w mysql \<Rightarrow> int \<Rightarrow> int \<Rightarrow> ('w, bool) call" where
  "IsMember R M gid uid w =
     (case Members R M gid w of
        (Inl e, w1) \<Rightarrow> (Inl e, w1)
      | (Inr members, w1) \<Rightarrow> (Inr (uid \<in> set members), w1))"

definition Invalidate :: "'w redis \<Rightarrow> int \<Rightarrow> ('w, unit) call" where
  "Invalidate R gid w = rDel R (ConvMembersKey gid) w"

section \<open>Coherence\<close>

definition members_coherent :: "int \<Rightarrow> svc \<Rightarrow> bool" where
  "members_coherent gid s \<longleftrightarrow>
     sKeys s (ConvMembersKey gid) = None \<or>
     (\<exists>vs. sKeys s (ConvMembersKey gid) = Some (VSet vs) \<and>
       set vs = format_int ` set (select_members gid (sTabs s)))"

text \<open>The identifiers of the table fit its \<open>BIGINT\<close> columns.\<close>

definition members_wf :: "tables \<Rightarrow> bool" where
  "members_wf T \<longleftrightarrow> (\<forall>r \<in> set (tMember T). int64 (gmUid r))"

lemma parseUIDs_format:
  assumes "set vs = format_int ` U" and "\<And>u. u \<in> U \<Longrightarrow> int64 u"
  shows "set (parseUIDs vs) = U"
proof -
  have "set (parseUIDs vs) = {u. \<exists>v \<in> set vs. parse_int v = Inr u}"
    by (induction vs) (auto split: sum.splits)
  also have "\<dots> = U" using assms by (auto simp: parse_int_format)
  finally show ?thesis .
qed

lemma distinct_parseUIDs:
  assumes "distinct vs" and "set vs \<subseteq> format_int ` U" and "\<And>u. u \<in> U \<Longrightarrow> int64 u"
  shows "distinct (parseUIDs vs)"
  using assms(1,2)
proof (induction vs)
  case (Cons v vs)
  then obtain u where u: "v = format_int u" "u \<in> U" by auto
  have "u \<notin> set (parseUIDs vs)"
  proof
    assume "u \<in> set (parseUIDs vs)"
    then have "\<exists>x \<in> set vs. parse_int x = Inr u" by (induction vs) (auto split: sum.splits)
    then obtain x where x: "x \<in> set vs" "parse_int x = Inr u" by blast
    with Cons.prems(2) obtain y where "x = format_int y" "y \<in> U" by auto
    with x assms(3) u Cons.prems(1) show False by (auto simp: parse_int_format)
  qed
  with Cons u assms(3) show ?case by (simp add: parse_int_format)
qed simp

lemma select_members_int64: "members_wf T \<Longrightarrow> u \<in> set (select_members g T) \<Longrightarrow> int64 u"
  by (auto simp: members_wf_def select_members_def)

context services
begin

lemma loadAndBackfill_spec:
  assumes "loadAndBackfill R M gid bf w = (res, w')" and "members_coherent gid (st w)"
  shows "members_coherent gid (st w') \<and> sTabs (st w') = sTabs (st w) \<and> sLog (st w') = sLog (st w) \<and>
    sLast (st w') = sLast (st w) \<and>
    (\<forall>k. k \<noteq> ConvMembersKey gid \<longrightarrow> sKeys (st w') k = sKeys (st w) k) \<and>
    (\<forall>us. res = Inr us \<longrightarrow> us = select_members gid (sTabs (st w)))"
proof -
  obtain r w1 where q: "mQuery M w = (r, w1)" by (cases "mQuery M w")
  note Q = Query [OF q]
  show ?thesis
  proof (cases r)
    case (Inl e)
    with assms q Q show ?thesis by (auto simp: loadAndBackfill_def)
  next
    case (Inr T)
    with Q have T: "T = sTabs (st w)" "st w1 = st w" by auto
    show ?thesis
    proof (cases "bf \<and> select_members gid T \<noteq> []")
      case False
      with Inr T assms q show ?thesis by (auto simp: loadAndBackfill_def Let_def)
    next
      case True
      obtain r2 w2 where a: "rSAdd R (ConvMembersKey gid) (map format_int (select_members gid T)) w1 = (r2, w2)"
        by (cases "rSAdd R (ConvMembersKey gid) (map format_int (select_members gid T)) w1")
      have same: "st w' = st w2" "\<forall>us. res = Inr us \<longrightarrow> us = select_members gid (sTabs (st w))"
        using assms(1) q Inr T a True Expire
        by (auto simp: loadAndBackfill_def Let_def split: sum.splits prod.splits)
      have sub: "set_at (sKeys (st w)) (ConvMembersKey gid) \<subseteq> format_int ` set (select_members gid T)"
        using assms(2) T by (auto simp: members_coherent_def set_at_def)
      note upd = SAdd [OF a, unfolded T(2)]
      show ?thesis
      proof (cases "st w2 = st w")
        case True
        with same assms(2) show ?thesis by simp
      next
        case False
        with upd have w2: "sTabs (st w2) = sTabs (st w)" "sLog (st w2) = sLog (st w)" "sLast (st w2) = sLast (st w)"
          "\<forall>k. k \<noteq> ConvMembersKey gid \<longrightarrow> sKeys (st w2) k = sKeys (st w) k"
          "set_at (sKeys (st w2)) (ConvMembersKey gid) =
             set_at (sKeys (st w)) (ConvMembersKey gid) \<union> format_int ` set (select_members gid T)"
          unfolding wrote_key_def T(2) by simp_all
        from w2(5) sub have "set_at (sKeys (st w2)) (ConvMembersKey gid) = format_int ` set (select_members gid T)"
          by auto
        with \<open>bf \<and> select_members gid T \<noteq> []\<close> T(1) w2(1) have "members_coherent gid (st w2)"
          by (auto simp: members_coherent_def set_at_def split: option.splits rvalue.splits)
        with same w2 show ?thesis by simp
      qed
    qed
  qed
qed

lemma Members_spec:
  assumes "Members R M gid w = (res, w')" and "members_coherent gid (st w)" and "members_wf (sTabs (st w))"
  shows "members_coherent gid (st w') \<and> sTabs (st w') = sTabs (st w) \<and> sLog (st w') = sLog (st w) \<and>
    sLast (st w') = sLast (st w) \<and>
    (\<forall>k. k \<noteq> ConvMembersKey gid \<longrightarrow> sKeys (st w') k = sKeys (st w) k) \<and>
    (\<forall>us. res = Inr us \<longrightarrow> set us = set (select_members gid (sTabs (st w))) \<and>
       (distinct (select_members gid (sTabs (st w))) \<longrightarrow> distinct us))"
proof -
  obtain r w1 where s: "rSMembers R (ConvMembersKey gid) w = (r, w1)"
    by (cases "rSMembers R (ConvMembersKey gid) w")
  note S = SMembers [OF s]
  show ?thesis
  proof (cases "\<exists>vs. r = Inr vs \<and> vs \<noteq> []")
    case True
    then obtain vs where vs: "r = Inr vs" "vs \<noteq> []" by blast
    let ?U = "set (select_members gid (sTabs (st w)))"
    from S vs have s': "set vs = set_at (sKeys (st w)) (ConvMembersKey gid)" "distinct vs" by simp_all
    from vs(2) assms(2) have v: "set vs = format_int ` ?U"
      unfolding s'(1) members_coherent_def set_at_def using s'(1) by (elim disjE exE conjE) (simp_all add: set_at_def)
    have U: "int64 u" if "u \<in> ?U" for u using select_members_int64 [OF assms(3) that] .
    from assms(1) vs s have "res = Inr (parseUIDs vs)" "w' = w1" by (simp_all add: Members_def)
    moreover have "set (parseUIDs vs) = ?U" by (rule parseUIDs_format [OF v U])
    moreover have "distinct (parseUIDs vs)" by (rule distinct_parseUIDs [OF s'(2) equalityD1 [OF v] U])
    ultimately show ?thesis using S assms(2) by simp
  next
    case False
    with assms(1) s obtain bf where "loadAndBackfill R M gid bf w1 = (res, w')"
      by (auto simp: Members_def split: sum.splits if_splits)
    from loadAndBackfill_spec [OF this] S assms(2) show ?thesis by auto
  qed
qed

lemma IsMember_spec:
  assumes "IsMember R M gid uid w = (res, w')" and "members_coherent gid (st w)" and "members_wf (sTabs (st w))"
  shows "members_coherent gid (st w') \<and> sTabs (st w') = sTabs (st w) \<and> sLog (st w') = sLog (st w) \<and>
    sLast (st w') = sLast (st w) \<and>
    (\<forall>k. k \<noteq> ConvMembersKey gid \<longrightarrow> sKeys (st w') k = sKeys (st w) k) \<and>
    (\<forall>b. res = Inr b \<longrightarrow> b = (uid \<in> set (select_members gid (sTabs (st w)))))"
proof -
  obtain r w1 where m: "Members R M gid w = (r, w1)" by (cases "Members R M gid w")
  with assms(1) have "w' = w1" "\<forall>b. res = Inr b \<longrightarrow> (\<exists>us. r = Inr us \<and> b = (uid \<in> set us))"
    by (auto simp: IsMember_def split: sum.splits)
  with Members_spec [OF m assms(2,3)] show ?thesis by auto
qed

text \<open>Deleting the key makes the cache coherent with whatever the table holds.\<close>

lemma Invalidate_coherent:
  assumes "Invalidate R gid w = (Inr (), w')"
  shows "members_coherent gid (st w')"
  using wrote_key_ok [OF Del [OF assms [unfolded Invalidate_def]]] by (simp add: members_coherent_def)

lemma members_frame:
  assumes "sTabs s' = sTabs s" and "sKeys s' (ConvMembersKey gid) = sKeys s (ConvMembersKey gid)"
  shows "members_coherent gid s' = members_coherent gid s"
  using assms by (simp add: members_coherent_def)

end

section \<open>Properties\<close>

text \<open>
  C25: while the cache of a group is coherent, \<open>Members\<close> returns exactly the members of the table
  when it returns at all, also when Redis fails; it keeps the cache coherent and touches no other
  key and no table.
\<close>

theorem members_cache_transparent:
  assumes "services R M P now st" and "members_coherent gid (st w)" and "members_wf (sTabs (st w))"
    and "Members R M gid w = (res, w')"
  shows "members_coherent gid (st w') \<and> sTabs (st w') = sTabs (st w) \<and>
    (\<forall>k. k \<noteq> ConvMembersKey gid \<longrightarrow> sKeys (st w') k = sKeys (st w) k) \<and>
    (\<forall>us. res = Inr us \<longrightarrow> set us = set (select_members gid (sTabs (st w))))"
  using services.Members_spec [OF assms(1,4,2,3)] by blast

definition demo_group :: mem where
  "demo_group = \<lparr>mmKeys = [], mmTabs = \<lparr>tUser = [], tFriend = [], tGroup = [],
     tMember = [\<lparr>gmGroup = 7, gmUid = 1, gmRole = 2\<rparr>, \<lparr>gmGroup = 7, gmUid = 2, gmRole = 0\<rparr>],
     tConv = [], tMsg = \<lambda>_. []\<rparr>, mmLog = [], mmClock = 0, mmFaults = [1, 0]\<rparr>"

theorem members_cache_transparent_witness:
  "\<exists>us w'. Members mem_redis mem_mysql 7 demo_group = (Inr us, w') \<and> set us = {1, 2}"
proof -
  have m: "Members mem_redis mem_mysql 7 demo_group = (Inr [1, 2], demo_group\<lparr>mmFaults := []\<rparr>)"
    by (simp add: Members_def loadAndBackfill_def demo_group_def mem_redis_def mem_mysql_def mem_call_def mem_set_def
        select_members_def mem_down_def)
  from members_cache_transparent [OF mem.services_axioms _ _ m] have "set [1, 2] = set (select_members 7 (mmTabs demo_group))"
    by (auto simp: members_coherent_def members_wf_def demo_group_def mem_st_def int64_iff)
  with m show ?thesis by auto
qed

end
