(* ===== verification/LogicDeps.thy ===== *)
theory LogicDeps
  imports Members Kafkax Conv Messages Snowflake
begin

text \<open>
  The dependencies of the logic server (\<^verbatim>\<open>internal/logic/server.go\<close>, \<^verbatim>\<open>sendmsg.go\<close>): its Go
  interfaces as records of functions on the world, the server that holds them, and their
  implementations on Redis, MySQL and Kafka (\<^verbatim>\<open>redisdep.go\<close>, \<^verbatim>\<open>server.go\<close>), put together as
  \<^verbatim>\<open>cmd/logic/main.go\<close> does.

  What \<open>sendMsg\<close> relies on is the locale \<open>send_deps\<close>, over four views of the world: the idempotency
  keys, the last sequence number of each conversation, the log, and who may write to whom. The
  last section shows that the wired implementations satisfy it in every world of \<open>services\<close>.
\<close>

section \<open>Interfaces\<close>

record 'w Cache =
  cGet :: "string \<Rightarrow> ('w, string) call"
  cSet :: "string \<Rightarrow> string \<Rightarrow> int \<Rightarrow> ('w, unit) call"

type_synonym 'w Verifier = "int \<Rightarrow> string \<Rightarrow> ('w, int \<times> bool) call"
type_synonym 'w FriendChecker = "int \<Rightarrow> int \<Rightarrow> ('w, bool) call"
type_synonym 'w SeqGen = "string \<Rightarrow> ('w, int) call"

record 'w IdemStore =
  iSetNX :: "string \<Rightarrow> string \<Rightarrow> int \<Rightarrow> ('w, bool) call"
  iGet :: "string \<Rightarrow> ('w, string) call"
  iSet :: "string \<Rightarrow> string \<Rightarrow> int \<Rightarrow> ('w, unit) call"
  iDel :: "string \<Rightarrow> ('w, unit) call"

type_synonym 'w Producer = "string \<Rightarrow> bytes \<Rightarrow> bytes \<Rightarrow> (string \<times> string) list list \<Rightarrow> ('w, unit) call"

record 'w GroupMemberSource =
  gsMembers :: "int \<Rightarrow> ('w, int list) call"
  gsIsMember :: "int \<Rightarrow> int \<Rightarrow> ('w, bool) call"

record 'w SyncStore =
  ssPullMessages :: "int \<Rightarrow> string \<Rightarrow> int \<Rightarrow> int \<Rightarrow> ('w, PbMsg list \<times> int) call"
  ssPendingConvs :: "int \<Rightarrow> ('w, ConvBrief list) call"
  ssMarkRead :: "int \<Rightarrow> string \<Rightarrow> int \<Rightarrow> ('w, unit) call"

text \<open>
  The server. Its snowflake node is the only field an operation changes; it is passed beside the
  world. \<open>sMembers\<close> and \<open>sRdb\<close> may be nil.
\<close>

record 'w Server =
  vCache :: "'w Cache"
  vVerifier :: "'w Verifier"
  vFriends :: "'w FriendChecker"
  vSeq :: "'w SeqGen"
  vIdem :: "'w IdemStore"
  vProducer :: "'w Producer"
  vMembers :: "'w GroupMemberSource option"
  vSync :: "'w SyncStore"
  vRdb :: "'w redis option"
  vNow :: "'w \<Rightarrow> int \<times> 'w"

section \<open>Implementations\<close>

definition redis_get :: "'w redis \<Rightarrow> string \<Rightarrow> ('w, string) call" where
  "redis_get R key w =
     (case rGet R key w of
        (Inl e, w1) \<Rightarrow> if e = RedisNil then (Inr [], w1) else (Inl e, w1)
      | (Inr val, w1) \<Rightarrow> (Inr val, w1))"

definition redisIdem :: "'w redis \<Rightarrow> 'w IdemStore" where
  "redisIdem R = \<lparr>iSetNX = rSetNX R, iGet = redis_get R, iSet = rSet R, iDel = rDel R\<rparr>"

definition redisCache :: "'w redis \<Rightarrow> 'w Cache" where
  "redisCache R = \<lparr>cGet = redis_get R, cSet = rSet R\<rparr>"

definition redisSeq :: "'w redis \<Rightarrow> 'w SeqGen" where
  "redisSeq R convID w =
     (case rIncr R (SeqKey convID) w of
        (Inl e, w1) \<Rightarrow> (Inl (errorf ''logic: incr seq'' e), w1)
      | (Inr n, w1) \<Rightarrow> (Inr n, w1))"

definition friendStatusActive :: int where "friendStatusActive = 1"

text \<open>\<open>SELECT friend_uid FROM friend WHERE uid = ? AND status = ?\<close>\<close>

definition select_friends :: "int \<Rightarrow> tables \<Rightarrow> int list" where
  "select_friends uid T =
     map frFriend (filter (\<lambda>r. frUid r = uid \<and> frStatus r = friendStatusActive) (tFriend T))"

definition IsFriend :: "'w redis \<Rightarrow> 'w mysql \<Rightarrow> 'w FriendChecker" where
  "IsFriend R M uid friendUID w =
     (let key = FriendKey uid; member = format_int friendUID in
      case rZRank R key member w of
        (Inr _, w1) \<Rightarrow> (Inr True, w1)
      | (Inl e, w1) \<Rightarrow>
          if e \<noteq> RedisNil then (Inl (errorf ''logic: zrank friend'' e), w1)
          else (case mQuery M w1 of
            (Inl e, w2) \<Rightarrow> (Inl (errorf ''logic: load friends'' e), w2)
          | (Inr T, w2) \<Rightarrow>
              (let fids = select_friends uid T; found = (friendUID \<in> set fids) in
               if fids \<noteq> [] then
                 (case rZAdd R key (map format_int fids) w2 of
                    (Inl _, w3) \<Rightarrow> (Inr found, w3)
                  | (Inr _, w3) \<Rightarrow> (Inr found, w3))
               else (Inr found, w2))))"

definition GroupMembers :: "'w redis \<Rightarrow> 'w mysql \<Rightarrow> 'w GroupMemberSource" where
  "GroupMembers R M = \<lparr>gsMembers = Members R M, gsIsMember = IsMember R M\<rparr>"

section \<open>Wiring\<close>

text \<open>\<^verbatim>\<open>cmd/logic/main.go\<close>: which implementation stands behind each interface.\<close>

definition NewServer ::
  "'w redis \<Rightarrow> 'w mysql \<Rightarrow> 'w entropy \<Rightarrow> 'w kwriter \<Rightarrow> 'w Verifier \<Rightarrow> 'w SyncStore \<Rightarrow> ('w \<Rightarrow> int \<times> 'w) \<Rightarrow> 'w Server" where
  "NewServer R M E P V Y now =
    \<lparr>vCache = redisCache R, vVerifier = V, vFriends = IsFriend R M, vSeq = redisSeq R, vIdem = redisIdem R,
     vProducer = Send E P, vMembers = Some (GroupMembers R M), vSync = Y, vRdb = Some R, vNow = now\<rparr>"

section \<open>The friend cache\<close>

text \<open>A cached friend is an active friend of the table.\<close>

definition friends_coherent :: "int \<Rightarrow> svc \<Rightarrow> bool" where
  "friends_coherent uid s \<longleftrightarrow>
     zset_at (sKeys s) (FriendKey uid) \<subseteq> format_int ` set (select_friends uid (sTabs s))"

lemma zset_member_iff: "format_int f \<in> format_int ` F \<longleftrightarrow> f \<in> F"
  by auto

context services
begin

lemma IsFriend_spec:
  assumes "IsFriend R M u f w = (res, w')" and "friends_coherent u (st w)"
  shows "friends_coherent u (st w') \<and> sTabs (st w') = sTabs (st w) \<and> sLog (st w') = sLog (st w) \<and>
    sLast (st w') = sLast (st w) \<and>
    (\<forall>k. k \<noteq> FriendKey u \<longrightarrow> sKeys (st w') k = sKeys (st w) k) \<and>
    (\<forall>b. res = Inr b \<longrightarrow> b = (f \<in> set (select_friends u (sTabs (st w)))))"
proof -
  let ?F = "select_friends u (sTabs (st w))"
  obtain r w1 where z: "rZRank R (FriendKey u) (format_int f) w = (r, w1)"
    by (cases "rZRank R (FriendKey u) (format_int f) w")
  note Z = ZRank [OF z]
  show ?thesis
  proof (cases "r = Inl RedisNil")
    case False
    then have "w' = w1" "\<forall>b. res = Inr b \<longrightarrow> b \<and> (\<exists>n. r = Inr n)"
      using assms(1) z by (auto simp: IsFriend_def split: sum.splits if_splits)
    moreover have "f \<in> set ?F" if "\<exists>n. r = Inr n"
      using that Z assms(2) zset_member_iff unfolding friends_coherent_def by blast
    ultimately show ?thesis using Z assms(2) by auto
  next
    case True
    obtain q w2 where q: "mQuery M w1 = (q, w2)" by (cases "mQuery M w1")
    note Q = Query [OF q]
    show ?thesis
    proof (cases "(\<exists>e. q = Inl e) \<or> ?F = []")
      case True
      with assms z q Z Q \<open>r = Inl RedisNil\<close> show ?thesis
        by (cases q) (auto simp: IsFriend_def Let_def)
    next
      case False
      then obtain T where T: "q = Inr T" "T = sTabs (st w)" "st w2 = st w" "?F \<noteq> []"
        using Q Z by (cases q) auto
      obtain r3 w3 where a: "rZAdd R (FriendKey u) (map format_int ?F) w2 = (r3, w3)"
        by (cases "rZAdd R (FriendKey u) (map format_int ?F) w2")
      have res: "w' = w3" "res = Inr (f \<in> set ?F)"
        using assms(1) z q a T \<open>r = Inl RedisNil\<close>
        by (auto simp: IsFriend_def Let_def split: sum.splits)
      from ZAdd [OF a] T have upd: "st w3 = st w \<or> sTabs (st w3) = sTabs (st w) \<and> sLog (st w3) = sLog (st w) \<and>
          sLast (st w3) = sLast (st w) \<and> (\<forall>k. k \<noteq> FriendKey u \<longrightarrow> sKeys (st w3) k = sKeys (st w) k) \<and>
          zset_at (sKeys (st w3)) (FriendKey u) = zset_at (sKeys (st w)) (FriendKey u) \<union> format_int ` set ?F"
        unfolding wrote_key_def by auto
      then have "friends_coherent u (st w3)"
        using assms(2) by (auto simp: friends_coherent_def)
      with upd res show ?thesis by (elim disjE) simp_all
    qed
  qed
qed

end

section \<open>The contract of \<open>sendMsg\<close>\<close>

definition stable ::
  "('w \<Rightarrow> bool) \<Rightarrow> ('w \<Rightarrow> int) \<Rightarrow> ('w \<Rightarrow> int \<Rightarrow> int set) \<Rightarrow> ('w \<Rightarrow> int \<Rightarrow> int set) \<Rightarrow> 'w \<Rightarrow> 'w \<Rightarrow> bool" where
  "stable good at_least friend grp w w' \<longleftrightarrow>
     good w' \<and> at_least w \<le> at_least w' \<and> friend w' = friend w \<and> grp w' = grp w"

locale send_deps = ms_clock "vNow S" at_least good
  for S :: "'w Server" and at_least :: "'w \<Rightarrow> int" and good :: "'w \<Rightarrow> bool" +
  fixes Mem :: "'w GroupMemberSource"
    and idem :: "'w \<Rightarrow> int \<Rightarrow> string \<Rightarrow> string option"
    and seqno :: "'w \<Rightarrow> string \<Rightarrow> int"
    and log :: "'w \<Rightarrow> kmsg list"
    and friend :: "'w \<Rightarrow> int \<Rightarrow> int set"
    and grp :: "'w \<Rightarrow> int \<Rightarrow> int set"
  assumes members: "vMembers S = Some Mem"
    and idem_SetNX: "\<And>u m v t w res w'. good w \<Longrightarrow> iSetNX (vIdem S) (IdemKey u m) v t w = (res, w') \<Longrightarrow>
      stable good at_least friend grp w w' \<and> seqno w' = seqno w \<and> log w' = log w \<and>
      (if idem w u m = None then idem w' = (idem w)(u := (idem w u)(m := Some v)) \<or> isl res \<and> idem w' = idem w
       else idem w' = idem w) \<and>
      (\<forall>b. res = Inr b \<longrightarrow> b = (idem w u m = None))"
    and idem_Get: "\<And>u m w res w'. good w \<Longrightarrow> iGet (vIdem S) (IdemKey u m) w = (res, w') \<Longrightarrow>
      stable good at_least friend grp w w' \<and> seqno w' = seqno w \<and> log w' = log w \<and> idem w' = idem w \<and>
      (\<forall>v. res = Inr v \<longrightarrow> v = (case idem w u m of None \<Rightarrow> [] | Some x \<Rightarrow> x))"
    and idem_Set: "\<And>u m v t w res w'. good w \<Longrightarrow> iSet (vIdem S) (IdemKey u m) v t w = (res, w') \<Longrightarrow>
      stable good at_least friend grp w w' \<and> seqno w' = seqno w \<and> log w' = log w \<and>
      (idem w' = (idem w)(u := (idem w u)(m := Some v)) \<or> isl res \<and> idem w' = idem w)"
    and idem_Del: "\<And>u m w res w'. good w \<Longrightarrow> iDel (vIdem S) (IdemKey u m) w = (res, w') \<Longrightarrow>
      stable good at_least friend grp w w' \<and> seqno w' = seqno w \<and> log w' = log w \<and>
      (idem w' = (idem w)(u := (idem w u)(m := None)) \<or> isl res \<and> idem w' = idem w)"
    and seq_Next: "\<And>c w res w'. good w \<Longrightarrow> vSeq S c w = (res, w') \<Longrightarrow>
      stable good at_least friend grp w w' \<and> idem w' = idem w \<and> log w' = log w \<and>
      (seqno w' = (seqno w)(c := seqno w c + 1) \<or> isl res \<and> seqno w' = seqno w) \<and>
      (\<forall>n. res = Inr n \<longrightarrow> n = seqno w c + 1 \<and> int64 n)"
    and is_friend: "\<And>u f w res w'. good w \<Longrightarrow> vFriends S u f w = (res, w') \<Longrightarrow>
      stable good at_least friend grp w w' \<and> idem w' = idem w \<and> seqno w' = seqno w \<and> log w' = log w \<and>
      (\<forall>b. res = Inr b \<longrightarrow> b = (f \<in> friend w u))"
    and group_members: "\<And>g w res w'. good w \<Longrightarrow> gsMembers Mem g w = (res, w') \<Longrightarrow>
      stable good at_least friend grp w w' \<and> idem w' = idem w \<and> seqno w' = seqno w \<and> log w' = log w \<and>
      (\<forall>us. res = Inr us \<longrightarrow> set us = grp w g)"
    and produce: "\<And>topic key val hs t w res w'. good w \<Longrightarrow> t \<noteq> [] \<Longrightarrow>
      vProducer S topic key val [(TraceIDHeader, t) # hs] w = (res, w') \<Longrightarrow> filter is_trace hs = [] \<Longrightarrow>
      stable good at_least friend grp w w' \<and> idem w' = idem w \<and> seqno w' = seqno w \<and>
      (log w' = log w @ [\<lparr>kmTopic = topic, kmKey = key, kmValue = val, kmHeaders = (TraceIDHeader, t) # hs\<rparr>] \<or>
       isl res \<and> log w' = log w)"
    and clock_frame: "\<And>w t w'. good w \<Longrightarrow> vNow S w = (t, w') \<Longrightarrow>
      stable good at_least friend grp w w' \<and> idem w' = idem w \<and> seqno w' = seqno w \<and> log w' = log w"

section \<open>The wired server satisfies it\<close>

definition idem_view :: "svc \<Rightarrow> int \<Rightarrow> string \<Rightarrow> string option" where
  "idem_view s u m = (case sKeys s (IdemKey u m) of Some (VStr v) \<Rightarrow> Some v | _ \<Rightarrow> None)"

definition seq_view :: "svc \<Rightarrow> string \<Rightarrow> int" where
  "seq_view s c =
     (case sKeys s (SeqKey c) of
        Some (VStr x) \<Rightarrow> (case parse_int x of Inr i \<Rightarrow> i | Inl _ \<Rightarrow> 0)
      | _ \<Rightarrow> 0)"

definition friend_view :: "svc \<Rightarrow> int \<Rightarrow> int set" where
  "friend_view s u = set (select_friends u (sTabs s))"

definition group_view :: "svc \<Rightarrow> int \<Rightarrow> int set" where
  "group_view s g = set (select_members g (sTabs s))"

definition idem_strings :: "svc \<Rightarrow> bool" where
  "idem_strings s \<longleftrightarrow> (\<forall>u m. sKeys s (IdemKey u m) = None \<or> (\<exists>v. sKeys s (IdemKey u m) = Some (VStr v)))"

definition logic_ok :: "svc \<Rightarrow> bool" where
  "logic_ok s \<longleftrightarrow> (\<forall>u. friends_coherent u s) \<and> (\<forall>g. members_coherent g s) \<and> members_wf (sTabs s) \<and> idem_strings s"

lemma logic_ok_frame:
  assumes "logic_ok s" and "sTabs s' = sTabs s"
    and "\<And>u. sKeys s' (FriendKey u) = sKeys s (FriendKey u)"
    and "\<And>g. sKeys s' (ConvMembersKey g) = sKeys s (ConvMembersKey g)" and "idem_strings s'"
  shows "logic_ok s'"
  using assms by (simp add: logic_ok_def friends_coherent_def members_coherent_def zset_at_def)

lemma view_frame:
  "sTabs s' = sTabs s \<Longrightarrow> friend_view s' = friend_view s"
  "sTabs s' = sTabs s \<Longrightarrow> group_view s' = group_view s"
  "(\<And>u m. sKeys s' (IdemKey u m) = sKeys s (IdemKey u m)) \<Longrightarrow> idem_view s' = idem_view s"
  "(\<And>u m. sKeys s' (IdemKey u m) = sKeys s (IdemKey u m)) \<Longrightarrow> idem_strings s' = idem_strings s"
  "(\<And>c. sKeys s' (SeqKey c) = sKeys s (SeqKey c)) \<Longrightarrow> seq_view s' = seq_view s"
  by (simp_all add: friend_view_def group_view_def idem_view_def idem_strings_def seq_view_def fun_eq_iff)

lemma logic_frame [frame_simps, simp]:
  "logic_ok (s\<lparr>sLog := l\<rparr>) = logic_ok s" "logic_ok (s\<lparr>sLast := t\<rparr>) = logic_ok s"
  "idem_view (s\<lparr>sLog := l\<rparr>) = idem_view s" "idem_view (s\<lparr>sLast := t\<rparr>) = idem_view s"
  "seq_view (s\<lparr>sLog := l\<rparr>) = seq_view s" "seq_view (s\<lparr>sLast := t\<rparr>) = seq_view s"
  "friend_view (s\<lparr>sLog := l\<rparr>) = friend_view s" "friend_view (s\<lparr>sLast := t\<rparr>) = friend_view s"
  "group_view (s\<lparr>sLog := l\<rparr>) = group_view s" "group_view (s\<lparr>sLast := t\<rparr>) = group_view s"
  by (simp_all add: logic_ok_def friends_coherent_def members_coherent_def idem_strings_def
      idem_view_def seq_view_def friend_view_def group_view_def fun_eq_iff)

lemma idem_view_None: "logic_ok s \<Longrightarrow> idem_view s u m = None \<longleftrightarrow> sKeys s (IdemKey u m) = None"
  unfolding logic_ok_def idem_strings_def idem_view_def
  by (elim conjE allE [of _ u] allE [of _ m] disjE exE) auto

locale logic_wiring = timed_services R M P now st
  for R :: "'w redis" and M :: "'w mysql" and P :: "'w kwriter" and now :: "'w \<Rightarrow> int \<times> 'w" and st :: "'w \<Rightarrow> svc" +
  fixes E :: "'w entropy" and V :: "'w Verifier" and Y :: "'w SyncStore"
begin

abbreviation "stab \<equiv> stable (\<lambda>w. logic_ok (st w)) (\<lambda>w. sLast (st w)) (\<lambda>w. friend_view (st w)) (\<lambda>w. group_view (st w))"

text \<open>A write to an idempotency key moves one entry of the view.\<close>

lemma idem_write:
  assumes "logic_ok (st w)" and "wrote_key st w res w' (IdemKey u m) (\<lambda>K. K (IdemKey u m) = map_option VStr v)"
  shows "stab w w' \<and> seq_view (st w') = seq_view (st w) \<and> sLog (st w') = sLog (st w) \<and>
    (idem_view (st w') = (idem_view (st w))(u := (idem_view (st w) u)(m := v)) \<or>
     isl res \<and> idem_view (st w') = idem_view (st w))"
proof (cases "st w' = st w \<and> isl res")
  case True
  with assms(1) show ?thesis by (simp add: stable_def)
next
  case False
  with assms(2) have w': "sTabs (st w') = sTabs (st w)" "sLog (st w') = sLog (st w)" "sLast (st w') = sLast (st w)"
    "sKeys (st w') (IdemKey u m) = map_option VStr v"
    and other: "\<And>k. k \<noteq> IdemKey u m \<Longrightarrow> sKeys (st w') k = sKeys (st w) k"
    unfolding wrote_key_def by auto
  have fam: "\<And>k. family_of k \<noteq> Some KIdem \<Longrightarrow> sKeys (st w') k = sKeys (st w) k"
    by (rule other) auto
  have "idem_strings (st w')"
    using assms(1) w'(4) other unfolding logic_ok_def idem_strings_def
    by (metis map_option_is_None option.map_disc_iff option.map_sel option.collapse option.simps(9))
  with logic_ok_frame [OF assms(1) w'(1)] fam have "logic_ok (st w')" by simp
  moreover have "idem_view (st w') = (idem_view (st w))(u := (idem_view (st w) u)(m := v))"
  proof (intro ext)
    fix u' m'
    show "idem_view (st w') u' m' = ((idem_view (st w))(u := (idem_view (st w) u)(m := v))) u' m'"
    proof (cases "u' = u \<and> m' = m")
      case True
      then show ?thesis by (simp add: idem_view_def w'(4) split: option.split)
    next
      case False
      then have "sKeys (st w') (IdemKey u' m') = sKeys (st w) (IdemKey u' m')" by (intro other) auto
      then have "idem_view (st w') u' m' = idem_view (st w) u' m'" by (simp add: idem_view_def)
      with False show ?thesis by auto
    qed
  qed
  moreover have "seq_view (st w') = seq_view (st w)" by (intro view_frame fam) simp
  ultimately show ?thesis using w' by (simp add: stable_def view_frame(1,2) [OF w'(1)])
qed

text \<open>A write to any other key the server uses leaves the views it does not own.\<close>

lemma other_write:
  assumes "logic_ok (st w)" and "sTabs (st w') = sTabs (st w)" "sLog (st w') = sLog (st w)" "sLast (st w') = sLast (st w)"
    and "\<And>u m. sKeys (st w') (IdemKey u m) = sKeys (st w) (IdemKey u m)"
    and "\<And>u. friends_coherent u (st w')" and "\<And>g. members_coherent g (st w')"
  shows "stab w w' \<and> idem_view (st w') = idem_view (st w) \<and> sLog (st w') = sLog (st w)"
proof -
  have "idem_strings (st w') = idem_strings (st w)" "idem_view (st w') = idem_view (st w)"
    by (intro view_frame assms(5))+
  with assms show ?thesis by (simp add: stable_def view_frame(1,2) [OF assms(2)] logic_ok_def)
qed

lemma seq_write:
  assumes "logic_ok (st w)" and "redisSeq R c w = (res, w')"
  shows "stab w w' \<and> idem_view (st w') = idem_view (st w) \<and> sLog (st w') = sLog (st w) \<and>
    (seq_view (st w') = (seq_view (st w))(c := seq_view (st w) c + 1) \<or>
      isl res \<and> seq_view (st w') = seq_view (st w)) \<and>
    (\<forall>n. res = Inr n \<longrightarrow> n = seq_view (st w) c + 1 \<and> int64 n)"
proof -
  obtain r w1 where i: "rIncr R (SeqKey c) w = (r, w1)" by (cases "rIncr R (SeqKey c) w")
  with assms(2) have r: "w' = w1" "isl res = isl r" "\<forall>n. res = Inr n \<longrightarrow> r = Inr n"
    by (auto simp: redisSeq_def split: sum.splits)
  show ?thesis
  proof (cases "isl r \<and> st w1 = st w")
    case True
    with r assms(1) show ?thesis by (auto simp: stable_def)
  next
    case False
    with Incr [OF i] obtain j where
      j: "sKeys (st w) (SeqKey c) = None \<and> j = 0 \<or> sKeys (st w) (SeqKey c) = Some (VStr (format_int j))"
      "wrote_key st w r w1 (SeqKey c) (\<lambda>K. K (SeqKey c) = Some (VStr (format_int (j + 1))))"
      "\<forall>n. r = Inr n \<longrightarrow> n = j + 1" "int64 j" "int64 (j + 1)"
      by blast
    from j(2) False have w1: "sTabs (st w1) = sTabs (st w)" "sLog (st w1) = sLog (st w)" "sLast (st w1) = sLast (st w)"
      "sKeys (st w1) (SeqKey c) = Some (VStr (format_int (j + 1)))"
      and other: "\<And>k. k \<noteq> SeqKey c \<Longrightarrow> sKeys (st w1) k = sKeys (st w) k"
      unfolding wrote_key_def by auto
    have fam: "\<And>k. family_of k \<noteq> Some KSeq \<Longrightarrow> sKeys (st w1) k = sKeys (st w) k"
      by (rule other) auto
    from j(1,4) have old: "seq_view (st w) c = j" by (auto simp: seq_view_def parse_int_format)
    have new: "seq_view (st w1) = (seq_view (st w))(c := j + 1)"
    proof
      fix c'
      show "seq_view (st w1) c' = ((seq_view (st w))(c := j + 1)) c'"
        using other [of "SeqKey c'"] w1(4) j(5)
        by (cases "c' = c") (simp_all add: seq_view_def parse_int_format)
    qed
    have "stab w w1 \<and> idem_view (st w1) = idem_view (st w) \<and> sLog (st w1) = sLog (st w)"
      using assms(1) w1(1)
      by (intro other_write w1 fam)
        (simp_all add: logic_ok_def friends_coherent_def members_coherent_def zset_at_def fam)
    with r new old j(3,5) show ?thesis by auto
  qed
qed

lemma send_write:
  assumes "logic_ok (st w)" and "Send E P topic key val [(TraceIDHeader, t) # hs] w = (res, w')"
    and "t \<noteq> []" and "filter is_trace hs = []"
  shows "stab w w' \<and> idem_view (st w') = idem_view (st w) \<and> seq_view (st w') = seq_view (st w) \<and>
    (sLog (st w') = sLog (st w) @ [\<lparr>kmTopic = topic, kmKey = key, kmValue = val, kmHeaders = (TraceIDHeader, t) # hs\<rparr>] \<or>
     isl res \<and> sLog (st w') = sLog (st w))"
proof -
  let ?m = "\<lparr>kmTopic = topic, kmKey = key, kmValue = val, kmHeaders = (TraceIDHeader, t) # hs\<rparr>"
  have "buildHeaders E [(TraceIDHeader, t) # hs] w = ((TraceIDHeader, t) # hs, w)"
    using assms(3,4) by (simp add: buildHeaders_eq)
  with assms(2) obtain r where p: "P ?m w = (r, w')" "isl res = isl r"
    by (auto simp: Send_def split: sum.splits prod.splits)
  from Write [OF p(1)] have "st w' = (st w)\<lparr>sLog := sLog (st w) @ [?m]\<rparr> \<or> isl res \<and> st w' = st w"
    by (simp add: wrote_def p(2))
  then show ?thesis using assms(1)
    by (auto simp: stable_def)
qed

lemma friend_read:
  assumes "logic_ok (st w)" and "IsFriend R M u f w = (res, w')"
  shows "stab w w' \<and> idem_view (st w') = idem_view (st w) \<and> seq_view (st w') = seq_view (st w) \<and>
    sLog (st w') = sLog (st w) \<and> (\<forall>b. res = Inr b \<longrightarrow> b = (f \<in> friend_view (st w) u))"
proof -
  from assms(1) have "friends_coherent u (st w)" by (simp add: logic_ok_def)
  note spec = IsFriend_spec [OF assms(2) this]
  then have fam: "\<And>k. k \<noteq> FriendKey u \<Longrightarrow> sKeys (st w') k = sKeys (st w) k" by blast
  have fr: "friends_coherent v (st w')" for v
  proof (cases "v = u")
    case False
    then have "sKeys (st w') (FriendKey v) = sKeys (st w) (FriendKey v)" by (intro fam) simp
    with assms(1) spec show ?thesis by (simp add: logic_ok_def friends_coherent_def zset_at_def)
  qed (use spec in simp)
  have "stab w w' \<and> idem_view (st w') = idem_view (st w) \<and> sLog (st w') = sLog (st w)"
  proof (rule other_write)
    show "members_coherent g (st w')" for g
      using assms(1) spec fam [of "ConvMembersKey g"] keys_differ [of "ConvMembersKey g" "FriendKey u"]
      by (simp add: logic_ok_def members_coherent_def)
    show "sKeys (st w') (IdemKey u' m) = sKeys (st w) (IdemKey u' m)" for u' m
      by (rule fam, rule keys_differ) simp
  qed (use spec assms fr in auto)
  moreover have "seq_view (st w') = seq_view (st w)" by (intro view_frame fam keys_differ) simp
  ultimately show ?thesis using spec by (simp add: friend_view_def)
qed

lemma members_read:
  assumes "logic_ok (st w)" and "Members R M g w = (res, w')"
  shows "stab w w' \<and> idem_view (st w') = idem_view (st w) \<and> seq_view (st w') = seq_view (st w) \<and>
    sLog (st w') = sLog (st w) \<and> (\<forall>us. res = Inr us \<longrightarrow> set us = group_view (st w) g)"
proof -
  from assms(1) have "members_coherent g (st w)" "members_wf (sTabs (st w))" by (simp_all add: logic_ok_def)
  note spec = Members_spec [OF assms(2) this]
  then have fam: "\<And>k. k \<noteq> ConvMembersKey g \<Longrightarrow> sKeys (st w') k = sKeys (st w) k" by blast
  have mc: "members_coherent h (st w')" for h
  proof (cases "h = g")
    case False
    then have "sKeys (st w') (ConvMembersKey h) = sKeys (st w) (ConvMembersKey h)" by (intro fam) simp
    with assms(1) spec show ?thesis by (simp add: logic_ok_def members_coherent_def)
  qed (use spec in simp)
  have "stab w w' \<and> idem_view (st w') = idem_view (st w) \<and> sLog (st w') = sLog (st w)"
  proof (rule other_write)
    show "friends_coherent u (st w')" for u
      using assms(1) spec fam [of "FriendKey u"] keys_differ [of "FriendKey u" "ConvMembersKey g"]
      by (simp add: logic_ok_def friends_coherent_def zset_at_def)
    show "sKeys (st w') (IdemKey u' m) = sKeys (st w) (IdemKey u' m)" for u' m
      by (rule fam, rule keys_differ) simp
  qed (use spec assms mc in auto)
  moreover have "seq_view (st w') = seq_view (st w)" by (intro view_frame fam keys_differ) simp
  ultimately show ?thesis using spec by (simp add: group_view_def)
qed

end

sublocale logic_wiring \<subseteq> send_deps "NewServer R M E P V Y now" "\<lambda>w. sLast (st w)" "\<lambda>w. logic_ok (st w)"
  "GroupMembers R M" "\<lambda>w. idem_view (st w)" "\<lambda>w. seq_view (st w)" "\<lambda>w. sLog (st w)"
  "\<lambda>w. friend_view (st w)" "\<lambda>w. group_view (st w)"
proof (unfold_locales, goal_cases)
  case (1 w t w')
  then show ?case using forward [of w] Now [of w]
    by (auto simp: NewServer_def)
next
  case (2 w b)
  then show ?case using reaches by (simp add: NewServer_def)
next
  case 3
  then show ?case by (simp add: NewServer_def)
next
  case (4 u m v t w res w')
  from 4(2) have nx: "rSetNX R (IdemKey u m) v t w = (res, w')" by (simp add: NewServer_def redisIdem_def)
  from SetNX [OF nx] idem_write [OF 4(1), of res w' u m "Some v"] 4(1) show ?case
    by (auto simp: idem_view_None stable_def split: if_splits)
next
  case (5 u m w res w')
  obtain r w1 where g: "rGet R (IdemKey u m) w = (r, w1)" by (cases "rGet R (IdemKey u m) w")
  from 5(2) g Get [OF g] have "st w' = st w"
    "\<forall>v. res = Inr v \<longrightarrow> sKeys (st w) (IdemKey u m) = Some (VStr v) \<or> sKeys (st w) (IdemKey u m) = None \<and> v = []"
    by (auto simp: NewServer_def redisIdem_def redis_get_def split: sum.splits if_splits)
  with 5(1) show ?case by (auto simp: stable_def idem_view_def)
next
  case (6 u m v t w res w')
  then have "rSet R (IdemKey u m) v t w = (res, w')" by (simp add: NewServer_def redisIdem_def)
  from idem_write [OF 6(1), of res w' u m "Some v"] Set [OF this] show ?case by simp
next
  case (7 u m w res w')
  then have "rDel R (IdemKey u m) w = (res, w')" by (simp add: NewServer_def redisIdem_def)
  from idem_write [OF 7(1), of res w' u m None] Del [OF this] show ?case by simp
next
  case (8 c w res w')
  then show ?case using seq_write [OF 8(1)] by (simp add: NewServer_def)
next
  case (9 u f w res w')
  then show ?case using friend_read [OF 9(1)] by (simp add: NewServer_def)
next
  case (10 g w res w')
  then show ?case using members_read [OF 10(1)] by (simp add: GroupMembers_def)
next
  case (11 topic key val hs t w res w')
  then show ?case using send_write [OF 11(1)] by (simp add: NewServer_def)
next
  case (12 w t w')
  then show ?case using forward [of w] Now [of w]
    by (auto simp: NewServer_def stable_def)
qed

context logic_wiring
begin

lemmas wired = send_deps_axioms

end

lemma send_deps_wired:
  "timed_services R M P now st \<Longrightarrow>
   send_deps (NewServer R M E P V Y now) (\<lambda>w. sLast (st w)) (\<lambda>w. logic_ok (st w)) (GroupMembers R M)
     (\<lambda>w. idem_view (st w)) (\<lambda>w. seq_view (st w)) (\<lambda>w. sLog (st w))
     (\<lambda>w. friend_view (st w)) (\<lambda>w. group_view (st w))"
  by (rule logic_wiring.wired) (simp add: logic_wiring_def)

interpretation meml: logic_wiring mem_redis mem_mysql mem_kafka mem_now mem_st E V Y for E V Y
  by unfold_locales

section \<open>A world to run in\<close>

text \<open>Users 1 and 2 are friends, group 7 has both as members, user 1 is alone in group 8.\<close>

definition demo_tables :: tables where
  "demo_tables =
    \<lparr>tUser = [], tFriend = [\<lparr>frUid = 1, frFriend = 2, frStatus = 1\<rparr>, \<lparr>frUid = 2, frFriend = 1, frStatus = 1\<rparr>],
     tGroup = [], tMember = [\<lparr>gmGroup = 7, gmUid = 1, gmRole = 2\<rparr>, \<lparr>gmGroup = 7, gmUid = 2, gmRole = 0\<rparr>,
       \<lparr>gmGroup = 8, gmUid = 1, gmRole = 2\<rparr>],
     tConv = [], tMsg = \<lambda>_. []\<rparr>"

definition demo_world :: "nat list \<Rightarrow> mem" where
  "demo_world faults = \<lparr>mmKeys = [], mmTabs = demo_tables, mmLog = [], mmClock = 1704067200000, mmFaults = faults\<rparr>"

definition demo_node :: Node where
  "demo_node = \<lparr>nNode = 1, nLastMs = 0, nSequence = 0\<rparr>"

definition demo_entropy :: "mem entropy" where
  "demo_entropy = \<lparr>eRead = \<lambda>m. (Inr (replicate 16 0), m), eUnixNano = mem_now\<rparr>"

definition demo_sync :: "mem SyncStore" where
  "demo_sync = \<lparr>ssPullMessages = \<lambda>u c a l m. (Inr ([], 0), m), ssPendingConvs = \<lambda>u m. (Inr [], m),
     ssMarkRead = \<lambda>u c q m. (Inr (), m)\<rparr>"

lemma demo_ok: "logic_ok (mem_st (demo_world fs))"
  by (simp add: logic_ok_def demo_world_def mem_st_def friends_coherent_def members_coherent_def members_wf_def
      idem_strings_def zset_at_def demo_tables_def int64_iff)

end
