(* ===== verification/SendMsg.thy ===== *)
theory SendMsg
  imports LogicDeps Frame
begin

text \<open>
  The upstream pipeline of the logic server, \<^verbatim>\<open>internal/logic/sendmsg.go\<close>: check the request,
  normalise the conversation, take the idempotency key, check the relation, draw a sequence number
  and an identifier, write one \<open>msg.store\<close> record and one \<open>msg.push\<close> record per receiver, and
  leave the acknowledgement under the key for replays.

  Logging and metrics are left out, except that the last log line indexes the receivers and panics
  when there is none. The protobuf and JSON codecs are parameters (\<open>codec\<close>).
\<close>

section \<open>Constants and codecs\<close>

definition CodeBadParam :: int where "CodeBadParam = 40201"
definition CodeNotFriend :: int where "CodeNotFriend = 40301"
definition CodeKafkaErr :: int where "CodeKafkaErr = 50201"
definition CodeRedisErr :: int where "CodeRedisErr = 50202"
definition CodeInFlight :: int where "CodeInFlight = 50203"
definition idemTTL :: int where "idemTTL = 10 * 60 * 1000"
definition msgMaxPayload :: nat where "msgMaxPayload = MaxBodyLen"
definition convTypeP2P :: int where "convTypeP2P = 1"
definition convTypeGroup :: int where "convTypeGroup = 2"
definition TopicMsgPush :: string where "TopicMsgPush = ''msg.push''"
definition TopicMsgStore :: string where "TopicMsgStore = ''msg.store''"

lemmas send_codes = CodeBadParam_def CodeNotFriend_def CodeKafkaErr_def CodeRedisErr_def CodeInFlight_def

record idemValue =
  ivMsgID :: string
  ivSeq :: int

record codec =
  cdMsg :: "PbMsg \<Rightarrow> bytes result"
  cdEnv :: "Envelope \<Rightarrow> bytes result"
  cdIdem :: "idemValue \<Rightarrow> string"
  cdUnIdem :: "string \<Rightarrow> idemValue result"

definition ack_code :: "int \<Rightarrow> SendMsgAck" where
  "ack_code c = \<lparr>saCode = c, saMsgId = [], saSeq = 0, saTimestamp = 0\<rparr>"

section \<open>Steps\<close>

definition replayOrBusy :: "'w Server \<Rightarrow> codec \<Rightarrow> string \<Rightarrow> 'w \<Rightarrow> SendMsgAck \<times> 'w" where
  "replayOrBusy S C idemKey w =
     (case iGet (vIdem S) idemKey w of
        (Inl e, w1) \<Rightarrow> (ack_code CodeRedisErr, w1)
      | (Inr val, w1) \<Rightarrow>
          if val = [] then (ack_code CodeInFlight, w1)
          else (case cdUnIdem C val of
            Inl e \<Rightarrow> (ack_code CodeRedisErr, w1)
          | Inr iv \<Rightarrow> (case vNow S w1 of (ts, w2) \<Rightarrow>
              (\<lparr>saCode = 0, saMsgId = ivMsgID iv, saSeq = ivSeq iv, saTimestamp = ts\<rparr>, w2))))"

text \<open>
  Steps 1 and 2: the parameter checks and the conversation the server computes itself; the second
  component is the receiver of a direct message or the group.
\<close>

definition normalise :: "SendMsgReq \<Rightarrow> (string \<times> int) option" where
  "normalise req =
     (if srSenderId req \<le> 0 \<or> srClientMsgId req = [] \<or> srMsgType req \<le> 0 then None
      else if length (srPayload req) = 0 \<or> length (srPayload req) > msgMaxPayload then None
      else if srConvType req = convTypeP2P then
        (case ParseP2PConv (srConvId req) of
           Inl e \<Rightarrow> None
         | Inr (a, b) \<Rightarrow>
             (let sender = srSenderId req; peer = (if sender = a then b else a) in
              if sender \<noteq> a \<and> sender \<noteq> b then None
              else if ConvIDForP2P sender peer \<noteq> srConvId req then None
              else Some (ConvIDForP2P sender peer, peer)))
      else if srConvType req = convTypeGroup then
        (case ParseGroupConv (srConvId req) of
           Inl e \<Rightarrow> None
         | Inr gid \<Rightarrow> if ConvIDForGroup gid \<noteq> srConvId req then None else Some (ConvIDForGroup gid, gid))
      else None)"

definition rollback :: "'w Server \<Rightarrow> string \<Rightarrow> 'w \<Rightarrow> 'w" where
  "rollback S idemKey w = snd (iDel (vIdem S) idemKey w)"

text \<open>Step 4: the receivers, or the code of the refusal; a nil member source panics.\<close>

definition relation_check :: "'w Server \<Rightarrow> SendMsgReq \<Rightarrow> int \<Rightarrow> 'w \<Rightarrow> (int + int list) outcome \<times> 'w" where
  "relation_check S req target w =
     (if srConvType req = convTypeP2P then
        (case vFriends S (srSenderId req) target w of
           (Inl e, w1) \<Rightarrow> (Ret (Inl CodeRedisErr), w1)
         | (Inr isFriend, w1) \<Rightarrow>
             (if isFriend then Ret (Inr [target]) else Ret (Inl CodeNotFriend), w1))
      else (case vMembers S of
          None \<Rightarrow> (Panic, w)
        | Some ms \<Rightarrow>
            (case gsMembers ms target w of
               (Inl e, w1) \<Rightarrow> (Ret (Inl CodeRedisErr), w1)
             | (Inr members, w1) \<Rightarrow>
                 (if srSenderId req \<in> set members
                  then Ret (Inr (filter (\<lambda>m. m \<noteq> srSenderId req) members))
                  else Ret (Inl CodeNotFriend), w1))))"

definition push_key :: "int \<Rightarrow> string \<Rightarrow> int \<Rightarrow> string" where
  "push_key convType convID recv = (if convType = convTypeGroup then format_int recv else convID)"

fun fan_out ::
  "'w Server \<Rightarrow> codec \<Rightarrow> (string \<times> string) list \<Rightarrow> PbMsg \<Rightarrow> int list \<Rightarrow> 'w \<Rightarrow> bool \<times> 'w" where
  "fan_out S C headers msg [] w = (True, w)"
| "fan_out S C headers msg (recv # receivers) w =
     (case cdEnv C \<lparr>enRecvUid = recv, enMsg = Some msg\<rparr> of
        Inl e \<Rightarrow> (False, w)
      | Inr env \<Rightarrow>
          (case vProducer S TopicMsgPush (bytes_of (push_key (pmConvType msg) (pmConvId msg) recv)) env [headers] w of
             (Inl e, w1) \<Rightarrow> (False, w1)
           | (Inr _, w1) \<Rightarrow> fan_out S C headers msg receivers w1))"

definition send_headers :: "SendMsgReq \<Rightarrow> (string \<times> string) list" where
  "send_headers req = [(TraceIDHeader, srClientMsgId req), (''conv-type'', format_int (srConvType req))]"

definition build_msg :: "SendMsgReq \<Rightarrow> string \<Rightarrow> int \<Rightarrow> int \<Rightarrow> int \<Rightarrow> PbMsg" where
  "build_msg req convID msgID sq ts =
     \<lparr>pmMsgId = format_int msgID, pmConvId = convID, pmConvType = srConvType req, pmSenderId = srSenderId req,
      pmMsgType = srMsgType req, pmPayload = srPayload req, pmSeq = sq, pmTimestamp = ts, pmStatus = 0\<rparr>"

text \<open>Step 7: the store record, then the push records; false when a marshal or a write fails.\<close>

definition produce_all :: "'w Server \<Rightarrow> codec \<Rightarrow> SendMsgReq \<Rightarrow> PbMsg \<Rightarrow> int list \<Rightarrow> 'w \<Rightarrow> bool \<times> 'w" where
  "produce_all S C req msg receivers w =
     (case cdMsg C msg of
        Inl e \<Rightarrow> (False, w)
      | Inr storeValue \<Rightarrow>
          (case vProducer S TopicMsgStore (bytes_of (pmConvId msg)) storeValue [send_headers req] w of
             (Inl e, w1) \<Rightarrow> (False, w1)
           | (Inr _, w1) \<Rightarrow> fan_out S C (send_headers req) msg receivers w1))"

section \<open>The handler\<close>

definition sendMsg ::
  "'w Server \<Rightarrow> codec \<Rightarrow> SendMsgReq \<Rightarrow> Node \<Rightarrow> 'w \<Rightarrow> SendMsgAck outcome \<times> Node \<times> 'w" where
  "sendMsg S C req n w =
     (case normalise req of
        None \<Rightarrow> (Ret (ack_code CodeBadParam), n, w)
      | Some (convID, target) \<Rightarrow>
        (let idemKey = IdemKey (srSenderId req) (srClientMsgId req) in
         case iSetNX (vIdem S) idemKey [] idemTTL w of
           (Inl e, w1) \<Rightarrow> (Ret (ack_code CodeRedisErr), n, w1)
         | (Inr False, w1) \<Rightarrow> (case replayOrBusy S C idemKey w1 of (ack, w2) \<Rightarrow> (Ret ack, n, w2))
         | (Inr True, w1) \<Rightarrow>
           (case relation_check S req target w1 of
              (Panic, w2) \<Rightarrow> (Panic, n, w2)
            | (Hang, w2) \<Rightarrow> (Hang, n, w2)
            | (Ret (Inl code), w2) \<Rightarrow> (Ret (ack_code code), n, rollback S idemKey w2)
            | (Ret (Inr receivers), w2) \<Rightarrow>
              (case vSeq S convID w2 of
                 (Inl e, w3) \<Rightarrow> (Ret (ack_code CodeRedisErr), n, rollback S idemKey w3)
               | (Inr sq, w3) \<Rightarrow>
                 (case Next (vNow S) n w3 of
                    None \<Rightarrow> (Hang, n, w3)
                  | Some (msgID, n', w4) \<Rightarrow>
                    (case vNow S w4 of (ts, w5) \<Rightarrow>
                       let msg = build_msg req convID msgID sq ts in
                       case produce_all S C req msg receivers w5 of
                         (False, w6) \<Rightarrow> (Ret (ack_code CodeKafkaErr), n', rollback S idemKey w6)
                       | (True, w6) \<Rightarrow>
                         (case iSet (vIdem S) idemKey (cdIdem C \<lparr>ivMsgID = pmMsgId msg, ivSeq = sq\<rparr>) idemTTL w6 of
                            (_, w7) \<Rightarrow>
                              if receivers = [] then (Panic, n', w7)
                              else (Ret \<lparr>saCode = 0, saMsgId = pmMsgId msg, saSeq = sq, saTimestamp = ts\<rparr>, n', w7))))))))"

text \<open>Requests handled one after the other.\<close>

fun send_run ::
  "'w Server \<Rightarrow> codec \<Rightarrow> SendMsgReq list \<Rightarrow> Node \<Rightarrow> 'w \<Rightarrow> SendMsgAck outcome list \<times> Node \<times> 'w" where
  "send_run S C [] n w = ([], n, w)"
| "send_run S C (req # reqs) n w =
     (case sendMsg S C req n w of (out, n1, w1) \<Rightarrow>
        case send_run S C reqs n1 w1 of (outs, r) \<Rightarrow> (out # outs, r))"

section \<open>What is written\<close>

definition store_record :: "codec \<Rightarrow> SendMsgReq \<Rightarrow> PbMsg \<Rightarrow> kmsg" where
  "store_record C req msg =
     \<lparr>kmTopic = TopicMsgStore, kmKey = bytes_of (pmConvId msg),
      kmValue = (case cdMsg C msg of Inr v \<Rightarrow> v | Inl _ \<Rightarrow> []), kmHeaders = send_headers req\<rparr>"

definition push_record :: "codec \<Rightarrow> SendMsgReq \<Rightarrow> PbMsg \<Rightarrow> int \<Rightarrow> kmsg" where
  "push_record C req msg recv =
     \<lparr>kmTopic = TopicMsgPush, kmKey = bytes_of (push_key (pmConvType msg) (pmConvId msg) recv),
      kmValue = (case cdEnv C \<lparr>enRecvUid = recv, enMsg = Some msg\<rparr> of Inr v \<Rightarrow> v | Inl _ \<Rightarrow> []),
      kmHeaders = send_headers req\<rparr>"

definition send_batch :: "codec \<Rightarrow> SendMsgReq \<Rightarrow> PbMsg \<Rightarrow> int list \<Rightarrow> kmsg list" where
  "send_batch C req msg rs = store_record C req msg # map (push_record C req msg) rs"

lemma normaliseD:
  assumes "normalise req = Some (conv, target)"
  shows "0 < srSenderId req \<and> srClientMsgId req \<noteq> [] \<and> srConvId req = conv \<and>
    (srConvType req = convTypeP2P \<and> conv = ConvIDForP2P (srSenderId req) target \<and> target \<noteq> srSenderId req \<or>
     srConvType req = convTypeGroup \<and> conv = ConvIDForGroup target \<and> 0 < target)"
  using assms
  by (auto simp: normalise_def Let_def dest: ParseP2PConv_InrD ParseGroupConv_InrD
      split: if_splits sum.splits prod.splits)

text \<open>Who may send, and to whom the message goes.\<close>

definition authorised :: "(int \<Rightarrow> int set) \<Rightarrow> (int \<Rightarrow> int set) \<Rightarrow> SendMsgReq \<Rightarrow> int \<Rightarrow> int list \<Rightarrow> bool" where
  "authorised friends members req target rs \<longleftrightarrow>
     (if srConvType req = convTypeP2P then target \<in> friends (srSenderId req) \<and> rs = [target]
      else srSenderId req \<in> members target \<and> set rs = members target - {srSenderId req})"

definition idem_final :: "codec \<Rightarrow> PbMsg \<Rightarrow> string" where
  "idem_final C msg = cdIdem C \<lparr>ivMsgID = pmMsgId msg, ivSeq = pmSeq msg\<rparr>"

definition ack_of :: "PbMsg \<Rightarrow> SendMsgAck" where
  "ack_of msg = \<lparr>saCode = 0, saMsgId = pmMsgId msg, saSeq = pmSeq msg, saTimestamp = pmTimestamp msg\<rparr>"

text \<open>A message that was accepted: its request, itself and its receivers.\<close>

record sent =
  xReq :: SendMsgReq
  xMsg :: PbMsg
  xTo :: "int list"

definition sent_key :: "sent \<Rightarrow> int \<times> string" where
  "sent_key x = (srSenderId (xReq x), srClientMsgId (xReq x))"

definition sent_batch :: "codec \<Rightarrow> sent \<Rightarrow> kmsg list" where
  "sent_batch C x = send_batch C (xReq x) (xMsg x) (xTo x)"

definition sent_ok :: "(int \<Rightarrow> int set) \<Rightarrow> (int \<Rightarrow> int set) \<Rightarrow> sent \<Rightarrow> bool" where
  "sent_ok friends members x \<longleftrightarrow>
     pmConvId (xMsg x) = srConvId (xReq x) \<and> pmSenderId (xMsg x) = srSenderId (xReq x) \<and>
     pmPayload (xMsg x) = srPayload (xReq x) \<and>
     (\<exists>target. normalise (xReq x) = Some (srConvId (xReq x), target) \<and>
       authorised friends members (xReq x) target (xTo x))"

context send_deps
begin

abbreviation "stab \<equiv> stable good at_least friend grp"

abbreviation idem_set :: "int \<Rightarrow> string \<Rightarrow> string option \<Rightarrow> 'w \<Rightarrow> 'w \<Rightarrow> bool" where
  "idem_set u m v w w' \<equiv> idem w' = (idem w)(u := (idem w u)(m := v))"

lemma stab_trans: "stab w w1 \<Longrightarrow> stab w1 w2 \<Longrightarrow> stab w w2"
  by (auto simp: stable_def)

lemma stab_good: "stab w w' \<Longrightarrow> good w'"
  by (simp add: stable_def)

lemma stab_same: "stab w w' \<Longrightarrow> friend w' = friend w \<and> grp w' = grp w \<and> at_least w \<le> at_least w'"
  by (simp add: stable_def)

lemma stab_refl: "good w \<Longrightarrow> stab w w"
  by (simp add: stable_def)

lemma send_producer:
  assumes "good w" and "srClientMsgId req \<noteq> []" and "vProducer S topic key val [send_headers req] w = (res, w')"
  shows "stab w w' \<and> idem w' = idem w \<and> seqno w' = seqno w \<and>
      (log w' = log w @ [\<lparr>kmTopic = topic, kmKey = key, kmValue = val, kmHeaders = send_headers req\<rparr>] \<or>
       isl res \<and> log w' = log w)"
  using produce [OF assms(1,2) assms(3) [unfolded send_headers_def]]
  by (simp add: send_headers_def is_trace_def EqualFold_def TraceIDHeader_def lower_char_def)

lemma fan_out_log:
  assumes "good w" and "srClientMsgId req \<noteq> []" and "fan_out S C (send_headers req) msg rs w = (ok, w')"
  shows "stab w w' \<and> idem w' = idem w \<and> seqno w' = seqno w \<and>
    (\<exists>k \<le> length rs. log w' = log w @ take k (map (push_record C req msg) rs) \<and> (ok \<longrightarrow> k = length rs))"
  using assms(1,3)
proof (induction rs arbitrary: w)
  case Nil
  then show ?case by (simp add: stab_refl)
next
  case (Cons r rs)
  show ?case
  proof (cases "cdEnv C \<lparr>enRecvUid = r, enMsg = Some msg\<rparr>")
    case (Inl e)
    with Cons.prems show ?thesis by (auto simp: stab_refl)
  next
    case (Inr env)
    let ?key = "bytes_of (push_key (pmConvType msg) (pmConvId msg) r)"
    have rec: "\<lparr>kmTopic = TopicMsgPush, kmKey = ?key, kmValue = env, kmHeaders = send_headers req\<rparr> =
        push_record C req msg r" by (simp add: push_record_def Inr)
    obtain res w1 where p: "vProducer S TopicMsgPush ?key env [send_headers req] w = (res, w1)"
      by (cases "vProducer S TopicMsgPush ?key env [send_headers req] w")
    note eff = send_producer [OF Cons.prems(1) assms(2) p, unfolded rec]
    show ?thesis
    proof (cases res)
      case (Inl e)
      with Cons.prems p Inr have w': "w' = w1" "\<not> ok" by auto
      from eff have "log w1 = log w @ take 1 (map (push_record C req msg) (r # rs)) \<or>
          log w1 = log w @ take 0 (map (push_record C req msg) (r # rs))" by auto
      then have "\<exists>k \<le> length (r # rs). log w1 = log w @ take k (map (push_record C req msg) (r # rs))"
        by (metis One_nat_def Suc_leI length_greater_0_conv list.distinct(1) zero_le)
      with w' eff show ?thesis by auto
    next
      case (Inr u)
      with Cons.prems(2) p \<open>cdEnv _ _ = Inr env\<close> have "fan_out S C (send_headers req) msg rs w1 = (ok, w')" by simp
      from Cons.IH [OF _ this] eff stab_good obtain k where
        "stab w1 w'" "idem w' = idem w1" "seqno w' = seqno w1" "k \<le> length rs" "ok \<longrightarrow> k = length rs"
        "log w' = log w1 @ take k (map (push_record C req msg) rs)" by blast
      with eff Inr show ?thesis by (intro conjI exI [of _ "Suc k"]) (auto intro: stab_trans)
    qed
  qed
qed

lemma produce_all_log:
  assumes "good w" and "srClientMsgId req \<noteq> []" and "produce_all S C req msg rs w = (ok, w')"
  shows "stab w w' \<and> idem w' = idem w \<and> seqno w' = seqno w \<and>
    (\<exists>k. log w' = log w @ take k (send_batch C req msg rs) \<and> (ok \<longrightarrow> log w' = log w @ send_batch C req msg rs))"
proof (cases "cdMsg C msg")
  case (Inl e)
  with assms show ?thesis by (auto simp: produce_all_def stab_refl intro: exI [of _ 0])
next
  case (Inr val)
  have rec: "\<lparr>kmTopic = TopicMsgStore, kmKey = bytes_of (pmConvId msg), kmValue = val, kmHeaders = send_headers req\<rparr> =
      store_record C req msg" by (simp add: store_record_def Inr)
  obtain res w1 where p: "vProducer S TopicMsgStore (bytes_of (pmConvId msg)) val [send_headers req] w = (res, w1)"
    by (cases "vProducer S TopicMsgStore (bytes_of (pmConvId msg)) val [send_headers req] w")
  note eff = send_producer [OF assms(1,2) p, unfolded rec]
  show ?thesis
  proof (cases res)
    case (Inl e)
    with assms p Inr have w': "w' = w1" "\<not> ok" by (auto simp: produce_all_def)
    from eff have "log w1 = log w @ take 1 (send_batch C req msg rs) \<or> log w1 = log w @ take 0 (send_batch C req msg rs)"
      by (auto simp: send_batch_def)
    with w' eff show ?thesis by blast
  next
    case (Inr u)
    with assms(3) p \<open>cdMsg C msg = Inr val\<close> have "fan_out S C (send_headers req) msg rs w1 = (ok, w')"
      by (simp add: produce_all_def)
    from fan_out_log [OF _ assms(2) this] eff stab_good obtain k where
      "stab w1 w'" "idem w' = idem w1" "seqno w' = seqno w1" "k \<le> length rs" "ok \<longrightarrow> k = length rs"
      "log w' = log w1 @ take k (map (push_record C req msg) rs)" by blast
    with eff Inr show ?thesis
      by (intro conjI exI [of _ "Suc k"]) (auto simp: send_batch_def intro: stab_trans)
  qed
qed

lemma rollback_spec:
  assumes "good w"
  shows "stab w (rollback S (IdemKey u m) w) \<and> seqno (rollback S (IdemKey u m) w) = seqno w \<and>
    log (rollback S (IdemKey u m) w) = log w \<and>
    (idem_set u m None w (rollback S (IdemKey u m) w) \<or> idem (rollback S (IdemKey u m) w) = idem w)"
proof -
  obtain r w' where d: "iDel (vIdem S) (IdemKey u m) w = (r, w')" by (cases "iDel (vIdem S) (IdemKey u m) w")
  from idem_Del [OF assms d] d show ?thesis by (auto simp: rollback_def)
qed

lemma relation_check_spec:
  assumes "good w" and "relation_check S req target w = (r, w')"
  shows "stab w w' \<and> idem w' = idem w \<and> seqno w' = seqno w \<and> log w' = log w \<and>
    ((\<exists>c \<in> {CodeRedisErr, CodeNotFriend}. r = Ret (Inl c)) \<or>
     (\<exists>rs. r = Ret (Inr rs) \<and> authorised (friend w) (grp w) req target rs))"
proof (cases "srConvType req = convTypeP2P")
  case True
  obtain b w1 where f: "vFriends S (srSenderId req) target w = (b, w1)"
    by (cases "vFriends S (srSenderId req) target w")
  from is_friend [OF assms(1) f] assms(2) f True show ?thesis
    by (auto simp: relation_check_def authorised_def split: sum.splits if_splits)
next
  case False
  obtain b w1 where f: "gsMembers Mem target w = (b, w1)" by (cases "gsMembers Mem target w")
  from group_members [OF assms(1) f] assms(2) f False members show ?thesis
    by (auto simp: relation_check_def authorised_def split: sum.splits if_splits)
qed

text \<open>The key is taken: the stored acknowledgement, or a reason to retry; nothing changes.\<close>

lemma replayOrBusy_spec:
  assumes "good w" and "replayOrBusy S C (IdemKey u m) w = (ack, w')"
  shows "stab w w' \<and> idem w' = idem w \<and> seqno w' = seqno w \<and> log w' = log w \<and>
    (ack = ack_code CodeRedisErr \<or>
     ack = ack_code CodeInFlight \<and> (idem w u m = None \<or> idem w u m = Some []) \<or>
     (\<exists>v iv. idem w u m = Some v \<and> v \<noteq> [] \<and> cdUnIdem C v = Inr iv \<and>
       saCode ack = 0 \<and> saMsgId ack = ivMsgID iv \<and> saSeq ack = ivSeq iv))"
proof -
  obtain r w1 where g: "iGet (vIdem S) (IdemKey u m) w = (r, w1)" by (cases "iGet (vIdem S) (IdemKey u m) w")
  note G = idem_Get [OF assms(1) g]
  show ?thesis
  proof (cases "\<exists>v iv. r = Inr v \<and> v \<noteq> [] \<and> cdUnIdem C v = Inr iv")
    case True
    then obtain v iv where v: "r = Inr v" "v \<noteq> []" "cdUnIdem C v = Inr iv" by blast
    obtain ts w2 where t: "vNow S w1 = (ts, w2)" by (cases "vNow S w1")
    from clock_frame [OF stab_good t] G stab_trans [of w w1 w2]
    have "stab w w2" "idem w2 = idem w" "seqno w2 = seqno w" "log w2 = log w" by auto
    moreover from G v have "idem w u m = Some v" by (auto split: option.splits)
    moreover from assms(2) g v t have "ack = \<lparr>saCode = 0, saMsgId = ivMsgID iv, saSeq = ivSeq iv, saTimestamp = ts\<rparr>"
      "w' = w2" by (simp_all add: replayOrBusy_def)
    ultimately show ?thesis using v by simp
  next
    case False
    with assms(2) g have "w' = w1" "ack = ack_code CodeRedisErr \<or> ack = ack_code CodeInFlight \<and> r = Inr []"
      by (auto simp: replayOrBusy_def split: sum.splits if_splits)
    with G show ?thesis by (auto split: option.splits)
  qed
qed

text \<open>Drawing an identifier and reading the clock: they return and change no view.\<close>

lemma draw_id:
  assumes "good w" and "node_ok n" and "nLastMs n \<le> at_least w"
  obtains i n' w1 ts w2 where "Next (vNow S) n w = Some (i, n', w1)" "vNow S w1 = (ts, w2)"
    "stab w w2" "idem w2 = idem w" "seqno w2 = seqno w" "log w2 = log w"
    "node_ok n'" "nLastMs n' \<le> at_least w2"
proof -
  from Next_advances [OF assms] obtain i n' w1 where
    nx: "Next (vNow S) n w = Some (i, n', w1)" "nLastMs n' \<le> at_least w1" by blast
  define I where "I x \<longleftrightarrow> stab w x \<and> idem x = idem w \<and> seqno x = seqno w \<and> log x = log w" for x
  have step: "I x \<Longrightarrow> vNow S x = (t, x') \<Longrightarrow> I x'" for x t x'
    using clock_frame [of x t x'] stab_good [of w x] stab_trans [of w x x'] unfolding I_def by auto
  have "I w1" by (rule Next_keeps [where I = I, OF nx(1) _ step]) (simp add: I_def stab_refl assms(1))
  obtain ts w2 where t: "vNow S w1 = (ts, w2)" by (cases "vNow S w1")
  from \<open>I w1\<close> have "good w1" using stab_good unfolding I_def by blast
  with clock_frame [OF this t] nx(2) have "nLastMs n' \<le> at_least w2" by (auto simp: stable_def)
  with that nx(1) t step [OF \<open>I w1\<close> t] Next_node_ok [OF assms(2) nx(1)] show thesis
    unfolding I_def by blast
qed

text \<open>
  The three ends of a request whose key is free and was taken: refused before anything is written,
  failed on Kafka with a part of the batch written, accepted with all of it.
\<close>

definition kept_or_held :: "SendMsgReq \<Rightarrow> 'w \<Rightarrow> 'w \<Rightarrow> bool" where
  "kept_or_held req w w' \<longleftrightarrow>
     idem w' = idem w \<or> idem_set (srSenderId req) (srClientMsgId req) (Some []) w w'"

definition refused :: "SendMsgReq \<Rightarrow> string \<Rightarrow> 'w \<Rightarrow> SendMsgAck outcome \<Rightarrow> 'w \<Rightarrow> bool" where
  "refused req conv w out w' \<longleftrightarrow>
     (\<exists>c \<in> {CodeRedisErr, CodeNotFriend}. out = Ret (ack_code c)) \<and> log w' = log w \<and>
     (seqno w' = seqno w \<or> seqno w' = (seqno w)(conv := seqno w conv + 1)) \<and> kept_or_held req w w'"

definition failed :: "codec \<Rightarrow> SendMsgReq \<Rightarrow> string \<Rightarrow> int list \<Rightarrow> PbMsg \<Rightarrow> 'w \<Rightarrow> SendMsgAck outcome \<Rightarrow> 'w \<Rightarrow> bool" where
  "failed C req conv rs msg w out w' \<longleftrightarrow>
     out = Ret (ack_code CodeKafkaErr) \<and> (\<exists>k. log w' = log w @ take k (send_batch C req msg rs)) \<and>
     seqno w' = (seqno w)(conv := seqno w conv + 1) \<and> kept_or_held req w w'"

definition accepted :: "codec \<Rightarrow> SendMsgReq \<Rightarrow> string \<Rightarrow> int list \<Rightarrow> PbMsg \<Rightarrow> 'w \<Rightarrow> SendMsgAck outcome \<Rightarrow> 'w \<Rightarrow> bool" where
  "accepted C req conv rs msg w out w' \<longleftrightarrow>
     out = (if rs = [] then Panic else Ret (ack_of msg)) \<and> log w' = log w @ send_batch C req msg rs \<and>
     seqno w' = (seqno w)(conv := seqno w conv + 1) \<and>
     int64 (pmSeq msg) \<and>
     (\<exists>v \<in> {[], idem_final C msg}. idem_set (srSenderId req) (srClientMsgId req) (Some v) w w')"

text \<open>The key taken by the request at \<open>w1\<close> is given back, or stays held if Redis does not answer.\<close>

lemma rollback_undone:
  assumes "idem w (srSenderId req) (srClientMsgId req) = None" and "idem_set (srSenderId req) (srClientMsgId req) (Some []) w w1"
    and "stab w x" and "idem x = idem w1"
  shows "stab w (rollback S (IdemKey (srSenderId req) (srClientMsgId req)) x) \<and>
    seqno (rollback S (IdemKey (srSenderId req) (srClientMsgId req)) x) = seqno x \<and>
    log (rollback S (IdemKey (srSenderId req) (srClientMsgId req)) x) = log x \<and>
    kept_or_held req w (rollback S (IdemKey (srSenderId req) (srClientMsgId req)) x)"
proof -
  let ?u = "srSenderId req" and ?m = "srClientMsgId req"
  let ?y = "rollback S (IdemKey ?u ?m) x"
  note D = rollback_spec [OF stab_good [OF assms(3)], of ?u ?m]
  have "idem ?y = idem w \<or> idem_set ?u ?m (Some []) w ?y"
  proof (cases "idem_set ?u ?m None x ?y")
    case True
    then show ?thesis using assms(1,2,4) by (metis fun_upd_same fun_upd_triv fun_upd_upd)
  next
    case False
    with D have "idem ?y = idem w1" using assms(4) by simp
    with assms(2) show ?thesis by simp
  qed
  with D stab_trans [OF assms(3)] show ?thesis unfolding kept_or_held_def by blast
qed

text \<open>The last part, from the sequence number on: the message is built and written.\<close>

lemma sendMsg_writes:
  assumes "node_ok n" "nLastMs n \<le> at_least w3" and "normalise req = Some (conv, target)"
    and "iSetNX (vIdem S) (IdemKey (srSenderId req) (srClientMsgId req)) [] idemTTL w = (Inr True, w1)"
    and "idem w (srSenderId req) (srClientMsgId req) = None" "idem_set (srSenderId req) (srClientMsgId req) (Some []) w w1"
    and "relation_check S req target w1 = (Ret (Inr rs), w2)" and "vSeq S conv w2 = (Inr (seqno w conv + 1), w3)"
    and "stab w w3" "log w3 = log w" "idem w3 = idem w1" "seqno w3 = (seqno w)(conv := seqno w conv + 1)" "int64 (seqno w conv + 1)"
    and "sendMsg S C req n w = (out, n', w')"
  shows "stab w w' \<and> node_ok n' \<and> nLastMs n' \<le> at_least w' \<and> (\<exists>i ts msg. msg = build_msg req conv i (seqno w conv + 1) ts \<and>
    (failed C req conv rs msg w out w' \<or> accepted C req conv rs msg w out w'))"
proof -
  let ?u = "srSenderId req" and ?m = "srClientMsgId req" and ?q = "seqno w conv + 1"
  let ?key = "IdemKey ?u ?m"
  from normaliseD [OF assms(3)] have m: "?m \<noteq> []" by simp
  obtain i n1 w4 ts w5 where d: "Next (vNow S) n w3 = Some (i, n1, w4)" "vNow S w4 = (ts, w5)"
    and w5: "stab w3 w5" "idem w5 = idem w3" "seqno w5 = seqno w3" "log w5 = log w3"
    and n1: "node_ok n1" "nLastMs n1 \<le> at_least w5"
    using draw_id [OF stab_good [OF assms(9)] assms(1,2)] by metis
  define msg where "msg = build_msg req conv i ?q ts"
  obtain ok w6 where pr: "produce_all S C req msg rs w5 = (ok, w6)" by (cases "produce_all S C req msg rs w5")
  from produce_all_log [OF stab_good [OF w5(1)] m pr] obtain k where
    w6: "stab w5 w6" "idem w6 = idem w5" "seqno w6 = seqno w5"
    "log w6 = log w5 @ take k (send_batch C req msg rs)" "ok \<longrightarrow> log w6 = log w5 @ send_batch C req msg rs" by blast
  have s6: "stab w w6" using assms(9) w5 w6 stab_trans by blast
  show ?thesis
  proof (cases ok)
    case False
    with assms(3,4,7,8,14) d pr have o: "out = Ret (ack_code CodeKafkaErr)" "n' = n1" "w' = rollback S ?key w6"
      by (simp_all add: sendMsg_def msg_def)
    have t: "nLastMs n1 \<le> at_least w'"
      using n1(2) stab_same [OF w6(1)] rollback_spec [OF stab_good [OF s6], of ?u ?m] stab_same o(3) by fastforce
    note U = rollback_undone [OF assms(5,6) s6]
    have "failed C req conv rs msg w out w'"
      using U w6(2-4) w5 assms(10-12) unfolding failed_def o(1,3) by auto
    with t U w6(2) w5(2) assms(11) o n1(1) show ?thesis unfolding msg_def by auto
  next
    case True
    obtain sr w7 where st: "iSet (vIdem S) ?key (idem_final C msg) idemTTL w6 = (sr, w7)"
      by (cases "iSet (vIdem S) ?key (idem_final C msg) idemTTL w6")
    have o: "out = (if rs = [] then Panic else Ret (ack_of msg))" "n' = n1" "w' = w7"
      using assms(3,4,7,8,14) d pr True st
      by (auto simp: sendMsg_def msg_def idem_final_def build_msg_def ack_of_def split: if_splits)
    note F = idem_Set [OF stab_good [OF s6] st]
    have "\<exists>v \<in> {[], idem_final C msg}. idem_set ?u ?m (Some v) w w7"
      using F w6 w5 assms(6,11) by auto
    then have "accepted C req conv rs msg w out w'"
      using F w6 w5 assms(10-13) True unfolding accepted_def o(1,3) by (auto simp: msg_def build_msg_def)
    moreover have "stab w w7" "nLastMs n1 \<le> at_least w7"
      using F s6 stab_trans n1(2) stab_same [OF w6(1)] stab_same [of w6 w7] by fastforce+
    ultimately show ?thesis using o(2,3) n1(1) unfolding msg_def by blast
  qed
qed

lemma sendMsg_taken:
  assumes "good w" and "node_ok n" "nLastMs n \<le> at_least w" and "normalise req = Some (conv, target)"
    and "iSetNX (vIdem S) (IdemKey (srSenderId req) (srClientMsgId req)) [] idemTTL w = (Inr True, w1)"
    and "sendMsg S C req n w = (out, n', w')"
  shows "stab w w' \<and> node_ok n' \<and> nLastMs n' \<le> at_least w' \<and> idem w (srSenderId req) (srClientMsgId req) = None \<and>
    (refused req conv w out w' \<or>
     (\<exists>i ts rs msg. authorised (friend w) (grp w) req target rs \<and> msg = build_msg req conv i (seqno w conv + 1) ts \<and>
       (failed C req conv rs msg w out w' \<or> accepted C req conv rs msg w out w')))"
proof -
  let ?u = "srSenderId req" and ?m = "srClientMsgId req"
  let ?key = "IdemKey ?u ?m"
  from idem_SetNX [OF assms(1,5)] have w1: "stab w w1" "seqno w1 = seqno w" "log w1 = log w"
    "idem_set ?u ?m (Some []) w w1" and free: "idem w ?u ?m = None" by (auto split: if_splits)
  note undone = rollback_undone [OF free w1(4)]
  obtain r w2 where rc: "relation_check S req target w1 = (r, w2)" by (cases "relation_check S req target w1")
  note R = relation_check_spec [OF stab_good [OF w1(1)] rc]
  from R w1 have w2: "stab w w2" "seqno w2 = seqno w" "log w2 = log w" "idem w2 = idem w1"
    using stab_trans by auto
  have time: "nLastMs n \<le> at_least x" if "stab w x" for x
    using that assms(3) stab_same by fastforce
  show ?thesis
  proof (cases "\<exists>c. r = Ret (Inl c)")
    case True
    then obtain c where c: "r = Ret (Inl c)" by blast
    with assms(4-6) rc have "out = Ret (ack_code c)" "n' = n" "w' = rollback S ?key w2"
      by (simp_all add: sendMsg_def)
    moreover have "c \<in> {CodeRedisErr, CodeNotFriend}" using R c by auto
    ultimately show ?thesis using undone [OF w2(1,4)] w2 free assms(2) time unfolding refused_def by auto
  next
    case False
    with R obtain rs where rs: "r = Ret (Inr rs)" "authorised (friend w) (grp w) req target rs"
      using stab_same [OF w1(1)] by auto
    obtain sr w3 where sq: "vSeq S conv w2 = (sr, w3)" by (cases "vSeq S conv w2")
    note Q = seq_Next [OF stab_good [OF w2(1)] sq]
    from Q w2 have w3: "stab w w3" "log w3 = log w" "idem w3 = idem w1" using stab_trans by auto
    show ?thesis
    proof (cases sr)
      case (Inl e)
      with assms(4-6) rc rs sq have "out = Ret (ack_code CodeRedisErr)" "n' = n" "w' = rollback S ?key w3"
        by (simp_all add: sendMsg_def)
      with undone [OF w3(1,3)] w3 w2 Q free assms(2) time show ?thesis unfolding refused_def by auto
    next
      case (Inr q)
      with Q w2 have q: "q = seqno w conv + 1" "seqno w3 = (seqno w)(conv := seqno w conv + 1)" "int64 q" by auto
      from sendMsg_writes [OF assms(2) time [OF w3(1)] assms(4,5) free w1(4) rc [unfolded rs(1)] sq [unfolded Inr q(1)] w3 q(2) q(3) [unfolded q(1)] assms(6)]
        rs(2) free show ?thesis by blast
    qed
  qed
qed

text \<open>A request whose key is held: nothing changes.\<close>

definition replayed :: "codec \<Rightarrow> SendMsgReq \<Rightarrow> 'w \<Rightarrow> SendMsgAck outcome \<Rightarrow> 'w \<Rightarrow> bool" where
  "replayed C req w out w' \<longleftrightarrow>
     idem w' = idem w \<and> seqno w' = seqno w \<and> log w' = log w \<and>
     (\<exists>v ack. idem w (srSenderId req) (srClientMsgId req) = Some v \<and> out = Ret ack \<and>
       (ack = ack_code CodeRedisErr \<or> ack = ack_code CodeInFlight \<and> v = [] \<or>
        (\<exists>iv. v \<noteq> [] \<and> cdUnIdem C v = Inr iv \<and>
          saCode ack = 0 \<and> saMsgId ack = ivMsgID iv \<and> saSeq ack = ivSeq iv)))"

lemma sendMsg_effect:
  assumes "good w" and "node_ok n" "nLastMs n \<le> at_least w" and "normalise req = Some (conv, target)"
    and "sendMsg S C req n w = (out, n', w')"
  shows "stab w w' \<and> node_ok n' \<and> nLastMs n' \<le> at_least w' \<and>
    (idem w (srSenderId req) (srClientMsgId req) = None \<and> refused req conv w out w' \<or>
     replayed C req w out w' \<or>
     idem w (srSenderId req) (srClientMsgId req) = None \<and>
     (\<exists>i ts rs msg. authorised (friend w) (grp w) req target rs \<and> msg = build_msg req conv i (seqno w conv + 1) ts \<and>
       (failed C req conv rs msg w out w' \<or> accepted C req conv rs msg w out w')))"
proof -
  let ?u = "srSenderId req"
  let ?m = "srClientMsgId req"
  obtain r w1 where nx: "iSetNX (vIdem S) (IdemKey ?u ?m) [] idemTTL w = (r, w1)"
    by (cases "iSetNX (vIdem S) (IdemKey ?u ?m) [] idemTTL w")
  note X = idem_SetNX [OF assms(1) nx]
  consider (err) e where "r = Inl e" | (taken) "r = Inr True" | (held) "r = Inr False"
    by (cases r) auto
  then show ?thesis
  proof cases
    case err
    with assms(4,5) nx have "out = Ret (ack_code CodeRedisErr)" "n' = n" "w' = w1" by (auto simp: sendMsg_def)
    with X assms(2,3) stab_same [of w w1] show ?thesis
      by (cases "idem w ?u ?m") (auto simp: refused_def replayed_def kept_or_held_def)
  next
    case taken
    with sendMsg_taken [OF assms(1-4) _ assms(5)] nx show ?thesis by auto
  next
    case held
    obtain ack w2 where rp: "replayOrBusy S C (IdemKey ?u ?m) w1 = (ack, w2)"
      by (cases "replayOrBusy S C (IdemKey ?u ?m) w1")
    from X held have w1: "stab w w1" "idem w1 = idem w" "seqno w1 = seqno w" "log w1 = log w"
      and v: "idem w ?u ?m \<noteq> None" by (auto split: if_splits)
    from assms(4,5) nx held rp have o: "out = Ret ack" "n' = n" "w' = w2" by (auto simp: sendMsg_def)
    note P = replayOrBusy_spec [OF stab_good [OF w1(1)] rp]
    have "stab w w2" using P w1 stab_trans by blast
    moreover from v P w1 have "replayed C req w out w'" unfolding replayed_def o by auto
    ultimately show ?thesis using o assms(2,3) stab_same [of w w2] by auto
  qed
qed

text \<open>A held key stays held, and sequence numbers never go back.\<close>

lemma sendMsg_mono:
  assumes "good w" and "node_ok n" "nLastMs n \<le> at_least w" and "sendMsg S C req n w = (out, n', w')"
  shows "stab w w' \<and> node_ok n' \<and> nLastMs n' \<le> at_least w' \<and> out \<noteq> Hang \<and>
    (idem w u m \<noteq> None \<longrightarrow> idem w' u m \<noteq> None) \<and> seqno w c \<le> seqno w' c"
proof (cases "normalise req")
  case None
  with assms show ?thesis by (auto simp: sendMsg_def stab_refl)
next
  case (Some p)
  then obtain conv target where p: "normalise req = Some (conv, target)" by (cases p) auto
  from sendMsg_effect [OF assms(1-3) p assms(4)] show ?thesis
    by (auto simp: refused_def replayed_def failed_def accepted_def kept_or_held_def split: if_splits)
qed

text \<open>
  A run in which Kafka never fails writes complete batches of requests with different keys, each
  authorised, with sequence numbers that increase within every conversation.
\<close>

lemma sendMsg_logs_one:
  assumes "good w" and "node_ok n" "nLastMs n \<le> at_least w" and "sendMsg S C req n w = (out, n', w')"
    and "log w' \<noteq> log w" and "out \<noteq> Ret (ack_code CodeKafkaErr)"
  obtains x where "xReq x = req" "log w' = log w @ sent_batch C x" "case_prod (idem w) (sent_key x) = None" "case_prod (idem w') (sent_key x) \<noteq> None"
    "sent_ok (friend w) (grp w) x" "seqno w (pmConvId (xMsg x)) < pmSeq (xMsg x)" "seqno w' (pmConvId (xMsg x)) = pmSeq (xMsg x)"
proof -
  obtain conv target where norm: "normalise req = Some (conv, target)"
    using assms(4,5) by (cases "normalise req") (auto simp: sendMsg_def)
  from sendMsg_effect [OF assms(1-3) norm assms(4)] assms(5,6) obtain i ts rs msg where
    free: "idem w (srSenderId req) (srClientMsgId req) = None"
    and auth: "authorised (friend w) (grp w) req target rs" and msg: "msg = build_msg req conv i (seqno w conv + 1) ts"
    and ac: "accepted C req conv rs msg w out w'"
    by (auto simp: refused_def replayed_def failed_def)
  from normaliseD [OF norm] have conv: "srConvId req = conv" by simp
  from ac have w': "log w' = log w @ send_batch C req msg rs" "seqno w' conv = seqno w conv + 1"
    "idem w' (srSenderId req) (srClientMsgId req) \<noteq> None" by (auto simp: accepted_def)
  show thesis
    by (rule that [of "\<lparr>xReq = req, xMsg = msg, xTo = rs\<rparr>"])
      (use free auth norm conv w' in \<open>auto simp: sent_key_def sent_ok_def sent_batch_def msg build_msg_def\<close>)
qed

lemma send_run_log:
  assumes "good w" and "node_ok n" "nLastMs n \<le> at_least w" and "send_run S C reqs n w = (outs, n', w')"
    and "Ret (ack_code CodeKafkaErr) \<notin> set outs"
  shows "\<exists>acc. log w' = log w @ concat (map (sent_batch C) acc) \<and>
    (\<forall>x \<in> set acc. xReq x \<in> set reqs \<and> case_prod (idem w) (sent_key x) = None \<and>
       sent_ok (friend w) (grp w) x \<and> seqno w (pmConvId (xMsg x)) < pmSeq (xMsg x)) \<and>
    distinct (map sent_key acc) \<and>
    (\<forall>c. sorted_wrt (<) (map (\<lambda>x. pmSeq (xMsg x)) (filter (\<lambda>x. pmConvId (xMsg x) = c) acc)))"
  using assms
proof (induction reqs arbitrary: n w outs)
  case Nil
  then show ?case by (intro exI [of _ "[]"]) auto
next
  case (Cons req reqs)
  obtain out n1 w1 outs1 where one: "sendMsg S C req n w = (out, n1, w1)"
    and rest: "send_run S C reqs n1 w1 = (outs1, n', w')" and outs: "outs = out # outs1"
    using Cons.prems(4) by (auto split: prod.splits)
  note mono = sendMsg_mono [OF Cons.prems(1-3) one]
  then have w1: "stab w w1" "node_ok n1" "nLastMs n1 \<le> at_least w1" by blast+
  have fr: "friend w1 = friend w" "grp w1 = grp w" using stab_same [OF w1(1)] by simp_all
  have "Ret (ack_code CodeKafkaErr) \<notin> set outs1" using Cons.prems(5) outs by simp
  from Cons.IH [OF stab_good [OF w1(1)] w1(2,3) rest this] obtain acc where
    acc: "log w' = log w1 @ concat (map (sent_batch C) acc)"
      "\<forall>x \<in> set acc. xReq x \<in> set reqs \<and> case_prod (idem w1) (sent_key x) = None \<and>
         sent_ok (friend w) (grp w) x \<and> seqno w1 (pmConvId (xMsg x)) < pmSeq (xMsg x)"
      "distinct (map sent_key acc)"
      "\<forall>c. sorted_wrt (<) (map (\<lambda>x. pmSeq (xMsg x)) (filter (\<lambda>x. pmConvId (xMsg x) = c) acc))"
    unfolding fr by blast
  have acc': "xReq x \<in> set (req # reqs) \<and> case_prod (idem w) (sent_key x) = None \<and>
         sent_ok (friend w) (grp w) x \<and> seqno w (pmConvId (xMsg x)) < pmSeq (xMsg x)" if "x \<in> set acc" for x
    using bspec [OF acc(2) that] mono [of "fst (sent_key x)" "snd (sent_key x)" "pmConvId (xMsg x)"]
    by (auto simp: case_prod_beta)
  show ?case
  proof (cases "log w1 = log w")
    case True
    with acc acc' show ?thesis by (intro exI [of _ acc]) auto
  next
    case False
    with sendMsg_logs_one [OF Cons.prems(1-3) one] Cons.prems(5) outs obtain x where
      x: "xReq x = req" "log w1 = log w @ sent_batch C x" "case_prod (idem w) (sent_key x) = None" "case_prod (idem w1) (sent_key x) \<noteq> None"
      "sent_ok (friend w) (grp w) x" "seqno w (pmConvId (xMsg x)) < pmSeq (xMsg x)" "seqno w1 (pmConvId (xMsg x)) = pmSeq (xMsg x)" by auto
    have "sent_key x \<notin> sent_key ` set acc" using bspec [OF acc(2)] x(4) by (metis imageE)
    then have "distinct (map sent_key (x # acc))" using acc(3) by simp
    moreover have "sorted_wrt (<) (map (\<lambda>x. pmSeq (xMsg x)) (filter (\<lambda>x. pmConvId (xMsg x) = c) (x # acc)))" for c
      using acc(2,4) x(7) by auto
    ultimately show ?thesis using acc' acc(1) x(1-3,5,6) by (intro exI [of _ "x # acc"]) auto
  qed
qed

lemma accept_spec:
  assumes "good w" and "node_ok n" "nLastMs n \<le> at_least w" and "normalise req = Some (conv, target)"
    and "idem w (srSenderId req) (srClientMsgId req) = None"
    and "sendMsg S C req n w = (Ret ack, n', w')" and "saCode ack = 0"
  shows "\<exists>i ts rs msg. msg = build_msg req conv i (seqno w conv + 1) ts \<and> ack = ack_of msg \<and>
    authorised (friend w) (grp w) req target rs \<and> log w' = log w @ send_batch C req msg rs \<and>
    seqno w' = (seqno w)(conv := seqno w conv + 1) \<and>
    idem w' (srSenderId req) (srClientMsgId req) \<in> {Some [], Some (idem_final C msg)}"
  using sendMsg_effect [OF assms(1-4,6)] assms(5,7)
  by (fastforce simp: refused_def replayed_def failed_def accepted_def ack_code_def send_codes split: if_splits)

text \<open>An answer other than success: nothing was written, or a beginning of the batch and a Kafka error.\<close>

lemma reject_spec:
  assumes "good w" and "node_ok n" "nLastMs n \<le> at_least w" and "sendMsg S C req n w = (Ret ack, n', w')"
    and "saCode ack \<noteq> 0"
  shows "log w' = log w \<or> saCode ack = CodeKafkaErr \<and>
    (\<exists>conv target i ts rs k. normalise req = Some (conv, target) \<and> authorised (friend w) (grp w) req target rs \<and>
      log w' = log w @ take k (send_batch C req (build_msg req conv i (seqno w conv + 1) ts) rs))"
proof (cases "normalise req")
  case None
  with assms show ?thesis by (auto simp: sendMsg_def)
next
  case (Some p)
  then obtain conv target where p: "normalise req = Some (conv, target)" by (cases p) auto
  from sendMsg_effect [OF assms(1-3) p assms(4)] assms(5) p show ?thesis
    by (fastforce simp: refused_def replayed_def failed_def accepted_def ack_code_def ack_of_def split: if_splits)
qed

lemma panic_spec:
  assumes "good w" and "node_ok n" "nLastMs n \<le> at_least w" and "sendMsg S C req n w = (Panic, n', w')"
  shows "\<exists>conv gid i ts. normalise req = Some (conv, gid) \<and> grp w gid = {srSenderId req} \<and>
    log w' = log w @ [store_record C req (build_msg req conv i (seqno w conv + 1) ts)]"
proof (cases "normalise req")
  case None
  with assms show ?thesis by (auto simp: sendMsg_def)
next
  case (Some p)
  then obtain conv target where p: "normalise req = Some (conv, target)" by (cases p) auto
  from sendMsg_effect [OF assms(1-3) p assms(4)] obtain i ts where
    "authorised (friend w) (grp w) req target []"
    "accepted C req conv [] (build_msg req conv i (seqno w conv + 1) ts) w Panic w'"
    by (fastforce simp: refused_def replayed_def failed_def accepted_def split: if_splits)
  with p show ?thesis by (auto simp: accepted_def send_batch_def authorised_def split: if_splits)
qed

lemma resend_spec:
  assumes "good w" and "node_ok n" "nLastMs n \<le> at_least w" and "sendMsg S C req n w = (Ret ack, n1, w1)"
    and "saCode ack = 0" and "idem w (srSenderId req) (srClientMsgId req) = None"
    and "idem w1 (srSenderId req) (srClientMsgId req) \<noteq> Some []"
    and "\<And>i q. int64 q \<Longrightarrow> cdIdem C \<lparr>ivMsgID = format_int i, ivSeq = q\<rparr> \<noteq> [] \<and>
      cdUnIdem C (cdIdem C \<lparr>ivMsgID = format_int i, ivSeq = q\<rparr>) = Inr \<lparr>ivMsgID = format_int i, ivSeq = q\<rparr>"
    and "srSenderId req' = srSenderId req" "srClientMsgId req' = srClientMsgId req"
    and "normalise req' \<noteq> None" and "sendMsg S C req' n1 w1 = (out, n2, w2)"
  shows "log w2 = log w1 \<and> seqno w2 = seqno w1 \<and> idem w2 = idem w1 \<and>
    (\<exists>ack'. out = Ret ack' \<and> (ack' = ack_code CodeRedisErr \<or>
      saCode ack' = 0 \<and> saMsgId ack' = saMsgId ack \<and> saSeq ack' = saSeq ack))"
proof -
  from assms(4,5) obtain conv target where p: "normalise req = Some (conv, target)"
    by (cases "normalise req") (auto simp: sendMsg_def ack_code_def send_codes)
  from sendMsg_effect [OF assms(1-3) p assms(4)] assms(5,6) obtain i ts rs msg where
    msg: "msg = build_msg req conv i (seqno w conv + 1) ts" and ac: "accepted C req conv rs msg w (Ret ack) w1"
    and w1: "good w1" "node_ok n1" "nLastMs n1 \<le> at_least w1"
    by (fastforce simp: refused_def replayed_def failed_def ack_code_def send_codes stable_def)
  let ?iv = "\<lparr>ivMsgID = format_int i, ivSeq = seqno w conv + 1\<rparr>"
  from ac assms(7) have v: "idem w1 (srSenderId req) (srClientMsgId req) = Some (cdIdem C ?iv)"
    and ack: "ack = ack_of msg" and "int64 (seqno w conv + 1)"
    by (auto simp: accepted_def idem_final_def msg build_msg_def split: if_splits)
  from assms(8) [OF this(3)] have rt: "cdIdem C ?iv \<noteq> []" "cdUnIdem C (cdIdem C ?iv) = Inr ?iv" by auto
  obtain conv' target' where p': "normalise req' = Some (conv', target')" using assms(11) by auto
  from sendMsg_effect [OF w1 p' assms(12)] v assms(9,10) have "replayed C req' w1 out w2" by auto
  with v rt show ?thesis unfolding replayed_def assms(9,10) by (auto simp: ack ack_of_def msg build_msg_def)
qed

end

text \<open>
  What the JSON codec promises: the value kept under an idempotency key is not empty and can be
  read back.
\<close>

definition idem_codec :: "codec \<Rightarrow> bool" where
  "idem_codec C \<longleftrightarrow> (\<forall>i q. int64 q \<longrightarrow> (let iv = \<lparr>ivMsgID = format_int i, ivSeq = q\<rparr> in
     cdIdem C iv \<noteq> [] \<and> cdUnIdem C (cdIdem C iv) = Inr iv))"

section \<open>A world to run in\<close>

text \<open>
  The wired server on the services in memory; the codec writes identifiers as text.
\<close>

definition text_codec :: codec where
  "text_codec =
    \<lparr>cdMsg = \<lambda>m. Inr (bytes_of (pmMsgId m)),
     cdEnv = \<lambda>e. Inr (bytes_of (format_int (enRecvUid e))),
     cdIdem = \<lambda>v. ivMsgID v @ '':'' @ format_int (ivSeq v),
     cdUnIdem = \<lambda>s. (case split_on CHR '':'' s of
        [a, b] \<Rightarrow> (case parse_int b of Inr q \<Rightarrow> Inr \<lparr>ivMsgID = a, ivSeq = q\<rparr> | Inl e \<Rightarrow> Inl e)
      | _ \<Rightarrow> Inl (Err ''corrupt''))\<rparr>"

lemma text_codec_ok: "idem_codec text_codec"
  by (auto simp: idem_codec_def Let_def text_codec_def parse_int_format split_on_append split_on_no_sep)

definition demo_server :: "mem Server" where
  "demo_server = NewServer mem_redis mem_mysql demo_entropy mem_kafka (\<lambda>u t m. (Inr (u, True), m)) demo_sync mem_now"

definition demo_req :: "string \<Rightarrow> string \<Rightarrow> int \<Rightarrow> SendMsgReq" where
  "demo_req cid conv ct = \<lparr>srSenderId = 1, srConvId = conv, srConvType = ct, srClientMsgId = cid, srDeviceId = ''d'',
     srMsgType = 1, srPayload = [104, 105]\<rparr>"

lemma small_ints [simp]:
  "format_int 1 = ''1''" "format_int 2 = ''2''" "format_int 7 = ''7''" "format_int 8 = ''8''"
  by (simp_all add: format_int_def format_nat_less10 digit_char_def)

lemma small_parse [simp]:
  "parse_int ''1'' = Inr 1" "parse_int ''2'' = Inr 2" "parse_int ''7'' = Inr 7" "parse_int ''8'' = Inr 8"
  using parse_int_format [of 1] parse_int_format [of 2] parse_int_format [of 7] parse_int_format [of 8]
  by (simp_all add: int64_iff)

lemma demo_normalise:
  "normalise (demo_req ''m1'' ''c:1:2'' 1) = Some (''c:1:2'', 2)" 
  "normalise (demo_req ''m2'' ''g:7'' 2) = Some (''g:7'', 7)"
  "normalise (demo_req ''m3'' ''g:8'' 2) = Some (''g:8'', 8)"
  by (simp_all add: normalise_def demo_req_def convTypeP2P_def convTypeGroup_def ParseP2PConv_def ParseGroupConv_def
    msgMaxPayload_def MaxBodyLen_def ConvIDForP2P_def ConvIDForGroup_def)

lemmas demo_eval = sendMsg_def demo_server_def NewServer_def mem_redis_def mem_mysql_def mem_kafka_def mem_now_def
  mem_call_def mem_put_def mem_hash_def mem_set_def mem_zset_def relation_check_def fan_out.simps produce_all_def 
  redisIdem_def redisSeq_def redis_get_def IsFriend_def GroupMembers_def Members_def loadAndBackfill_def select_friends_def
  select_members_def friendStatusActive_def Send_def buildHeaders_eq send_headers_def Next_def demo_node_def
  demo_world_def demo_tables_def demo_req_def text_codec_def build_msg_def convTypeP2P_def convTypeGroup_def Let_def
  IdemKey_def SeqKey_def FriendKey_def ConvMembersKey_def idemPrefix_def seqPrefix_def friendPrefix_def convMembersPrefix_def
  rollback_def replayOrBusy_def split_on_append split_on_no_sep is_trace_def EqualFold_def TraceIDHeader_def lower_char_def push_key_def int64_max_def


lemma demo_send:
  "\<exists>ack n' w'. sendMsg demo_server text_codec (demo_req ''m1'' ''c:1:2'' 1) demo_node (demo_world []) = (Ret ack, n', w') \<and>
     saCode ack = 0 \<and> idem_view (mem_st w') 1 ''m1'' \<noteq> Some [] \<and> idem_view (mem_st w') 1 ''m1'' \<noteq> None"
  by (subst sendMsg_def, subst demo_normalise)
    (simp add: demo_eval idem_view_def mem_st_def)

lemma demo_run:
  "\<exists>a b c n' w'. send_run demo_server text_codec
      [demo_req ''m1'' ''c:1:2'' 1, demo_req ''m1'' ''c:1:2'' 1, demo_req ''m2'' ''g:7'' 2] demo_node (demo_world [])
      = ([Ret a, Ret b, Ret c], n', w') \<and> saCode a = 0 \<and> saCode b = 0 \<and> saCode c = 0 \<and>
      saMsgId b = saMsgId a \<and> length (mmLog w') = 4"
  by (simp add: sendMsg_def demo_normalise) (simp add: demo_eval)

lemma demo_retry:
  "\<exists>a n1 w1 n2 w2. sendMsg demo_server text_codec (demo_req ''m1'' ''c:1:2'' 1) demo_node
       (demo_world [0, 0, 0, 0, 0, 0, 1]) = (Ret (ack_code CodeKafkaErr), n1, w1) \<and>
     sendMsg demo_server text_codec (demo_req ''m1'' ''c:1:2'' 1) n1 w1 = (Ret a, n2, w2) \<and> saCode a = 0 \<and>
     map kmTopic (mmLog w2) = [TopicMsgStore, TopicMsgStore, TopicMsgPush]"
  by (simp add: sendMsg_def demo_normalise) (simp add: demo_eval)

lemma demo_lonely:
  "\<exists>n' w'. sendMsg demo_server text_codec (demo_req ''m3'' ''g:8'' 2) demo_node (demo_world []) = (Panic, n', w')"
  by (simp add: sendMsg_def demo_normalise) (simp add: demo_eval)

lemma demo_normalised: "normalise (demo_req ''m1'' ''c:1:2'' 1) \<noteq> None"
  by (simp add: demo_normalise)

lemma demo_free: "idem_view (mem_st (demo_world fs)) u m = None"
  by (simp add: idem_view_def mem_st_def demo_world_def)

lemma demo_node_ok: "node_ok demo_node" "nLastMs demo_node \<le> sLast (mem_st (demo_world fs))"
  by (simp_all add: node_ok_def demo_node_def mem_st_def demo_world_def)

section \<open>Properties of the wired server\<close>



text \<open>C9: a successful answer to a request whose key is free means that the sender is an active friend of
  the receiver or a member of the group, that the log received one store record and one push record
  for every other party, in that order, and that the acknowledged sequence number is the next of the
  conversation; the key then holds the acknowledgement, or the empty value when that write failed.\<close>

theorem sendMsg_accepted:
  assumes "timed_services R M P now st" and "logic_ok (st w)" and "node_ok n" and "nLastMs n \<le> sLast (st w)"
    and "normalise req = Some (conv, target)" and "idem_view (st w) (srSenderId req) (srClientMsgId req) = None"
    and "sendMsg (NewServer R M E P V Y now) C req n w = (Ret ack, n', w')" and "saCode ack = 0"
  shows "\<exists>i ts rs msg. msg = build_msg req conv i (seq_view (st w) conv + 1) ts \<and> ack = ack_of msg \<and>
    authorised (friend_view (st w)) (group_view (st w)) req target rs \<and>
    sLog (st w') = sLog (st w) @ send_batch C req msg rs \<and>
    seq_view (st w') = (seq_view (st w))(conv := seq_view (st w) conv + 1) \<and>
    idem_view (st w') (srSenderId req) (srClientMsgId req) \<in> {Some [], Some (idem_final C msg)}"
  by (rule send_deps.accept_spec [OF send_deps_wired [OF assms(1)] assms(2-8)])

theorem sendMsg_accepted_witness:
  "\<exists>ack n' w' i ts rs msg.
    sendMsg demo_server text_codec (demo_req ''m1'' ''c:1:2'' 1) demo_node (demo_world []) = (Ret ack, n', w') \<and>
    saCode ack = 0 \<and> ack = ack_of msg \<and> msg = build_msg (demo_req ''m1'' ''c:1:2'' 1) ''c:1:2'' i
      (seq_view (mem_st (demo_world [])) ''c:1:2'' + 1) ts \<and>
    sLog (mem_st w') = sLog (mem_st (demo_world [])) @ send_batch text_codec (demo_req ''m1'' ''c:1:2'' 1) msg rs"
proof -
  from demo_send obtain ack n' w' where
    s: "sendMsg demo_server text_codec (demo_req ''m1'' ''c:1:2'' 1) demo_node (demo_world []) = (Ret ack, n', w')"
    and c: "saCode ack = 0" by blast
  from sendMsg_accepted [OF memt.timed_services_axioms demo_ok demo_node_ok demo_normalise(1) demo_free
      s [unfolded demo_server_def] c] s c show ?thesis by blast
qed

text \<open>C19: any other answer leaves the log as it was, except the Kafka error, after which the log has a
  prefix of the batch.\<close>

theorem sendMsg_rejected:
  assumes "timed_services R M P now st" and "logic_ok (st w)" and "node_ok n" and "nLastMs n \<le> sLast (st w)"
    and "sendMsg (NewServer R M E P V Y now) C req n w = (Ret ack, n', w')" and "saCode ack \<noteq> 0"
  shows "sLog (st w') = sLog (st w) \<or> saCode ack = CodeKafkaErr \<and>
    (\<exists>conv target i ts rs k. normalise req = Some (conv, target) \<and>
      authorised (friend_view (st w)) (group_view (st w)) req target rs \<and>
      sLog (st w') = sLog (st w) @ take k (send_batch C req (build_msg req conv i (seq_view (st w) conv + 1) ts) rs))"
  by (rule send_deps.reject_spec [OF send_deps_wired [OF assms(1)] assms(2-6)])

theorem sendMsg_rejected_witness:
  "\<exists>ack n' w'. sendMsg demo_server text_codec (demo_req ''m1'' ''c:1:2'' 1) demo_node (demo_world [0, 0, 0, 0, 0, 0, 1])
     = (Ret ack, n', w') \<and> saCode ack \<noteq> 0 \<and>
    (sLog (mem_st w') = sLog (mem_st (demo_world [0, 0, 0, 0, 0, 0, 1])) \<or> saCode ack = CodeKafkaErr)"
proof -
  from demo_retry obtain n' w' where
    s: "sendMsg demo_server text_codec (demo_req ''m1'' ''c:1:2'' 1) demo_node (demo_world [0, 0, 0, 0, 0, 0, 1])
      = (Ret (ack_code CodeKafkaErr), n', w')" by blast
  have c: "saCode (ack_code CodeKafkaErr) \<noteq> 0" by (simp add: ack_code_def send_codes)
  from sendMsg_rejected [OF memt.timed_services_axioms demo_ok demo_node_ok s [unfolded demo_server_def] c] s c
  show ?thesis by blast
qed

text \<open>C10: sending again under the same sender and client message id writes nothing and draws no sequence
  number; the answer repeats the first message id and sequence number, unless Redis fails.\<close>

theorem sendMsg_resend:
  assumes "timed_services R M P now st" and "logic_ok (st w)" and "node_ok n" and "nLastMs n \<le> sLast (st w)"
    and "idem_codec C" and "sendMsg (NewServer R M E P V Y now) C req n w = (Ret ack, n1, w1)" and "saCode ack = 0"
    and "idem_view (st w) (srSenderId req) (srClientMsgId req) = None"
    and "idem_view (st w1) (srSenderId req) (srClientMsgId req) \<noteq> Some []"
    and "srSenderId req' = srSenderId req" and "srClientMsgId req' = srClientMsgId req" and "normalise req' \<noteq> None"
    and "sendMsg (NewServer R M E P V Y now) C req' n1 w1 = (out, n2, w2)"
  shows "sLog (st w2) = sLog (st w1) \<and> seq_view (st w2) = seq_view (st w1) \<and> idem_view (st w2) = idem_view (st w1) \<and>
    (\<exists>ack'. out = Ret ack' \<and> (ack' = ack_code CodeRedisErr \<or>
      saCode ack' = 0 \<and> saMsgId ack' = saMsgId ack \<and> saSeq ack' = saSeq ack))"
  by (rule send_deps.resend_spec [OF send_deps_wired [OF assms(1)] assms(2-4,6-9) _ assms(10-13)])
    (use assms(5) in \<open>simp add: idem_codec_def Let_def\<close>)

theorem sendMsg_resend_witness:
  "\<exists>ack n1 w1 out n2 w2.
    sendMsg demo_server text_codec (demo_req ''m1'' ''c:1:2'' 1) demo_node (demo_world []) = (Ret ack, n1, w1) \<and>
    sendMsg demo_server text_codec (demo_req ''m1'' ''c:1:2'' 1) n1 w1 = (out, n2, w2) \<and> saCode ack = 0 \<and>
    sLog (mem_st w2) = sLog (mem_st w1)"
proof -
  let ?req = "demo_req ''m1'' ''c:1:2'' 1"
  from demo_send obtain ack n1 w1 where
    s: "sendMsg demo_server text_codec ?req demo_node (demo_world []) = (Ret ack, n1, w1)"
    and c: "saCode ack = 0" "idem_view (mem_st w1) 1 ''m1'' \<noteq> Some []" by blast
  obtain out n2 w2 where t: "sendMsg demo_server text_codec ?req n1 w1 = (out, n2, w2)"
    by (cases "sendMsg demo_server text_codec ?req n1 w1")
  have "idem_view (mem_st w1) (srSenderId ?req) (srClientMsgId ?req) \<noteq> Some []"
    using c(2) by (simp add: demo_req_def)
  from sendMsg_resend [OF memt.timed_services_axioms demo_ok demo_node_ok text_codec_ok s [unfolded demo_server_def]
      c(1) demo_free this refl refl demo_normalised t [unfolded demo_server_def]] s t c(1) show ?thesis by blast
qed

text \<open>The handler returns or panics, it never hangs, whatever the services answer, when the clock
  goes forward; and it keeps the caches coherent, the node valid, every idempotency key taken and
  every sequence counter from going back.\<close>

theorem sendMsg_returns:
  assumes "timed_services R M P now st" and "logic_ok (st w)" and "node_ok n" and "nLastMs n \<le> sLast (st w)"
    and "sendMsg (NewServer R M E P V Y now) C req n w = (out, n', w')"
  shows "out \<noteq> Hang \<and> logic_ok (st w') \<and> node_ok n' \<and> nLastMs n' \<le> sLast (st w') \<and>
    (\<forall>u m. idem_view (st w) u m \<noteq> None \<longrightarrow> idem_view (st w') u m \<noteq> None) \<and>
    (\<forall>c. seq_view (st w) c \<le> seq_view (st w') c)"
  using send_deps.sendMsg_mono [OF send_deps_wired [OF assms(1)] assms(2-5)] by (auto simp: stable_def)

theorem sendMsg_returns_witness:
  "\<exists>out n' w'. sendMsg demo_server text_codec (demo_req ''m1'' ''c:1:2'' 1) demo_node (demo_world []) = (out, n', w') \<and>
    out \<noteq> Hang \<and> logic_ok (mem_st w')"
proof -
  obtain out n' w' where
    s: "sendMsg demo_server text_codec (demo_req ''m1'' ''c:1:2'' 1) demo_node (demo_world []) = (out, n', w')"
    by (cases "sendMsg demo_server text_codec (demo_req ''m1'' ''c:1:2'' 1) demo_node (demo_world [])")
  from sendMsg_returns [OF memt.timed_services_axioms demo_ok demo_node_ok s [unfolded demo_server_def]] s
  show ?thesis by blast
qed

text \<open>The handler panics only for a group whose only member is the sender, and then the store record
  has already been written.\<close>

theorem sendMsg_panics:
  assumes "timed_services R M P now st" and "logic_ok (st w)" and "node_ok n" and "nLastMs n \<le> sLast (st w)"
    and "sendMsg (NewServer R M E P V Y now) C req n w = (Panic, n', w')"
  shows "\<exists>conv gid i ts. normalise req = Some (conv, gid) \<and> group_view (st w) gid = {srSenderId req} \<and>
    sLog (st w') = sLog (st w) @ [store_record C req (build_msg req conv i (seq_view (st w) conv + 1) ts)]"
  by (rule send_deps.panic_spec [OF send_deps_wired [OF assms(1)] assms(2-5)])

theorem sendMsg_panics_witness:
  "\<exists>n' w' r. sendMsg demo_server text_codec (demo_req ''m3'' ''g:8'' 2) demo_node (demo_world []) = (Panic, n', w') \<and>
    sLog (mem_st w') = sLog (mem_st (demo_world [])) @ [r]"
proof -
  from demo_lonely obtain n' w' where
    s: "sendMsg demo_server text_codec (demo_req ''m3'' ''g:8'' 2) demo_node (demo_world []) = (Panic, n', w')" by blast
  from sendMsg_panics [OF memt.timed_services_axioms demo_ok demo_node_ok s [unfolded demo_server_def]] s
  show ?thesis by blast
qed


end
