(* ===== verification/Sha256.thy ===== *)
theory Sha256
  imports Prelude
begin

unbundle bit_operations_syntax

text \<open>
  The standard library's \<open>crypto/sha256\<close> as \<open>sha256.Sum256\<close> computes it: padding to blocks of 64
  bytes, the message schedule, 64 rounds on eight 32-bit words. The program takes the first half of
  a digest as a cache key and whole digests for stored tokens.
\<close>

definition sha_K :: "u32 list" where
  "sha_K =
    [1116352408, 1899447441, 3049323471, 3921009573, 961987163, 1508970993, 2453635748, 2870763221,
     3624381080, 310598401, 607225278, 1426881987, 1925078388, 2162078206, 2614888103, 3248222580,
     3835390401, 4022224774, 264347078, 604807628, 770255983, 1249150122, 1555081692, 1996064986,
     2554220882, 2821834349, 2952996808, 3210313671, 3336571891, 3584528711, 113926993, 338241895,
     666307205, 773529912, 1294757372, 1396182291, 1695183700, 1986661051, 2177026350, 2456956037,
     2730485921, 2820302411, 3259730800, 3345764771, 3516065817, 3600352804, 4094571909, 275423344,
     430227734, 506948616, 659060556, 883997877, 958139571, 1322822218, 1537002063, 1747873779,
     1955562222, 2024104815, 2227730452, 2361852424, 2428436474, 2756734187, 3204031479, 3329325298]"

definition sha_init :: "u32 list" where
  "sha_init = [1779033703, 3144134277, 1013904242, 2773480762, 1359893119, 2600822924, 528734635, 1541459225]"

definition rotr :: "nat \<Rightarrow> u32 \<Rightarrow> u32" where
  "rotr n x = drop_bit n x OR push_bit (32 - n) x"

definition sig0 :: "u32 \<Rightarrow> u32" where "sig0 x = rotr 7 x XOR rotr 18 x XOR drop_bit 3 x"
definition sig1 :: "u32 \<Rightarrow> u32" where "sig1 x = rotr 17 x XOR rotr 19 x XOR drop_bit 10 x"
definition Sig0 :: "u32 \<Rightarrow> u32" where "Sig0 x = rotr 2 x XOR rotr 13 x XOR rotr 22 x"
definition Sig1 :: "u32 \<Rightarrow> u32" where "Sig1 x = rotr 6 x XOR rotr 11 x XOR rotr 25 x"

definition be64 :: "u64 \<Rightarrow> bytes" where
  "be64 n = map (\<lambda>i. ucast (drop_bit (8 * (7 - i)) n)) [0..<8]"

definition sha_pad :: "bytes \<Rightarrow> bytes" where
  "sha_pad m = m @ [0x80] @ replicate ((119 - length m mod 64) mod 64) 0 @ be64 (of_nat (8 * length m))"

definition word_be :: "bytes \<Rightarrow> u32" where
  "word_be bs = foldl (\<lambda>a b. push_bit 8 a OR ucast b) 0 bs"

fun sha_schedule :: "nat \<Rightarrow> u32 list \<Rightarrow> u32 list" where
  "sha_schedule 0 w = w"
| "sha_schedule (Suc n) w =
     (let t = length w
      in sha_schedule n (w @ [sig1 (w ! (t - 2)) + w ! (t - 7) + sig0 (w ! (t - 15)) + w ! (t - 16)]))"

definition sha_round :: "u32 list \<Rightarrow> u32 \<times> u32 \<Rightarrow> u32 list" where
  "sha_round s kw =
     (let a = s ! 0; b = s ! 1; c = s ! 2; d = s ! 3; e = s ! 4; f = s ! 5; g = s ! 6; h = s ! 7;
          t1 = h + Sig1 e + ((e AND f) XOR (NOT e AND g)) + fst kw + snd kw;
          t2 = Sig0 a + ((a AND b) XOR (a AND c) XOR (b AND c))
      in [t1 + t2, a, b, c, d + t1, e, f, g])"

definition sha_block :: "u32 list \<Rightarrow> bytes \<Rightarrow> u32 list" where
  "sha_block h blk =
     (let w = sha_schedule 48 (map (\<lambda>i. word_be (take 4 (drop (4 * i) blk))) [0..<16])
      in map2 (+) h (foldl sha_round h (zip sha_K w)))"

fun sha_blocks :: "nat \<Rightarrow> u32 list \<Rightarrow> bytes \<Rightarrow> u32 list" where
  "sha_blocks 0 h m = h"
| "sha_blocks (Suc n) h m = sha_blocks n (sha_block h (take 64 m)) (drop 64 m)"

definition be32 :: "u32 \<Rightarrow> bytes" where
  "be32 x = map (\<lambda>i. ucast (drop_bit (8 * (3 - i)) x)) [0..<4]"

definition Sum256 :: "bytes \<Rightarrow> bytes" where
  "Sum256 m = (let p = sha_pad m in concat (map be32 (sha_blocks (length p div 64) sha_init p)))"

section \<open>Lengths\<close>

lemma length_sha_round: "length (sha_round s kw) = 8"
  by (simp add: sha_round_def Let_def)

lemma length_fold_sha_round: "length s = 8 \<Longrightarrow> length (foldl sha_round s ks) = 8"
  by (induction ks arbitrary: s) (simp_all add: length_sha_round)

lemma length_sha_blocks: "length h = 8 \<Longrightarrow> length (sha_blocks n h m) = 8"
  by (induction n arbitrary: h m) (simp_all add: sha_block_def Let_def length_fold_sha_round)

lemma length_Sum256 [simp]: "length (Sum256 m) = 32"
proof -
  have "length (sha_blocks n sha_init p) = 8" for n p
    by (rule length_sha_blocks) (simp add: sha_init_def)
  then show ?thesis by (simp add: Sum256_def Let_def length_concat comp_def be32_def sum_list_triv)
qed

end
