(* ===== verification/LogicToken.thy ===== *)
theory LogicToken
  imports LogicDeps Sha256
begin

text \<open>
  Token verification in the logic server: \<^verbatim>\<open>internal/logic/token.go\<close>, \<open>VerifyToken\<close> of
  \<^verbatim>\<open>server.go\<close> and the HTTP client of \<^verbatim>\<open>httpverifier.go\<close>. The account service's answers are a
  parameter; \<open>owner\<close> says whom a token belongs to. The lemmas: with a cache that only says yes for
  tokens of the claimed user, and an account service that only says yes to owners, a valid answer to
  a claimed user is right and the cache stays so; a request that claims no user (uid 0) is answered
  with user 0 from the cache.
\<close>

section \<open>Codes and keys\<close>

definition tokenCacheTTL :: int where "tokenCacheTTL = 5 * 60 * 1000"
definition cacheValValid :: string where "cacheValValid = ''1''"
definition cacheValInvalid :: string where "cacheValInvalid = ''0''"
definition CodeOK :: int where "CodeOK = 0"
definition CodeInvalidTok :: int where "CodeInvalidTok = 40101"
definition CodeAccountDown :: int where "CodeAccountDown = 50102"

definition TokenCacheKey :: "int \<Rightarrow> string \<Rightarrow> string" where
  "TokenCacheKey uid token =
     ''tokencache:'' @ format_int uid @ '':'' @ EncodeToString (take 16 (Sum256 (bytes_of token)))"

section \<open>The flow\<close>

text \<open>The part after a cache miss: ask the account service, check the claimed user, fill the cache.\<close>

definition verify_origin :: "'w Server \<Rightarrow> int \<Rightarrow> string \<Rightarrow> 'w \<Rightarrow> (int \<times> bool \<times> int) \<times> 'w" where
  "verify_origin S uid token w =
     (case vVerifier S uid token w of
        (Inl e, w1) \<Rightarrow> ((0, False, CodeAccountDown), w1)
      | (Inr (realUID, valid0), w1) \<Rightarrow>
          (let valid = (valid0 \<and> \<not> (uid \<noteq> 0 \<and> realUID \<noteq> uid));
               code = (if valid then CodeOK else CodeInvalidTok);
               val = (if valid then cacheValValid else cacheValInvalid)
           in case cSet (vCache S) (TokenCacheKey uid token) val tokenCacheTTL w1 of
                (_, w2) \<Rightarrow> ((realUID, valid, code), w2)))"

definition verifyTokenFlow :: "'w Server \<Rightarrow> int \<Rightarrow> string \<Rightarrow> 'w \<Rightarrow> (int \<times> bool \<times> int) \<times> 'w" where
  "verifyTokenFlow S uid token w =
     (case cGet (vCache S) (TokenCacheKey uid token) w of
        (Inl e, w1) \<Rightarrow> verify_origin S uid token w1
      | (Inr cached, w1) \<Rightarrow>
          if cached \<noteq> [] then
            (let valid = (cached = cacheValValid);
                 code = (if valid then CodeOK else CodeInvalidTok)
             in ((uid, valid, code), w1))
          else verify_origin S uid token w1)"

definition VerifyToken :: "'w Server \<Rightarrow> VerifyTokenReq \<Rightarrow> 'w \<Rightarrow> VerifyTokenResp \<times> 'w" where
  "VerifyToken S req w =
     (if vtqToken req = [] then (\<lparr>vtrValid = False, vtrCode = CodeInvalidTok, vtrUid = 0\<rparr>, w)
      else case verifyTokenFlow S (vtqUid req) (vtqToken req) w of
        ((uid, valid, code), w') \<Rightarrow> (\<lparr>vtrValid = valid, vtrCode = code, vtrUid = uid\<rparr>, w'))"

section \<open>The account client\<close>

text \<open>
  \<open>HTTPVerifier\<close>: the request body and the response body go through \<open>encoding/json\<close>, the exchange
  through \<open>net/http\<close> and the network; these three are parameters.
\<close>

record accountVerifyResponse =
  avCode :: int
  avMsg :: string
  avUID :: int
  avValid :: bool

record 'w HTTPVerifier =
  hvAddr :: string
  hvMarshal :: "string \<Rightarrow> string result"
  hvNewRequest :: "string \<Rightarrow> error option"
  hvDo :: "string \<Rightarrow> string \<Rightarrow> ('w, int \<times> string) call"
  hvDecode :: "string \<Rightarrow> accountVerifyResponse result"

definition maxVerifyBody :: nat where "maxVerifyBody = 2 ^ 20"

definition HTTPVerifier_Verify :: "'w HTTPVerifier \<Rightarrow> 'w Verifier" where
  "HTTPVerifier_Verify v uid token w =
     (case hvMarshal v token of
        Inl e \<Rightarrow> (Inl (errorf ''logic: marshal verify req'' e), w)
      | Inr body \<Rightarrow>
        (let url = hvAddr v @ ''/internal/v1/verify'' in
         case hvNewRequest v url of
           Some e \<Rightarrow> (Inl (errorf ''logic: build verify req'' e), w)
         | None \<Rightarrow>
           (case hvDo v url body w of
              (Inl e, w1) \<Rightarrow> (Inl (errorf (''logic: post '' @ url) e), w1)
            | (Inr (status, resp), w1) \<Rightarrow>
                if status < 200 \<or> status \<ge> 300
                then (Inl (Err (''logic: '' @ url @ '' returned status '' @ format_int status)), w1)
                else (case hvDecode v (take maxVerifyBody resp) of
                  Inl e \<Rightarrow> (Inl (errorf ''logic: decode verify resp'' e), w1)
                | Inr out \<Rightarrow> (Inr (avUID out, avValid out), w1)))))"

lemma HTTPVerifier_fails:
  assumes "\<forall>url body w. \<exists>res w'. hvDo v url body w = (res, w') \<and> st w' = st w \<and>
      (\<forall>status b. res = Inr (status, b) \<longrightarrow> status < 200 \<or> 300 \<le> status \<or> isl (hvDecode v (take maxVerifyBody b)))"
    and "HTTPVerifier_Verify v uid token w = (res, w')"
  shows "isl res \<and> st w' = st w"
proof (cases "hvMarshal v token")
  case (Inl e)
  with assms(2) show ?thesis by (auto simp: HTTPVerifier_Verify_def)
next
  case (Inr body)
  let ?url = "hvAddr v @ ''/internal/v1/verify''"
  obtain r w1 where d: "hvDo v ?url body w = (r, w1)" by (cases "hvDo v ?url body w")
  with assms(1) have "st w1 = st w" "\<And>status b. r = Inr (status, b) \<Longrightarrow>
      status < 200 \<or> 300 \<le> status \<or> isl (hvDecode v (take maxVerifyBody b))" by (metis Pair_inject)+
  with assms(2) Inr d show ?thesis
    by (cases "hvNewRequest v ?url"; cases r) (fastforce simp: HTTPVerifier_Verify_def Let_def split: sum.splits if_splits)+
qed

section \<open>Keys\<close>

lemma hex_digit_inject: "a < 16 \<Longrightarrow> b < 16 \<Longrightarrow> hex_digit a = hex_digit b \<Longrightarrow> a = b"
proof -
  have less: "a = 0 \<or> a = 1 \<or> a = 2 \<or> a = 3 \<or> a = 4 \<or> a = 5 \<or> a = 6 \<or> a = 7 \<or> a = 8 \<or> a = 9 \<or>
      a = 10 \<or> a = 11 \<or> a = 12 \<or> a = 13 \<or> a = 14 \<or> a = 15" if "a < 16" for a :: nat
    using that by arith
  have val: "of_char (hex_digit a) = (if a < 10 then 48 + a else 87 + a)" if "a < 16" for a
    using less [OF that] by (elim disjE) (simp_all add: hex_digit_def digit_char_def)
  assume "a < 16" "b < 16" "hex_digit a = hex_digit b"
  then have "(if a < 10 then 48 + a else 87 + a) = (if b < 10 then 48 + b else 87 + b)"
    using val by metis
  then show "a = b" using \<open>a < 16\<close> \<open>b < 16\<close> by (auto split: if_splits)
qed

lemma EncodeToString_Cons:
  "EncodeToString (b # bs) = hex_digit (unat b div 16) # hex_digit (unat b mod 16) # EncodeToString bs"
  by (simp add: EncodeToString_def)

lemma EncodeToString_inject: "EncodeToString xs = EncodeToString ys \<Longrightarrow> xs = ys"
proof (induction xs arbitrary: ys)
  case Nil
  then show ?case by (cases ys) (simp_all add: EncodeToString_def)
next
  case (Cons x xs)
  then obtain y ys' where ys: "ys = y # ys'" by (cases ys) (auto simp: EncodeToString_def)
  have small: "unat b div 16 < 16" for b :: byte using unsigned_less [where 'a = nat, of b] by simp
  from Cons.prems ys have "hex_digit (unat x div 16) = hex_digit (unat y div 16)"
    "hex_digit (unat x mod 16) = hex_digit (unat y mod 16)" "EncodeToString xs = EncodeToString ys'"
    by (simp_all add: EncodeToString_Cons)
  then have "unat x div 16 = unat y div 16" "unat x mod 16 = unat y mod 16" "xs = ys'"
    using small Cons.IH by (auto intro: hex_digit_inject)
  then have "unat x = unat y" by (metis div_mult_mod_eq)
  with \<open>xs = ys'\<close> show ?case by (simp add: ys word_unat_eq_iff)
qed

lemma TokenCacheKey_eq_iff:
  "TokenCacheKey u t = TokenCacheKey u' t' \<longleftrightarrow>
     u = u' \<and> take 16 (Sum256 (bytes_of t)) = take 16 (Sum256 (bytes_of t'))"
  using prefix_colon_inject [of "format_int u" "format_int u'"]
  by (auto simp: TokenCacheKey_def dest: EncodeToString_inject)

section \<open>Soundness of the cache\<close>

text \<open>
  The tokens in use have different key digests, the account service answers yes only to owners and
  changes nothing, and a cached yes is right.
\<close>

definition digests_differ :: "string set \<Rightarrow> bool" where
  "digests_differ T \<longleftrightarrow> inj_on (\<lambda>t. take 16 (Sum256 (bytes_of t))) T"

definition verifier_sound :: "('w \<Rightarrow> svc) \<Rightarrow> (string \<Rightarrow> int option) \<Rightarrow> 'w Verifier \<Rightarrow> bool" where
  "verifier_sound st owner V \<longleftrightarrow> (\<forall>u t w res w'. V u t w = (res, w') \<longrightarrow>
     st w' = st w \<and> (\<forall>r. res = Inr (r, True) \<longrightarrow> owner t = Some r))"

definition cached_yes_right :: "(string \<Rightarrow> int option) \<Rightarrow> string set \<Rightarrow> svc \<Rightarrow> bool" where
  "cached_yes_right owner T s \<longleftrightarrow> (\<forall>u. \<forall>t \<in> T. sKeys s (TokenCacheKey u t) = Some (VStr cacheValValid) \<longrightarrow>
     (\<exists>r. owner t = Some r \<and> (u \<noteq> 0 \<longrightarrow> r = u)))"

context services
begin

lemma verify_origin_sound:
  assumes "vCache S = redisCache R" and "verifier_sound st owner (vVerifier S)" and "digests_differ T"
    and "cached_yes_right owner T (st w)" and "token \<in> T" and "verify_origin S uid token w = ((r, valid, code), w')"
  shows "cached_yes_right owner T (st w') \<and> (valid \<longrightarrow> owner token = Some r \<and> (uid \<noteq> 0 \<longrightarrow> r = uid)) \<and>
    (code = CodeOK \<longleftrightarrow> valid)"
proof -
  obtain v w1 where v: "vVerifier S uid token w = (v, w1)" by (cases "vVerifier S uid token w")
  with assms(2) have w1: "st w1 = st w" "\<And>q. v = Inr (q, True) \<Longrightarrow> owner token = Some q"
    unfolding verifier_sound_def by blast+
  show ?thesis
  proof (cases v)
    case (Inl e)
    with assms v w1 show ?thesis by (auto simp: verify_origin_def CodeAccountDown_def CodeOK_def)
  next
    case (Inr p)
    obtain q b where p: "p = (q, b)" by (cases p)
    define ok where "ok = (b \<and> \<not> (uid \<noteq> 0 \<and> q \<noteq> uid))"
    let ?val = "if ok then cacheValValid else cacheValInvalid"
    obtain x w2 where c: "rSet R (TokenCacheKey uid token) ?val tokenCacheTTL w1 = (x, w2)"
      by (cases "rSet R (TokenCacheKey uid token) ?val tokenCacheTTL w1")
    have res: "r = q" "valid = ok" "code = (if ok then CodeOK else CodeInvalidTok)" "w' = w2"
      using assms(1,6) v Inr p c unfolding verify_origin_def by (auto simp: ok_def redisCache_def Let_def)
    have own: "ok \<Longrightarrow> owner token = Some q \<and> (uid \<noteq> 0 \<longrightarrow> q = uid)" using w1(2) Inr p by (auto simp: ok_def)
    note upd = Set [OF c, unfolded wrote_key_def w1(1)]
    have new: "st w2 \<noteq> st w \<Longrightarrow> sKeys (st w2) (TokenCacheKey uid token) = Some (VStr ?val)" using upd by blast
    have old: "st w2 = st w \<or> k \<noteq> TokenCacheKey uid token \<Longrightarrow> sKeys (st w2) k = sKeys (st w) k" for k
      using upd by metis
    have "cached_yes_right owner T (st w2)"
      unfolding cached_yes_right_def
    proof (intro allI ballI impI)
      fix u t
      assume t: "t \<in> T" and yes: "sKeys (st w2) (TokenCacheKey u t) = Some (VStr cacheValValid)"
      show "\<exists>r. owner t = Some r \<and> (u \<noteq> 0 \<longrightarrow> r = u)"
      proof (cases "TokenCacheKey u t = TokenCacheKey uid token \<and> st w2 \<noteq> st w")
        case True
        with assms(3,5) t have "u = uid" "t = token"
          by (auto simp: TokenCacheKey_eq_iff digests_differ_def inj_on_def)
        moreover have ok using True new yes by (cases ok) (simp_all add: cacheValValid_def cacheValInvalid_def)
        ultimately show ?thesis using own by auto
      next
        case False
        then have "sKeys (st w2) (TokenCacheKey u t) = sKeys (st w) (TokenCacheKey u t)" using old by blast
        with yes t assms(4) show ?thesis unfolding cached_yes_right_def by metis
      qed
    qed
    with res own show ?thesis by (auto simp: CodeOK_def CodeInvalidTok_def)
  qed
qed

lemma verifyTokenFlow_sound:
  assumes "vCache S = redisCache R" and "verifier_sound st owner (vVerifier S)" and "digests_differ T"
    and "cached_yes_right owner T (st w)" and "token \<in> T" and "verifyTokenFlow S uid token w = ((r, valid, code), w')"
  shows "cached_yes_right owner T (st w') \<and> (code = CodeOK \<longleftrightarrow> valid) \<and>
    (valid \<longrightarrow> owner token \<noteq> None \<and> (uid \<noteq> 0 \<longrightarrow> r = uid \<and> owner token = Some uid) \<and> (r \<noteq> 0 \<longrightarrow> owner token = Some r))"
proof -
  obtain g w1 where g: "redis_get R (TokenCacheKey uid token) w = (g, w1)"
    by (cases "redis_get R (TokenCacheKey uid token) w")
  then have w1: "st w1 = st w" "\<And>v. g = Inr v \<Longrightarrow> v \<noteq> [] \<Longrightarrow> sKeys (st w) (TokenCacheKey uid token) = Some (VStr v)"
    using Get by (auto simp: redis_get_def split: prod.splits sum.splits if_splits)
  show ?thesis
  proof (cases "\<exists>v. g = Inr v \<and> v \<noteq> []")
    case True
    then obtain v where v: "g = Inr v" "v \<noteq> []" by blast
    with assms(1,6) g have "r = uid" "valid = (v = cacheValValid)" "w' = w1" "code = (if valid then CodeOK else CodeInvalidTok)"
      by (auto simp: verifyTokenFlow_def redisCache_def Let_def)
    moreover have "owner token \<noteq> None \<and> (uid \<noteq> 0 \<longrightarrow> owner token = Some uid)" if "v = cacheValValid"
      using that w1(2) [OF v] assms(4,5) unfolding cached_yes_right_def by fastforce
    ultimately show ?thesis using assms(4) w1(1) by (auto simp: CodeOK_def CodeInvalidTok_def)
  next
    case False
    then have "verify_origin S uid token w1 = ((r, valid, code), w')"
      using assms(1,6) g by (auto simp: verifyTokenFlow_def redisCache_def split: sum.splits if_splits)
    from verify_origin_sound [OF assms(1-3) _ assms(5) this] assms(4) w1(1) show ?thesis by auto
  qed
qed

end

section \<open>Properties\<close>


definition demo_owner :: "string \<Rightarrow> int option" where
  "demo_owner t = (if t = ''tok'' then Some 42 else None)"

definition demo_verifier :: "mem Verifier" where
  "demo_verifier u t m = (Inr (if t = ''tok'' then (42, True) else (0, False)), m)"

definition demo_token_server :: "mem Server" where
  "demo_token_server = NewServer mem_redis mem_mysql demo_entropy mem_kafka demo_verifier demo_sync mem_now"

lemmas token_eval =
  VerifyToken_def verifyTokenFlow_def verify_origin_def demo_token_server_def NewServer_def redisCache_def redis_get_def
  mem_redis_def mem_call_def mem_put_def demo_verifier_def demo_world_def Let_def


text \<open>
  When the account service cannot be reached, or answers with an error status or a body that does
  not decode, the answer is the code 50102, never valid, and nothing is cached.
\<close>

theorem account_failure_not_cached:
  assumes "services R M P now st" and "vtqToken req \<noteq> []"
    and "sKeys (st w) (TokenCacheKey (vtqUid req) (vtqToken req)) = None"
    and "\<forall>url body w. \<exists>res w'. hvDo v url body w = (res, w') \<and> st w' = st w \<and>
      (\<forall>status b. res = Inr (status, b) \<longrightarrow> status < 200 \<or> 300 \<le> status \<or> isl (hvDecode v (take maxVerifyBody b)))"
    and "VerifyToken (NewServer R M E P (HTTPVerifier_Verify v) Y now) req w = (resp, w')"
  shows "resp = \<lparr>vtrValid = False, vtrCode = CodeAccountDown, vtrUid = 0\<rparr> \<and> st w' = st w"
proof -
  let ?k = "TokenCacheKey (vtqUid req) (vtqToken req)"
  obtain g w1 where g: "rGet R ?k w = (g, w1)" by (cases "rGet R ?k w")
  from services.Get [OF assms(1) g] assms(3) have w1: "st w1 = st w" "\<And>x. g \<noteq> Inr x" by auto
  obtain y w2 where y: "HTTPVerifier_Verify v (vtqUid req) (vtqToken req) w1 = (y, w2)"
    by (cases "HTTPVerifier_Verify v (vtqUid req) (vtqToken req) w1")
  have f: "isl y \<and> st w2 = st w1" using y HTTPVerifier_fails [OF assms(4)] by blast
  from assms(2,5) g w1 y f show ?thesis
    by (auto simp: VerifyToken_def verifyTokenFlow_def verify_origin_def NewServer_def redisCache_def redis_get_def
        split: sum.splits if_splits)
qed

definition demo_http :: "int \<Rightarrow> mem HTTPVerifier" where
  "demo_http status = \<lparr>hvAddr = ''http://account'', hvMarshal = \<lambda>t. Inr t, hvNewRequest = \<lambda>u. None,
     hvDo = \<lambda>u b m. (Inr (status, []), m), hvDecode = \<lambda>b. Inl (Err ''EOF'')\<rparr>"

theorem account_failure_not_cached_witness:
  "\<exists>w'. VerifyToken (NewServer mem_redis mem_mysql demo_entropy mem_kafka (HTTPVerifier_Verify (demo_http 503)) demo_sync mem_now)
      \<lparr>vtqUid = 42, vtqToken = ''tok''\<rparr> (demo_world []) = (\<lparr>vtrValid = False, vtrCode = CodeAccountDown, vtrUid = 0\<rparr>, w') \<and>
    mem_st w' = mem_st (demo_world [])"
proof -
  let ?S = "NewServer mem_redis mem_mysql demo_entropy mem_kafka (HTTPVerifier_Verify (demo_http 503)) demo_sync mem_now"
  obtain resp w' where v: "VerifyToken ?S \<lparr>vtqUid = 42, vtqToken = ''tok''\<rparr> (demo_world []) = (resp, w')"
    by (metis surj_pair)
  have "resp = \<lparr>vtrValid = False, vtrCode = CodeAccountDown, vtrUid = 0\<rparr> \<and> mem_st w' = mem_st (demo_world [])"
    by (rule account_failure_not_cached [OF mem.services_axioms _ _ _ v])
      (simp_all add: demo_http_def mem_st_def demo_world_def)
  with v show ?thesis by blast
qed

text \<open>
  A request that claims no user is answered with the owner of the token the first time, and with
  user 0 as a valid user when the answer comes from the cache.
\<close>

theorem unclaimed_token_becomes_user_0:
  "\<exists>w1 w2. VerifyToken demo_token_server \<lparr>vtqUid = 0, vtqToken = ''tok''\<rparr> (demo_world [])
      = (\<lparr>vtrValid = True, vtrCode = CodeOK, vtrUid = 42\<rparr>, w1) \<and>
    VerifyToken demo_token_server \<lparr>vtqUid = 0, vtqToken = ''tok''\<rparr> w1
      = (\<lparr>vtrValid = True, vtrCode = CodeOK, vtrUid = 0\<rparr>, w2)"
  by (simp add: token_eval cacheValValid_def)

end
