(* ===== verification/Sync.thy ===== *)
theory Sync
  imports SendMsg LogicToken
begin

text \<open>
  Offline synchronisation in the logic server: the handlers of \<^verbatim>\<open>internal/logic/sync.go\<close> and
  \<^verbatim>\<open>delivered.go\<close> and the MySQL store behind them. The queries and the update are functions on the
  tables. Shown: a page is the next messages of the conversation in order and without gaps, only
  members get it, the read cursor never goes back and the unread count never goes below zero.
\<close>

section \<open>The MySQL store\<close>

definition syncMaxLimit :: int where "syncMaxLimit = 100"

text \<open>\<open>SELECT .. FROM message_xx WHERE conv_id = ? AND seq > ? ORDER BY seq ASC LIMIT ?\<close>\<close>

definition select_messages :: "string \<Rightarrow> string \<Rightarrow> int \<Rightarrow> int \<Rightarrow> tables \<Rightarrow> message_row list" where
  "select_messages table convID afterSeq limit T =
     take (nat limit) (sort_key msSeq (filter (\<lambda>r. msConv r = convID \<and> msSeq r > afterSeq) (tMsg T table)))"

definition pbmsg_of_row :: "message_row \<Rightarrow> PbMsg" where
  "pbmsg_of_row r =
     \<lparr>pmMsgId = format_int (int (msId r)), pmConvId = msConv r, pmConvType = 1, pmSenderId = msSender r,
      pmMsgType = msType r, pmPayload = msPayload r, pmSeq = msSeq r, pmTimestamp = msCreated r, pmStatus = msStatus r\<rparr>"

definition convMemberUID :: "string \<Rightarrow> int" where
  "convMemberUID convID = (case ParseP2PConv convID of Inl e \<Rightarrow> 0 | Inr (a, b) \<Rightarrow> a)"

text \<open>\<open>SELECT last_seq FROM conversation WHERE uid = ? AND conv_id = ?\<close>; \<open>None\<close> is \<open>sql.ErrNoRows\<close>.\<close>

definition select_last_seq :: "int \<Rightarrow> string \<Rightarrow> tables \<Rightarrow> int option" where
  "select_last_seq uid convID T =
     map_option cvLast (List.find (\<lambda>r. cvUid r = uid \<and> cvConv r = convID) (tConv T))"

definition PullMessages :: "'w mysql \<Rightarrow> int \<Rightarrow> string \<Rightarrow> int \<Rightarrow> int \<Rightarrow> ('w, PbMsg list \<times> int) call" where
  "PullMessages M uid convID afterSeq limit w =
     (case mQuery M w of
        (Inl e, w1) \<Rightarrow> (Inl (errorf ''logic: select messages'' e), w1)
      | (Inr T, w1) \<Rightarrow>
          (let msgs = map pbmsg_of_row (select_messages (ShardTable convID) convID afterSeq limit T) in
           case mQuery M w1 of
             (Inl e, w2) \<Rightarrow> (Inr (msgs, 0), w2)
           | (Inr T2, w2) \<Rightarrow>
               (case select_last_seq (convMemberUID convID) convID T2 of
                  None \<Rightarrow> (Inr (msgs, 0), w2)
                | Some maxSeq \<Rightarrow> (Inr (msgs, maxSeq), w2))))"

text \<open>\<open>SELECT .. FROM conversation WHERE uid = ? AND last_seq > read_seq\<close>\<close>

definition select_pending :: "int \<Rightarrow> tables \<Rightarrow> conv_row list" where
  "select_pending uid T = filter (\<lambda>r. cvUid r = uid \<and> cvLast r > cvRead r) (tConv T)"

definition brief_of_row :: "conv_row \<Rightarrow> ConvBrief" where
  "brief_of_row r = \<lparr>cbConvId = cvConv r, cbConvType = cvType r, cbMaxSeq = cvLast r, cbUnread = cvUnread r\<rparr>"

definition PendingConvs :: "'w mysql \<Rightarrow> int \<Rightarrow> ('w, ConvBrief list) call" where
  "PendingConvs M uid w =
     (case mQuery M w of
        (Inl e, w1) \<Rightarrow> (Inl (errorf ''logic: select pending convs'' e), w1)
      | (Inr T, w1) \<Rightarrow> (Inr (map brief_of_row (select_pending uid T)), w1))"

text \<open>
  \<open>UPDATE conversation SET unread = GREATEST(unread - (? - read_seq), 0), read_seq = ? WHERE uid = ?
  AND conv_id = ? AND read_seq < ?\<close>: MySQL evaluates the assignments from left to right.
\<close>

definition mark_read_row :: "int \<Rightarrow> conv_row \<Rightarrow> conv_row" where
  "mark_read_row sq r = (let r' = r\<lparr>cvUnread := max (cvUnread r - (sq - cvRead r)) 0\<rparr> in r'\<lparr>cvRead := sq\<rparr>)"

definition update_read :: "int \<Rightarrow> string \<Rightarrow> int \<Rightarrow> tables \<Rightarrow> tables" where
  "update_read uid convID sq T =
     T\<lparr>tConv := map (\<lambda>r. if cvUid r = uid \<and> cvConv r = convID \<and> cvRead r < sq then mark_read_row sq r else r) (tConv T)\<rparr>"

definition Sync_MarkRead :: "'w mysql \<Rightarrow> int \<Rightarrow> string \<Rightarrow> int \<Rightarrow> ('w, unit) call" where
  "Sync_MarkRead M uid convID sq w =
     (case mExec M (\<lambda>T. Inr (update_read uid convID sq T)) w of
        (Inl e, w1) \<Rightarrow> (Inl (errorf ''logic: mark read'' e), w1)
      | (Inr _, w1) \<Rightarrow> (Inr (), w1))"

definition MySQLSyncStore :: "'w mysql \<Rightarrow> 'w SyncStore" where
  "MySQLSyncStore M =
     \<lparr>ssPullMessages = PullMessages M, ssPendingConvs = PendingConvs M, ssMarkRead = Sync_MarkRead M\<rparr>"

section \<open>The handlers\<close>

definition clampLimit :: "int \<Rightarrow> int" where
  "clampLimit n = (if n < 1 then 1 else if n > syncMaxLimit then syncMaxLimit else n)"

definition checkSyncMember :: "'w Server \<Rightarrow> int \<Rightarrow> string \<Rightarrow> ('w, unit) call" where
  "checkSyncMember S uid convID w =
     (case ParseGroupConv convID of
        Inr gid \<Rightarrow>
          (case vMembers S of
             None \<Rightarrow> (Inl (Err ''logic: no member source''), w)
           | Some ms \<Rightarrow>
               (case gsIsMember ms gid uid w of
                  (Inl e, w1) \<Rightarrow> (Inl (Err ''logic: not group member''), w1)
                | (Inr isMember, w1) \<Rightarrow>
                    if isMember then (Inr (), w1) else (Inl (Err ''logic: not group member''), w1)))
      | Inl e \<Rightarrow>
          (case ParseP2PConv convID of
             Inl e \<Rightarrow> (Inl (Err ''logic: not conv member''), w)
           | Inr (a, b) \<Rightarrow>
               if uid \<noteq> a \<and> uid \<noteq> b then (Inl (Err ''logic: not conv member''), w) else (Inr (), w)))"

definition pull_code :: "int \<Rightarrow> SyncPullResp" where
  "pull_code c = \<lparr>yrCode = c, yrMessages = [], yrMaxSeq = 0\<rparr>"

definition SyncPull :: "'w Server \<Rightarrow> SyncPullReq \<Rightarrow> 'w \<Rightarrow> SyncPullResp \<times> 'w" where
  "SyncPull S req w =
     (let uid = yqUid req in
      if uid \<le> 0 then (pull_code CodeBadParam, w)
      else let limit = clampLimit (yqLimit req) in
        case checkSyncMember S uid (yqConvId req) w of
          (Inl e, w1) \<Rightarrow> (pull_code CodeBadParam, w1)
        | (Inr _, w1) \<Rightarrow>
            (case ssPullMessages (vSync S) uid (yqConvId req) (yqLocalMaxSeq req) limit w1 of
               (Inl e, w2) \<Rightarrow> (pull_code CodeRedisErr, w2)
             | (Inr (msgs, maxSeq), w2) \<Rightarrow> (\<lparr>yrCode = 0, yrMessages = msgs, yrMaxSeq = maxSeq\<rparr>, w2)))"

definition GetPendingConvs :: "'w Server \<Rightarrow> PendingReq \<Rightarrow> 'w \<Rightarrow> PendingResp \<times> 'w" where
  "GetPendingConvs S req w =
     (if pqUid req \<le> 0 then (\<lparr>prConvs = []\<rparr>, w)
      else case ssPendingConvs (vSync S) (pqUid req) w of
        (Inl e, w1) \<Rightarrow> (\<lparr>prConvs = []\<rparr>, w1)
      | (Inr convs, w1) \<Rightarrow> (\<lparr>prConvs = convs\<rparr>, w1))"

definition MarkRead :: "'w Server \<Rightarrow> MarkReadReq \<Rightarrow> 'w \<Rightarrow> 'w" where
  "MarkRead S req w =
     (if mrUid req \<le> 0 \<or> mrConvId req = [] \<or> mrSeq req < 0 then w
      else snd (ssMarkRead (vSync S) (mrUid req) (mrConvId req) (mrSeq req) w))"

definition presenceTTLOnEvent :: int where "presenceTTLOnEvent = 90 * 1000"

definition OnlineEvent :: "'w Server \<Rightarrow> OnlineEventReq \<Rightarrow> 'w \<Rightarrow> PendingResp \<times> 'w" where
  "OnlineEvent S req w =
     (if oeUid req \<le> 0 then (\<lparr>prConvs = []\<rparr>, w)
      else if \<not> oeOnline req then (\<lparr>prConvs = []\<rparr>, w)
      else
        (let w2 = (case vRdb S of
             None \<Rightarrow> w
           | Some rdb \<Rightarrow>
               (let pKey = PresenceKey (oeUid req) in
                case rExists rdb pKey w of
                  (Inr exist, w1) \<Rightarrow> if exist = 0 then snd (rSet rdb pKey ''online'' presenceTTLOnEvent w1) else w1
                | (Inl e, w1) \<Rightarrow> w1))
         in case ssPendingConvs (vSync S) (oeUid req) w2 of
              (Inl e, w3) \<Rightarrow> (\<lparr>prConvs = []\<rparr>, w3)
            | (Inr convs, w3) \<Rightarrow> (\<lparr>prConvs = convs\<rparr>, w3)))"

definition deliveredTTL :: int where "deliveredTTL = 24 * 3600 * 1000"

definition ReportDelivered :: "'w Server \<Rightarrow> ReportDeliveredReq \<Rightarrow> 'w \<Rightarrow> 'w" where
  "ReportDelivered S req w =
     (if rdUid req \<le> 0 \<or> rdMsgId req = [] then w
      else snd (cSet (vCache S) (DeliveredKey (rdUid req) (rdMsgId req)) ''1'' deliveredTTL w))"

section \<open>Pages\<close>

lemma clampLimit_range: "1 \<le> clampLimit n \<and> clampLimit n \<le> 100 \<and> (1 \<le> n \<and> n \<le> 100 \<longrightarrow> clampLimit n = n)"
  by (simp add: clampLimit_def syncMaxLimit_def)

text \<open>The messages a conversation has stored after a sequence number, in order.\<close>

definition stored_after :: "string \<Rightarrow> int \<Rightarrow> tables \<Rightarrow> message_row list" where
  "stored_after convID afterSeq T =
     sort_key msSeq (filter (\<lambda>r. msConv r = convID \<and> msSeq r > afterSeq) (tMsg T (ShardTable convID)))"

text \<open>The unique key of the message tables.\<close>

definition uk_conv_seq :: "tables \<Rightarrow> bool" where
  "uk_conv_seq T \<longleftrightarrow> (\<forall>tab. distinct (map (\<lambda>r. (msConv r, msSeq r)) (tMsg T tab)))"

lemma select_messages_stored: "select_messages (ShardTable c) c a l T = take (nat l) (stored_after c a T)"
  by (simp add: select_messages_def stored_after_def)

lemma stored_after_sorted: "sorted (map msSeq (stored_after c a T))"
  by (simp add: stored_after_def)

lemma set_stored_after: "set (stored_after c a T) = {r \<in> set (tMsg T (ShardTable c)). msConv r = c \<and> a < msSeq r}"
  by (auto simp: stored_after_def)

lemma stored_after_strict:
  assumes "uk_conv_seq T"
  shows "sorted_wrt (<) (map msSeq (stored_after c a T))"
proof -
  let ?P = "\<lambda>r. msConv r = c \<and> msSeq r > a"
  let ?xs = "filter ?P (tMsg T (ShardTable c))"
  have "distinct (map (\<lambda>r. (msConv r, msSeq r)) ?xs)"
    using assms unfolding uk_conv_seq_def by (intro distinct_map_filter) blast
  moreover have "map (\<lambda>r. (msConv r, msSeq r)) ?xs = map (Pair c) (map msSeq ?xs)" by (auto)
  ultimately have "distinct (map msSeq ?xs)" by (metis distinct_map)
  moreover have "mset (map msSeq (stored_after c a T)) = mset (map msSeq ?xs)" by (simp add: stored_after_def)
  ultimately have "distinct (map msSeq (stored_after c a T))" using mset_eq_imp_distinct_iff by blast
  with stored_after_sorted show ?thesis by (simp add: strict_sorted_iff)
qed

text \<open>A page has no gap: what is stored up to its last message is on it.\<close>

lemma page_no_gap:
  assumes "uk_conv_seq T" and "page = take n (stored_after c a T)" and "r \<in> set (stored_after c a T)"
    and "m \<in> set page" and "msSeq r \<le> msSeq m"
  shows "r \<in> set page"
proof -
  let ?xs = "stored_after c a T"
  have "r \<in> set (take n ?xs) \<or> r \<in> set (drop n ?xs)" using assms(3) by (metis Un_iff append_take_drop_id set_append)
  moreover have "msSeq m < msSeq r" if "r \<in> set (drop n ?xs)"
  proof -
    have "sorted_wrt (<) (map msSeq (take n ?xs) @ map msSeq (drop n ?xs))"
      using stored_after_strict [OF assms(1), of c a] by (metis append_take_drop_id map_append)
    with that assms(2,4) show ?thesis by (auto simp: sorted_wrt_append)
  qed
  ultimately show ?thesis using assms(2,5) by auto
qed

context services
begin

lemma PullMessages_page:
  assumes "PullMessages M uid c a l w = (res, w')"
  shows "st w' = st w \<and> (\<forall>msgs mx. res = Inr (msgs, mx) \<longrightarrow>
    msgs = map pbmsg_of_row (take (nat l) (stored_after c a (sTabs (st w)))) \<and>
    (mx = 0 \<or> select_last_seq (convMemberUID c) c (sTabs (st w)) = Some mx))"
proof -
  obtain q w1 where q: "mQuery M w = (q, w1)" by (cases "mQuery M w")
  obtain q2 w2 where q2: "mQuery M w1 = (q2, w2)" by (cases "mQuery M w1")
  from Query [OF q] Query [OF q2] assms q q2 show ?thesis
    by (auto simp: PullMessages_def Let_def select_messages_stored split: sum.splits option.splits)
qed

lemma checkSyncMember_spec:
  assumes "vMembers S = Some (GroupMembers R M)" and "logic_ok (st w)" and "checkSyncMember S uid c w = (res, w')"
  shows "sTabs (st w') = sTabs (st w) \<and> sLog (st w') = sLog (st w) \<and>
    (res = Inr () \<longrightarrow>
      (\<exists>g. ParseGroupConv c = Inr g \<and> uid \<in> group_view (st w) g) \<or>
      (\<exists>a b. ParseP2PConv c = Inr (a, b) \<and> uid \<in> {a, b}))"
proof (cases "ParseGroupConv c")
  case (Inl e)
  with assms show ?thesis by (auto simp: checkSyncMember_def split: sum.splits if_splits)
next
  case (Inr g)
  obtain r w1 where m: "IsMember R M g uid w = (r, w1)" by (cases "IsMember R M g uid w")
  from assms(2) have "members_coherent g (st w)" "members_wf (sTabs (st w))" by (simp_all add: logic_ok_def)
  from IsMember_spec [OF m this] assms(1,3) Inr m show ?thesis
    by (auto simp: checkSyncMember_def GroupMembers_def group_view_def split: sum.splits if_splits)
qed

text \<open>A successful answer: to a member, and the first messages stored after the cursor.\<close>

lemma SyncPull_page:
  assumes "logic_ok (st w)" and "SyncPull (NewServer R M E P V (MySQLSyncStore M) now) req w = (resp, w')" and "yrCode resp = 0"
  shows "sTabs (st w') = sTabs (st w) \<and>
    yrMessages resp = map pbmsg_of_row (take (nat (clampLimit (yqLimit req))) (stored_after (yqConvId req) (yqLocalMaxSeq req) (sTabs (st w)))) \<and>
    ((\<exists>g. ParseGroupConv (yqConvId req) = Inr g \<and> yqUid req \<in> group_view (st w) g) \<or>
     (\<exists>a b. ParseP2PConv (yqConvId req) = Inr (a, b) \<and> yqUid req \<in> {a, b}))"
proof -
  let ?S = "NewServer R M E P V (MySQLSyncStore M) now"
  let ?c = "yqConvId req" and ?l = "clampLimit (yqLimit req)"
  have S: "vMembers ?S = Some (GroupMembers R M)" "ssPullMessages (vSync ?S) = PullMessages M"
    by (simp_all add: NewServer_def MySQLSyncStore_def)
  obtain k w1 where k: "checkSyncMember ?S (yqUid req) ?c w = (k, w1)" by (cases "checkSyncMember ?S (yqUid req) ?c w")
  obtain p w2 where p: "PullMessages M (yqUid req) ?c (yqLocalMaxSeq req) ?l w1 = (p, w2)"
    by (cases "PullMessages M (yqUid req) ?c (yqLocalMaxSeq req) ?l w1")
  from assms(2,3) k p S(2) obtain msgs mx where "k = Inr ()" "p = Inr (msgs, mx)" "w' = w2" "yrMessages resp = msgs"
    by (auto simp: SyncPull_def pull_code_def send_codes Let_def split: if_splits sum.splits prod.splits)
  with checkSyncMember_spec [OF S(1) assms(1) k] PullMessages_page [OF p] show ?thesis by simp
qed

end

lemma sorted_wrt_map_take: "sorted_wrt R (map f xs) \<Longrightarrow> sorted_wrt R (map f (take n xs))"
  by (metis append_take_drop_id map_append sorted_wrt_append)

section \<open>Properties\<close>


definition demo_rows :: "message_row list" where
  "demo_rows = [\<lparr>msId = 12, msConv = ''c:1:2'', msSeq = 2, msSender = 1, msType = 1, msPayload = [2], msStatus = 0, msCreated = 0\<rparr>,
     \<lparr>msId = 11, msConv = ''c:1:2'', msSeq = 1, msSender = 2, msType = 1, msPayload = [1], msStatus = 0, msCreated = 0\<rparr>]"

definition demo_convs :: "conv_row list" where
  "demo_convs = [\<lparr>cvUid = 1, cvConv = ''c:1:2'', cvType = 1, cvTarget = 2, cvLast = 2, cvRead = 0, cvUnread = 2\<rparr>,
     \<lparr>cvUid = 1, cvConv = ''g:7'', cvType = 2, cvTarget = 7, cvLast = 5, cvRead = 0, cvUnread = 5\<rparr>]"

definition demo_sync_world :: mem where
  "demo_sync_world = (demo_world [])\<lparr>mmTabs := demo_tables\<lparr>tConv := demo_convs, tMsg := \<lambda>t. if t = ShardTable ''c:1:2'' then demo_rows else []\<rparr>\<rparr>"

lemma demo_sync_ok: "logic_ok (mem_st demo_sync_world)" "uk_conv_seq (sTabs (mem_st demo_sync_world))"
  using demo_ok [of "[]"]
  by (auto simp: demo_sync_world_def demo_world_def logic_ok_def mem_st_def friends_coherent_def members_coherent_def members_wf_def
      idem_strings_def zset_at_def demo_tables_def int64_iff uk_conv_seq_def demo_rows_def)


text \<open>
  C27: \<open>MarkRead\<close> and the unread counter. Whatever the database does, every conversation row keeps its
  identity and its last sequence number, no read cursor goes back, no unread count grows or falls
  below zero, and only rows of the given user and conversation change; a second call with the same
  or a smaller sequence number changes nothing.
\<close>

theorem mark_read_monotone:
  assumes "services R M P now st" and "MarkRead (NewServer R M E P V (MySQLSyncStore M) now) req w = w'"
  shows "list_all2 (\<lambda>r r'. cvUid r' = cvUid r \<and> cvConv r' = cvConv r \<and> cvLast r' = cvLast r \<and> cvRead r \<le> cvRead r' \<and>
      (0 \<le> cvUnread r \<longrightarrow> 0 \<le> cvUnread r' \<and> cvUnread r' \<le> cvUnread r) \<and>
      (cvUid r \<noteq> mrUid req \<or> cvConv r \<noteq> mrConvId req \<longrightarrow> r' = r)) (tConv (sTabs (st w))) (tConv (sTabs (st w'))) \<and>
    (\<forall>sq \<le> mrSeq req. update_read (mrUid req) (mrConvId req) sq (update_read (mrUid req) (mrConvId req) (mrSeq req) (sTabs (st w)))
      = update_read (mrUid req) (mrConvId req) (mrSeq req) (sTabs (st w)))"
proof (rule conjI)
  let ?T = "sTabs (st w)"
  let ?upd = "update_read (mrUid req) (mrConvId req) (mrSeq req)"
  have same: "list_all2 (\<lambda>r r'. cvUid r' = cvUid r \<and> cvConv r' = cvConv r \<and> cvLast r' = cvLast r \<and> cvRead r \<le> cvRead r' \<and>
      (0 \<le> cvUnread r \<longrightarrow> 0 \<le> cvUnread r' \<and> cvUnread r' \<le> cvUnread r) \<and>
      (cvUid r \<noteq> mrUid req \<or> cvConv r \<noteq> mrConvId req \<longrightarrow> r' = r)) (tConv ?T) (tConv ?T)"
    by (simp add: list_all2_same)
  obtain r w1 where x: "mExec M (\<lambda>T. Inr (?upd T)) w = (r, w1)" by (cases "mExec M (\<lambda>T. Inr (?upd T)) w")
  from services.Exec [OF assms(1) x] have "sTabs (st w1) = ?upd ?T \<or> sTabs (st w1) = ?T" by (auto simp: wrote_def)
  then have "sTabs (st w') = ?upd ?T \<or> sTabs (st w') = ?T"
    using assms(2) x by (auto simp: MarkRead_def NewServer_def MySQLSyncStore_def Sync_MarkRead_def split: sum.splits if_splits)
  then show "list_all2 (\<lambda>r r'. cvUid r' = cvUid r \<and> cvConv r' = cvConv r \<and> cvLast r' = cvLast r \<and> cvRead r \<le> cvRead r' \<and>
      (0 \<le> cvUnread r \<longrightarrow> 0 \<le> cvUnread r' \<and> cvUnread r' \<le> cvUnread r) \<and>
      (cvUid r \<noteq> mrUid req \<or> cvConv r \<noteq> mrConvId req \<longrightarrow> r' = r)) (tConv ?T) (tConv (sTabs (st w')))"
  proof
    assume "sTabs (st w') = ?upd ?T"
    then show ?thesis
      by (simp add: update_read_def list.rel_map mark_read_row_def Let_def list.rel_refl)
  qed (use same in simp)
  show "\<forall>sq \<le> mrSeq req. update_read (mrUid req) (mrConvId req) sq (?upd ?T) = ?upd ?T"
    by (auto simp: update_read_def mark_read_row_def Let_def)
qed

theorem mark_read_monotone_witness:
  "list_all2 (\<lambda>r r'. cvRead r \<le> cvRead r') (tConv (mmTabs demo_sync_world))
    (tConv (sTabs (mem_st (MarkRead (NewServer mem_redis mem_mysql demo_entropy mem_kafka demo_verifier (MySQLSyncStore mem_mysql) mem_now)
      \<lparr>mrUid = 1, mrConvId = ''c:1:2'', mrSeq = 2\<rparr> demo_sync_world))))"
  using mark_read_monotone [OF mem.services_axioms refl, where E = demo_entropy and V = demo_verifier and
      req = "\<lparr>mrUid = 1, mrConvId = ''c:1:2'', mrSeq = 2\<rparr>" and w = demo_sync_world]
  by (elim conjE, simp add: mem_st_def, elim list_all2_mono, simp)

text \<open>
  The target of a group's synchronisation. For a group conversation \<open>PullMessages\<close> reports the
  maximum 0, whatever is stored, since it looks for the conversation row of user 0.
\<close>

theorem group_max_seq_zero:
  assumes "services R M P now st" and "\<forall>r \<in> set (tConv (sTabs (st w))). 0 < cvUid r" and "ParseGroupConv c = Inr g"
    and "PullMessages M uid c a l w = (Inr (msgs, mx), w')"
  shows "mx = 0"
proof -
  have "convMemberUID c = 0" using Parse_exclusive [OF assms(3)] by (auto simp: convMemberUID_def)
  moreover have "List.find (\<lambda>r. cvUid r = 0 \<and> cvConv r = c) (tConv (sTabs (st w))) = None"
    using assms(2) by (auto simp: find_None_iff)
  ultimately show ?thesis using services.PullMessages_page [OF assms(1,4)] by (auto simp: select_last_seq_def)
qed

theorem group_max_seq_zero_witness:
  "\<exists>msgs w'. PullMessages mem_mysql 1 ''g:7'' 0 100 demo_sync_world = (Inr (msgs, 0), w')"
proof -
  have g: "ParseGroupConv ''g:7'' = Inr 7" "ParseP2PConv ''g:7'' = Inl errInvalidP2P"
    by (simp_all add: ParseGroupConv_def ParseP2PConv_def)
  obtain msgs mx w' where p: "PullMessages mem_mysql 1 ''g:7'' 0 100 demo_sync_world = (Inr (msgs, mx), w')"
    by (simp add: PullMessages_def mem_mysql_def mem_call_def demo_sync_world_def demo_world_def demo_tables_def demo_convs_def
        select_last_seq_def convMemberUID_def g Let_def split: sum.splits)
  from group_max_seq_zero [OF mem.services_axioms _ g(1) p] p show ?thesis
    by (simp add: mem_st_def demo_sync_world_def demo_tables_def demo_world_def demo_convs_def)
qed

end
