(* ===== verification/JobStore.thy ===== *)
theory JobStore
  imports Sync
begin

text \<open>
  The store worker, \<^verbatim>\<open>internal/job/store.go\<close>: records of \<open>msg.store\<close> are collected into batches and a
  batch is written to the message tables and the conversation rows, retried, or sent to the dead
  letter topic. The SQL texts the worker builds are kept as the rows they carry, and their effect is
  a function on the tables: \<open>INSERT IGNORE\<close> skips a row whose primary or unique key is taken and clips
  a value to its column, \<open>ON DUPLICATE KEY UPDATE\<close> advances an existing conversation row. Shown:
  stored messages are never changed or duplicated, a successful write stores every message whose
  table group is well formed, batches are the received records in order; and that redelivery counts
  a message as unread a second time.
\<close>

section \<open>Parameters\<close>

definition storeBatchSize :: nat where "storeBatchSize = 100"
definition storeMaxRetry :: nat where "storeMaxRetry = 3"
definition TopicDLQStore :: string where "TopicDLQStore = ''dlq.msg.store''"
definition groupConvBatch :: nat where "groupConvBatch = 100"

text \<open>
  The worker's dependencies: the database, the dead letter producer, the commit of the Kafka reader,
  the members of groups, the protobuf decoder, and the wait between attempts, which the end of the
  context cuts short (\<open>Inl\<close>).
\<close>

record 'w StoreWorker =
  swExec :: "(tables \<Rightarrow> tables result) \<Rightarrow> ('w, unit) call"
  swProducer :: "'w Producer"
  swCommit :: "kmsg list \<Rightarrow> ('w, unit) call"
  swMembers :: "'w GroupMemberSource option"
  swUnmarshal :: "bytes \<Rightarrow> PbMsg result"
  swWait :: "nat \<Rightarrow> ('w, unit) call"

definition NewStoreWorker ::
  "'w mysql \<Rightarrow> 'w Producer \<Rightarrow> (kmsg list \<Rightarrow> ('w, unit) call) \<Rightarrow> 'w GroupMemberSource option \<Rightarrow> (bytes \<Rightarrow> PbMsg result) \<Rightarrow>
   (nat \<Rightarrow> ('w, unit) call) \<Rightarrow> 'w StoreWorker" where
  "NewStoreWorker M producer commit ms un wait =
    \<lparr>swExec = mExec M, swProducer = producer, swCommit = commit, swMembers = ms, swUnmarshal = un, swWait = wait\<rparr>"

record storeItem =
  siMsg :: "PbMsg option"
  siKm :: kmsg

definition parseStoreItem :: "(bytes \<Rightarrow> PbMsg result) \<Rightarrow> kmsg \<Rightarrow> storeItem" where
  "parseStoreItem un km =
     (case un (kmValue km) of
        Inl e \<Rightarrow> \<lparr>siMsg = None, siKm = km\<rparr>
      | Inr msg \<Rightarrow> \<lparr>siMsg = Some msg, siKm = km\<rparr>)"

section \<open>Messages\<close>

fun group_add :: "string \<Rightarrow> PbMsg \<Rightarrow> (string \<times> PbMsg list) list \<Rightarrow> (string \<times> PbMsg list) list" where
  "group_add t m [] = [(t, [m])]"
| "group_add t m ((t', ms) # gs) = (if t = t' then (t', ms @ [m]) # gs else (t', ms) # group_add t m gs)"

text \<open>Go's map of groups, in the order of first appearance; its iteration order is unspecified.\<close>

definition GroupByShard :: "storeItem list \<Rightarrow> (string \<times> PbMsg list) list" where
  "GroupByShard items =
     fold (\<lambda>it gs. case siMsg it of None \<Rightarrow> gs | Some m \<Rightarrow> group_add (ShardTable (pmConvId m)) m gs) items []"

definition msg_row :: "nat \<Rightarrow> PbMsg \<Rightarrow> message_row" where
  "msg_row i m =
     \<lparr>msId = i, msConv = pmConvId m, msSeq = pmSeq m, msSender = pmSenderId m, msType = pmMsgType m,
      msPayload = pmPayload m, msStatus = 0, msCreated = pmTimestamp m\<rparr>"

fun BuildMessageInsert :: "PbMsg list \<Rightarrow> message_row list result" where
  "BuildMessageInsert [] = Inr []"
| "BuildMessageInsert (m # msgs) =
     (case parse_uint (pmMsgId m) of
        Inl e \<Rightarrow> Inl (errorf ''job: bad msg id'' e)
      | Inr i \<Rightarrow>
          (case BuildMessageInsert msgs of
             Inl e \<Rightarrow> Inl e
           | Inr rows \<Rightarrow> Inr (msg_row i m # rows)))"

text \<open>The columns \<open>payload VARBINARY(65000)\<close> and \<open>msg_type SMALLINT\<close>, to which \<open>IGNORE\<close> clips.\<close>

definition payloadColumn :: nat where "payloadColumn = 65000"

definition clip_row :: "message_row \<Rightarrow> message_row" where
  "clip_row r = r\<lparr>msPayload := take payloadColumn (msPayload r), msType := max (- 32768) (min 32767 (msType r))\<rparr>"

text \<open>The keys of a message table: \<open>PRIMARY KEY (id)\<close> and \<open>UNIQUE KEY (conv_id, seq)\<close>.\<close>

definition same_key :: "message_row \<Rightarrow> message_row \<Rightarrow> bool" where
  "same_key r r' \<longleftrightarrow> msId r = msId r' \<or> msConv r = msConv r' \<and> msSeq r = msSeq r'"

definition add_row :: "message_row \<Rightarrow> message_row list \<Rightarrow> message_row list" where
  "add_row r rows = (if \<exists>r' \<in> set rows. same_key r r' then rows else rows @ [clip_row r])"

definition insert_ignore :: "string \<Rightarrow> message_row list \<Rightarrow> tables \<Rightarrow> tables" where
  "insert_ignore table rows T = T\<lparr>tMsg := (tMsg T)(table := fold add_row rows (tMsg T table))\<rparr>"

fun insert_groups :: "'w StoreWorker \<Rightarrow> (string \<times> PbMsg list) list \<Rightarrow> ('w, unit) call" where
  "insert_groups W [] w = (Inr (), w)"
| "insert_groups W ((table, grp) # groups) w =
     (case BuildMessageInsert grp of
        Inl e \<Rightarrow> insert_groups W groups w
      | Inr rows \<Rightarrow>
          (case swExec W (\<lambda>T. Inr (insert_ignore table rows T)) w of
             (Inl e, w1) \<Rightarrow> (Inl (errorf (''job: insert '' @ table) e), w1)
           | (Inr _, w1) \<Rightarrow> insert_groups W groups w1))"

definition insertMessages :: "'w StoreWorker \<Rightarrow> storeItem list \<Rightarrow> ('w, unit) call" where
  "insertMessages W items = insert_groups W (GroupByShard items)"

section \<open>Conversations\<close>

definition ReceiverOf :: "PbMsg \<Rightarrow> int result" where
  "ReceiverOf msg =
     (case ParseP2PConv (pmConvId msg) of
        Inl e \<Rightarrow> Inl e
      | Inr (a, b) \<Rightarrow>
          if pmSenderId msg = a then Inr b
          else if pmSenderId msg = b then Inr a
          else Inl (Err ''job: sender not in conv''))"

definition gidOfConv :: "string \<Rightarrow> int" where
  "gidOfConv convID = (case ParseGroupConv convID of Inl e \<Rightarrow> 0 | Inr gid \<Rightarrow> gid)"

fun BuildConversationUpsert :: "PbMsg list \<Rightarrow> conv_row list result" where
  "BuildConversationUpsert [] = Inr []"
| "BuildConversationUpsert (m # msgs) =
     (case ParseP2PConv (pmConvId m) of
        Inl e \<Rightarrow> Inl e
      | Inr (a, b) \<Rightarrow>
          (case ReceiverOf m of
             Inl e \<Rightarrow> Inl e
           | Inr recv \<Rightarrow>
               (case BuildConversationUpsert msgs of
                  Inl e \<Rightarrow> Inl e
                | Inr rows \<Rightarrow>
                    Inr (map (\<lambda>uid. \<lparr>cvUid = uid, cvConv = pmConvId m, cvType = pmConvType m,
                        cvTarget = (if uid = b then a else b), cvLast = pmSeq m, cvRead = 0,
                        cvUnread = (if uid = recv then 1 else 0)\<rparr>) [a, b] @ rows))))"

function chunks :: "nat \<Rightarrow> 'a list \<Rightarrow> 'a list list" where
  "chunks n xs = (if n = 0 \<or> xs = [] then [] else take n xs # chunks n (drop n xs))"
  by pat_completeness auto
termination
  by (relation "measure (\<lambda>(n, xs). length xs)") auto

definition BuildGroupConversationUpserts :: "PbMsg \<Rightarrow> int list \<Rightarrow> nat \<Rightarrow> conv_row list list" where
  "BuildGroupConversationUpserts msg members batch =
     map (map (\<lambda>uid. \<lparr>cvUid = uid, cvConv = pmConvId msg, cvType = pmConvType msg, cvTarget = gidOfConv (pmConvId msg),
         cvLast = pmSeq msg, cvRead = 0, cvUnread = (if uid = pmSenderId msg then 0 else 1)\<rparr>))
       (chunks batch members)"

text \<open>
  \<open>INSERT .. ON DUPLICATE KEY UPDATE last_seq = GREATEST(last_seq, VALUES(last_seq)), unread = unread +
  VALUES(unread)\<close> on the primary key \<open>(uid, conv_id)\<close>.
\<close>

definition conv_key :: "conv_row \<Rightarrow> int \<times> string" where
  "conv_key r = (cvUid r, cvConv r)"

definition upsert_row :: "conv_row \<Rightarrow> conv_row list \<Rightarrow> conv_row list" where
  "upsert_row v rows =
     (if conv_key v \<in> conv_key ` set rows
      then map (\<lambda>r. if conv_key r = conv_key v
        then r\<lparr>cvLast := max (cvLast r) (cvLast v), cvUnread := cvUnread r + cvUnread v\<rparr> else r) rows
      else rows @ [v])"

definition upsert_conv :: "conv_row list \<Rightarrow> tables \<Rightarrow> tables" where
  "upsert_conv vs T = T\<lparr>tConv := fold upsert_row vs (tConv T)\<rparr>"

fun exec_upserts :: "'w StoreWorker \<Rightarrow> conv_row list list \<Rightarrow> ('w, unit) call" where
  "exec_upserts W [] w = (Inr (), w)"
| "exec_upserts W (vs # stmts) w =
     (case swExec W (\<lambda>T. Inr (upsert_conv vs T)) w of
        (Inl e, w1) \<Rightarrow> (Inl (errorf ''job: upsert group conversation'' e), w1)
      | (Inr _, w1) \<Rightarrow> exec_upserts W stmts w1)"

definition upsertGroupConversations :: "'w StoreWorker \<Rightarrow> PbMsg \<Rightarrow> ('w, unit) call" where
  "upsertGroupConversations W msg w =
     (case ParseGroupConv (pmConvId msg) of
        Inl e \<Rightarrow> (Inl e, w)
      | Inr gid \<Rightarrow>
          (case swMembers W of
             None \<Rightarrow> (Inl (Err ''job: no member source configured''), w)
           | Some ms \<Rightarrow>
               (case gsMembers ms gid w of
                  (Inl e, w1) \<Rightarrow> (Inl e, w1)
                | (Inr members, w1) \<Rightarrow> exec_upserts W (BuildGroupConversationUpserts msg members groupConvBatch) w1)))"

fun upsert_items :: "'w StoreWorker \<Rightarrow> storeItem list \<Rightarrow> PbMsg list \<Rightarrow> 'w \<Rightarrow> PbMsg list \<times> 'w" where
  "upsert_items W [] p2p w = (p2p, w)"
| "upsert_items W (it # items) p2p w =
     (case siMsg it of
        None \<Rightarrow> upsert_items W items p2p w
      | Some m \<Rightarrow>
          if pmConvType m = 2 then upsert_items W items p2p (snd (upsertGroupConversations W m w))
          else upsert_items W items (p2p @ [m]) w)"

definition upsertConversations :: "'w StoreWorker \<Rightarrow> storeItem list \<Rightarrow> ('w, unit) call" where
  "upsertConversations W items w =
     (let (p2p, w1) = upsert_items W items [] w in
      if p2p = [] then (Inr (), w1)
      else case BuildConversationUpsert p2p of
        Inl e \<Rightarrow> (Inr (), w1)
      | Inr rows \<Rightarrow>
          (case swExec W (\<lambda>T. Inr (upsert_conv rows T)) w1 of
             (Inl e, w2) \<Rightarrow> (Inl (errorf ''job: upsert conversation'' e), w2)
           | (Inr _, w2) \<Rightarrow> (Inr (), w2)))"

section \<open>Batches\<close>

definition writeBatch :: "'w StoreWorker \<Rightarrow> storeItem list \<Rightarrow> ('w, unit) call" where
  "writeBatch W items w =
     (case insertMessages W items w of
        (Inl e, w1) \<Rightarrow> (Inl e, w1)
      | (Inr _, w1) \<Rightarrow> upsertConversations W items w1)"

text \<open>\<open>retryExec\<close> from attempt \<open>a\<close> on; \<open>max - a\<close> attempts are left after this one.\<close>

function retry_from :: "(nat \<Rightarrow> ('w, unit) call) \<Rightarrow> nat \<Rightarrow> nat \<Rightarrow> ('w, unit) call \<Rightarrow> ('w, unit) call" where
  "retry_from wait mx a fn w =
     (case fn w of
        (Inr _, w1) \<Rightarrow> (Inr (), w1)
      | (Inl e, w1) \<Rightarrow>
          if a < mx then
            (case wait a w1 of
               (Inl ce, w2) \<Rightarrow> (Inl ce, w2)
             | (Inr _, w2) \<Rightarrow> retry_from wait mx (a + 1) fn w2)
          else (Inl e, w1))"
  by pat_completeness auto
termination
  by (relation "measure (\<lambda>(wait, mx, a, fn, w). mx - a)") auto

definition retryExec :: "(nat \<Rightarrow> ('w, unit) call) \<Rightarrow> nat \<Rightarrow> ('w, unit) call \<Rightarrow> ('w, unit) call" where
  "retryExec wait mx fn w = (if mx = 0 then (Inr (), w) else retry_from wait mx 1 fn w)"

fun dlq :: "'w StoreWorker \<Rightarrow> storeItem list \<Rightarrow> 'w \<Rightarrow> 'w" where
  "dlq W [] w = w"
| "dlq W (it # items) w =
     dlq W items (snd (swProducer W TopicDLQStore (kmKey (siKm it)) (kmValue (siKm it)) [[(''origin-topic'', kmTopic (siKm it))]] w))"

definition commitBatch :: "'w StoreWorker \<Rightarrow> storeItem list \<Rightarrow> 'w \<Rightarrow> 'w" where
  "commitBatch W items w = snd (swCommit W (map siKm items) w)"

definition flush :: "'w StoreWorker \<Rightarrow> storeItem list \<Rightarrow> 'w \<Rightarrow> 'w" where
  "flush W items w =
     (if items = [] then w
      else case retryExec (swWait W) storeMaxRetry (writeBatch W items) w of
        (Inl e, w1) \<Rightarrow> commitBatch W items (dlq W items w1)
      | (Inr _, w1) \<Rightarrow> commitBatch W items w1)"

text \<open>
  \<open>BatchLoop\<close> on what its select finds: a record, a tick, the closed channel, or the end of the
  context with the records then still in the channel. The batches are returned beside the world.
\<close>

datatype event = Received kmsg | Tick | Closed | Cancelled "kmsg list"

fun BatchLoop :: "'w StoreWorker \<Rightarrow> event list \<Rightarrow> storeItem list \<Rightarrow> 'w \<Rightarrow> storeItem list list \<times> 'w" where
  "BatchLoop W [] pending w = ([], w)"
| "BatchLoop W (Received km # evs) pending w =
     (let pending' = pending @ [parseStoreItem (swUnmarshal W) km] in
      if length pending' \<ge> storeBatchSize
      then (let (bs, w') = BatchLoop W evs [] (flush W pending' w) in (pending' # bs, w'))
      else BatchLoop W evs pending' w)"
| "BatchLoop W (Tick # evs) pending w =
     (if pending \<noteq> [] then (let (bs, w') = BatchLoop W evs [] (flush W pending w) in (pending # bs, w'))
      else BatchLoop W evs pending w)"
| "BatchLoop W (Closed # evs) pending w = ([pending], flush W pending w)"
| "BatchLoop W (Cancelled kms # evs) pending w =
     (let pending' = pending @ map (parseStoreItem (swUnmarshal W)) kms in ([pending'], flush W pending' w))"

section \<open>The tables under writes\<close>

text \<open>Both keys of a message table are respected.\<close>

definition keys_ok :: "message_row list \<Rightarrow> bool" where
  "keys_ok rows \<longleftrightarrow> distinct (map msId rows) \<and> distinct (map (\<lambda>r. (msConv r, msSeq r)) rows)"

lemma clip_row_keys [simp]: "msId (clip_row r) = msId r" "msConv (clip_row r) = msConv r" "msSeq (clip_row r) = msSeq r"
  by (simp_all add: clip_row_def)

lemma same_key_clip [simp]: "same_key r (clip_row r')  \<longleftrightarrow> same_key r r'" "same_key r r"
  by (simp_all add: same_key_def)

text \<open>What a statement of some rows adds: at the end, only clipped rows of its own, and every key is there.\<close>

lemma fold_add_row:
  "keys_ok rows \<Longrightarrow> \<exists>new. fold add_row rs rows = rows @ new \<and> set new \<subseteq> clip_row ` set rs \<and> keys_ok (fold add_row rs rows) \<and>
     (\<forall>r \<in> set rs. \<exists>r' \<in> set (fold add_row rs rows). same_key r r')"
proof (induction rs arbitrary: rows)
  case (Cons r rs)
  have "keys_ok (add_row r rows)" using Cons.prems by (auto simp: add_row_def keys_ok_def same_key_def)
  then obtain new where new: "fold add_row rs (add_row r rows) = add_row r rows @ new" "set new \<subseteq> clip_row ` set rs"
      "keys_ok (fold add_row rs (add_row r rows))" "\<forall>x \<in> set rs. \<exists>r' \<in> set (fold add_row rs (add_row r rows)). same_key x r'"
    using Cons.IH by blast
  have "\<exists>r' \<in> set (add_row r rows). same_key r r'" by (auto simp: add_row_def)
  then have "\<exists>r' \<in> set (fold add_row rs (add_row r rows)). same_key r r'" using new(1) by auto
  moreover have "\<exists>new'. fold add_row rs (add_row r rows) = rows @ new' \<and> set new' \<subseteq> clip_row ` set (r # rs)"
    using new(1,2) by (cases "add_row r rows = rows") (auto simp: add_row_def)
  ultimately show ?case using new(3,4) by auto
qed simp

lemma fold_add_row_again:
  "(\<And>r. r \<in> set rs \<Longrightarrow> \<exists>r' \<in> set rows. same_key r r') \<Longrightarrow> fold add_row rs rows = rows"
  by (induction rs) (auto simp: add_row_def)

text \<open>The growth of the message tables by rows that satisfy \<open>Q\<close>.\<close>

definition grows :: "(string \<Rightarrow> message_row \<Rightarrow> bool) \<Rightarrow> tables \<Rightarrow> tables \<Rightarrow> bool" where
  "grows Q T T' \<longleftrightarrow> (\<forall>t. keys_ok (tMsg T t)) \<longrightarrow>
     (\<forall>t. keys_ok (tMsg T' t) \<and> (\<exists>new. tMsg T' t = tMsg T t @ new \<and> (\<forall>r \<in> set new. Q t r)))"

lemma grows_refl [simp, intro]: "tMsg T' = tMsg T \<Longrightarrow> grows Q T T'"
  by (simp add: grows_def)

lemma grows_trans [trans]: "grows Q T T' \<Longrightarrow> grows Q T' T'' \<Longrightarrow> grows Q T T''"
  unfolding grows_def by (metis Un_iff append_assoc set_append)

lemma grows_set: "grows Q T T' \<Longrightarrow> \<forall>t. keys_ok (tMsg T t) \<Longrightarrow> set (tMsg T t) \<subseteq> set (tMsg T' t)"
  unfolding grows_def by (metis Un_upper1 set_append)

lemma grows_insert:
  assumes "\<And>r. r \<in> set rows \<Longrightarrow> Q table (clip_row r)"
  shows "grows Q T (insert_ignore table rows T)"
proof -
  have "\<exists>new. fold add_row rows (tMsg T table) = tMsg T table @ new \<and> (\<forall>r \<in> set new. Q table r) \<and> keys_ok (fold add_row rows (tMsg T table))"
    if "keys_ok (tMsg T table)" using fold_add_row [OF that, of rows] assms by blast
  then show ?thesis by (auto simp: grows_def insert_ignore_def)
qed

lemma grows_upsert [simp]: "grows Q T (upsert_conv vs T)"
  by (rule grows_refl) (simp add: upsert_conv_def)

text \<open>The rows a batch may add to a table.\<close>

definition row_of :: "storeItem list \<Rightarrow> string \<Rightarrow> message_row \<Rightarrow> bool" where
  "row_of items t r \<longleftrightarrow> (\<exists>it m i. it \<in> set items \<and> siMsg it = Some m \<and> parse_uint (pmMsgId m) = Inr i \<and> t = ShardTable (pmConvId m) \<and>
     r = clip_row (msg_row i m))"

lemma BuildMessageInsert_Inr:
  "BuildMessageInsert ms = Inr rows \<Longrightarrow> (\<forall>r \<in> set rows. \<exists>m \<in> set ms. \<exists>i. parse_uint (pmMsgId m) = Inr i \<and> r = msg_row i m) \<and>
     (\<forall>m \<in> set ms. \<exists>i. parse_uint (pmMsgId m) = Inr i \<and> msg_row i m \<in> set rows)"
proof (induction ms arbitrary: rows)
  case (Cons m ms)
  from Cons.prems obtain i rs where i: "parse_uint (pmMsgId m) = Inr i" and rs: "BuildMessageInsert ms = Inr rs" and rows: "rows = msg_row i m # rs"
    by (auto split: sum.splits)
  from Cons.IH [OF rs] i show ?case unfolding rows by (metis list.set_intros(1,2) set_ConsD)
qed simp

lemma BuildMessageInsert_total: "(\<And>m. m \<in> set ms \<Longrightarrow> \<not> isl (parse_uint (pmMsgId m))) \<Longrightarrow> \<exists>rows. BuildMessageInsert ms = Inr rows"
proof (induction ms)
  case (Cons m ms)
  then obtain rows where "BuildMessageInsert ms = Inr rows" by auto
  moreover have "\<not> isl (parse_uint (pmMsgId m))" using Cons.prems by simp
  ultimately show ?case by (auto split: sum.splits)
qed simp

lemma set_group_add:
  "(t', ms') \<in> set (group_add t m gs) \<Longrightarrow> x \<in> set ms' \<Longrightarrow> t' = t \<and> x = m \<or> (\<exists>ms. (t', ms) \<in> set gs \<and> x \<in> set ms)"
  by (induction gs) (auto split: if_splits, force+)

lemma group_add_keeps: "(t', ms) \<in> set gs \<Longrightarrow> x \<in> set ms \<Longrightarrow> \<exists>ms'. (t', ms') \<in> set (group_add t m gs) \<and> x \<in> set ms'"
proof (induction gs)
  case (Cons g gs)
  then show ?case by (cases g; cases "t = fst g") (simp_all, (metis Un_iff set_append)+)
qed simp

lemma group_add_new: "\<exists>ms. (t, ms) \<in> set (group_add t m gs) \<and> m \<in> set ms"
proof (induction gs)
  case (Cons g gs)
  then show ?case by (cases g; cases "t = fst g") (simp_all, metis in_set_conv_decomp)
qed simp

lemma GroupByShard_sound:
  "(t, ms) \<in> set (GroupByShard items) \<Longrightarrow> m \<in> set ms \<Longrightarrow> t = ShardTable (pmConvId m) \<and> (\<exists>it \<in> set items. siMsg it = Some m)"
  unfolding GroupByShard_def
proof (induction items arbitrary: t ms m rule: rev_induct)
  case (snoc it items)
  then show ?case by (cases "siMsg it") (auto dest!: set_group_add)
qed simp

lemma GroupByShard_complete:
  "it \<in> set items \<Longrightarrow> siMsg it = Some m \<Longrightarrow> \<exists>ms. (ShardTable (pmConvId m), ms) \<in> set (GroupByShard items) \<and> m \<in> set ms"
  unfolding GroupByShard_def
proof (induction items rule: rev_induct)
  case (snoc it' items)
  show ?case
  proof (cases "it = it'")
    case True
    with snoc.prems show ?thesis using group_add_new by simp
  next
    case False
    with snoc obtain ms where "(ShardTable (pmConvId m), ms) \<in> set (fold (\<lambda>it gs. case siMsg it of None \<Rightarrow> gs
        | Some m \<Rightarrow> group_add (ShardTable (pmConvId m)) m gs) items [])" "m \<in> set ms" by auto
    then show ?thesis using group_add_keeps by (cases "siMsg it'") (simp_all, blast)
  qed
qed simp

section \<open>What the worker relies on\<close>

locale store_deps = services R M P now st
  for R :: "'w redis" and M :: "'w mysql" and P :: "'w kwriter" and now :: "'w \<Rightarrow> int \<times> 'w" and st :: "'w \<Rightarrow> svc" +
  fixes W :: "'w StoreWorker"
  assumes exec: "swExec W = mExec M"
    and members: "\<And>ms g w res w'. swMembers W = Some ms \<Longrightarrow> gsMembers ms g w = (res, w') \<Longrightarrow>
      sTabs (st w') = sTabs (st w) \<and> sLog (st w') = sLog (st w)"
    and produce: "\<And>t k v hs w res w'. swProducer W t k v hs w = (res, w') \<Longrightarrow> sTabs (st w') = sTabs (st w) \<and>
      ((\<exists>hs'. sLog (st w') = sLog (st w) @ [\<lparr>kmTopic = t, kmKey = k, kmValue = v, kmHeaders = hs'\<rparr>]) \<or> isl res \<and> sLog (st w') = sLog (st w))"
    and commit: "\<And>ks w res w'. swCommit W ks w = (res, w') \<Longrightarrow> st w' = st w"
    and waits: "\<And>a w res w'. swWait W a w = (res, w') \<Longrightarrow> st w' = st w"
begin

lemma exec_tables:
  assumes "swExec W (\<lambda>T. Inr (f T)) w = (res, w')"
  shows "sLog (st w') = sLog (st w) \<and> (sTabs (st w') = f (sTabs (st w)) \<or> isl res \<and> sTabs (st w') = sTabs (st w))"
  using Exec [of "\<lambda>T. Inr (f T)" w res w'] assms exec by (auto simp: wrote_def)

lemma insert_groups_spec:
  assumes "insert_groups W gs w = (res, w')" and "\<forall>t ms m i. (t, ms) \<in> set gs \<longrightarrow> m \<in> set ms \<longrightarrow> parse_uint (pmMsgId m) = Inr i \<longrightarrow> Q t (clip_row (msg_row i m))"
    and "\<forall>t. keys_ok (tMsg (sTabs (st w)) t)"
  shows "sLog (st w') = sLog (st w) \<and> grows Q (sTabs (st w)) (sTabs (st w')) \<and>
    (res = Inr () \<longrightarrow> (\<forall>t ms rows. (t, ms) \<in> set gs \<longrightarrow> BuildMessageInsert ms = Inr rows \<longrightarrow>
       (\<forall>r \<in> set rows. \<exists>r' \<in> set (tMsg (sTabs (st w')) t). same_key r r')))"
  using assms
proof (induction gs arbitrary: w)
  case (Cons g gs)
  obtain t ms where g: "g = (t, ms)" by (cases g)
  show ?case
  proof (cases "BuildMessageInsert ms")
    case (Inl e)
    then have "insert_groups W gs w = (res, w')" using Cons.prems(1) g by simp
    from Cons.IH [OF this _ Cons.prems(3)] Cons.prems(2) Inl g show ?thesis by auto
  next
    case (Inr rows)
    obtain r w1 where x: "swExec W (\<lambda>T. Inr (insert_ignore t rows T)) w = (r, w1)"
      by (cases "swExec W (\<lambda>T. Inr (insert_ignore t rows T)) w")
    have gr: "grows Q (sTabs (st w)) (insert_ignore t rows (sTabs (st w)))"
      using Cons.prems(2) BuildMessageInsert_Inr [OF Inr] g by (intro grows_insert) fastforce
    note ex = exec_tables [OF x]
    then have g1: "grows Q (sTabs (st w)) (sTabs (st w1))" using gr by auto
    show ?thesis
    proof (cases r)
      case (Inl e)
      with Cons.prems(1) g Inr x ex g1 show ?thesis by auto
    next
      case r: (Inr u)
      then have T1: "sTabs (st w1) = insert_ignore t rows (sTabs (st w))" using ex by simp
      have k1: "\<forall>t. keys_ok (tMsg (sTabs (st w1)) t)" using g1 Cons.prems(3) by (simp add: grows_def)
      have rec: "insert_groups W gs w1 = (res, w')" using Cons.prems(1) g Inr x r by simp
      note IH = Cons.IH [OF rec _ k1]
      have IH': "sLog (st w') = sLog (st w1)" "grows Q (sTabs (st w1)) (sTabs (st w'))"
        "res = Inr () \<longrightarrow> (\<forall>t ms rows. (t, ms) \<in> set gs \<longrightarrow> BuildMessageInsert ms = Inr rows \<longrightarrow>
          (\<forall>r \<in> set rows. \<exists>r' \<in> set (tMsg (sTabs (st w')) t). same_key r r'))"
        using IH Cons.prems(2) by auto
      have "\<exists>r' \<in> set (tMsg (sTabs (st w1)) t). same_key x r'" if "x \<in> set rows" for x
        using fold_add_row [of "tMsg (sTabs (st w)) t" rows] Cons.prems(3) that by (simp add: T1 insert_ignore_def) blast
      then have "\<exists>r' \<in> set (tMsg (sTabs (st w')) t). same_key x r'" if "x \<in> set rows" for x
        using that grows_set [OF IH'(2) k1, of t] by blast
      with IH' ex Inr show ?thesis using grows_trans [OF g1 IH'(2)] by (auto simp: g)
    qed
  qed
qed auto

lemma exec_upserts_spec:
  "exec_upserts W stmts w = (res, w') \<Longrightarrow> sLog (st w') = sLog (st w) \<and> tMsg (sTabs (st w')) = tMsg (sTabs (st w))"
proof (induction stmts arbitrary: w)
  case (Cons vs stmts)
  obtain r w1 where x: "swExec W (\<lambda>T. Inr (upsert_conv vs T)) w = (r, w1)" by (cases "swExec W (\<lambda>T. Inr (upsert_conv vs T)) w")
  have "sLog (st w1) = sLog (st w)" "tMsg (sTabs (st w1)) = tMsg (sTabs (st w))"
    using exec_tables [OF x] by (auto simp: upsert_conv_def)
  with Cons x show ?case by (auto split: sum.splits)
qed simp

lemma upsert_group_spec:
  "upsertGroupConversations W m w = (res, w') \<Longrightarrow> sLog (st w') = sLog (st w) \<and> tMsg (sTabs (st w')) = tMsg (sTabs (st w))"
  by (auto simp: upsertGroupConversations_def dest!: exec_upserts_spec members split: sum.splits option.splits prod.splits)

lemma upsert_items_spec:
  "upsert_items W items p2p w = (ms, w') \<Longrightarrow> sLog (st w') = sLog (st w) \<and> tMsg (sTabs (st w')) = tMsg (sTabs (st w))"
proof (induction items arbitrary: p2p w)
  case (Cons it items)
  then show ?case
    using upsert_group_spec by (auto split: option.splits if_splits) (metis prod.collapse)+
qed simp

lemma upsertConversations_spec:
  assumes "upsertConversations W items w = (res, w')"
  shows "sLog (st w') = sLog (st w) \<and> tMsg (sTabs (st w')) = tMsg (sTabs (st w))"
proof -
  obtain ms w1 where u: "upsert_items W items [] w = (ms, w1)" by (cases "upsert_items W items [] w")
  have *: "sLog (st w2) = sLog (st w1) \<and> tMsg (sTabs (st w2)) = tMsg (sTabs (st w1))"
    if "swExec W (\<lambda>T. Inr (upsert_conv rows T)) w1 = (r, w2)" for rows r w2
    using exec_tables [OF that] by (auto simp: upsert_conv_def)
  from upsert_items_spec [OF u] assms u show ?thesis
    by (auto simp: upsertConversations_def dest!: * split: if_splits sum.splits prod.splits)
qed

lemma writeBatch_spec:
  assumes "writeBatch W items w = (res, w')" and "\<forall>t. keys_ok (tMsg (sTabs (st w)) t)"
  shows "sLog (st w') = sLog (st w) \<and> grows (row_of items) (sTabs (st w)) (sTabs (st w')) \<and>
    (res = Inr () \<longrightarrow> (\<forall>t ms rows. (t, ms) \<in> set (GroupByShard items) \<longrightarrow> BuildMessageInsert ms = Inr rows \<longrightarrow>
       (\<forall>r \<in> set rows. \<exists>r' \<in> set (tMsg (sTabs (st w')) t). same_key r r')))"
proof -
  obtain r w1 where i: "insert_groups W (GroupByShard items) w = (r, w1)" by (cases "insert_groups W (GroupByShard items) w")
  have "\<forall>t ms m i. (t, ms) \<in> set (GroupByShard items) \<longrightarrow> m \<in> set ms \<longrightarrow> parse_uint (pmMsgId m) = Inr i \<longrightarrow>
      row_of items t (clip_row (msg_row i m))" using GroupByShard_sound by (fastforce simp: row_of_def)
  note I = insert_groups_spec [OF i this assms(2)]
  show ?thesis
  proof (cases r)
    case (Inl e)
    with I i assms(1) show ?thesis by (auto simp: writeBatch_def insertMessages_def)
  next
    case (Inr u)
    with i assms(1) have "upsertConversations W items w1 = (res, w')" by (simp add: writeBatch_def insertMessages_def)
    from upsertConversations_spec [OF this] I Inr show ?thesis by (auto intro: grows_trans)
  qed
qed

lemma retry_spec:
  assumes "retry_from (swWait W) mx a (writeBatch W items) w = (res, w')" and "\<forall>t. keys_ok (tMsg (sTabs (st w)) t)"
  shows "sLog (st w') = sLog (st w) \<and> grows (row_of items) (sTabs (st w)) (sTabs (st w')) \<and>
    (res = Inr () \<longrightarrow> (\<forall>t ms rows. (t, ms) \<in> set (GroupByShard items) \<longrightarrow> BuildMessageInsert ms = Inr rows \<longrightarrow>
       (\<forall>r \<in> set rows. \<exists>r' \<in> set (tMsg (sTabs (st w')) t). same_key r r')))"
  using assms
proof (induction "mx - a" arbitrary: a w)
  case 0
  obtain r w1 where b: "writeBatch W items w = (r, w1)" by (cases "writeBatch W items w")
  from 0 b writeBatch_spec [OF b 0(3)] show ?case by (subst (asm) retry_from.simps) (auto split: sum.splits)
next
  case (Suc n)
  obtain r w1 where b: "writeBatch W items w = (r, w1)" by (cases "writeBatch W items w")
  note B = writeBatch_spec [OF b Suc(4)]
  show ?case
  proof (cases r)
    case (Inr u)
    with Suc(3) b B show ?thesis by (subst (asm) retry_from.simps) auto
  next
    case (Inl e)
    obtain wr w2 where wt: "swWait W a w1 = (wr, w2)" by (cases "swWait W a w1")
    have st2: "st w2 = st w1" by (rule waits [OF wt])
    have k2: "\<forall>t. keys_ok (tMsg (sTabs (st w2)) t)" using B Suc(4) by (simp add: grows_def st2)
    have "a < mx" using Suc(2) by simp
    show ?thesis
    proof (cases wr)
      case wl: (Inl ce)
      with Suc(3) b Inl wt \<open>a < mx\<close> have "w' = w2" "res = Inl ce" by (subst (asm) retry_from.simps, simp)+
      with B st2 show ?thesis by simp
    next
      case wrr: (Inr u)
      with Suc(3) b Inl wt \<open>a < mx\<close> have "retry_from (swWait W) mx (a + 1) (writeBatch W items) w2 = (res, w')"
        by (subst (asm) retry_from.simps) simp
      from Suc(1) [OF _ this k2] Suc(2) B st2 show ?thesis by (auto intro: grows_trans)
    qed
  qed
qed

lemma dlq_tabs: "sTabs (st (dlq W items w)) = sTabs (st w)"
proof (induction items arbitrary: w)
  case (Cons it items)
  show ?case using Cons produce by (simp add: prod.collapse [symmetric]) (metis prod.collapse)
qed simp

lemma dlq_log:
  assumes "\<And>t k v hs w. \<not> isl (fst (swProducer W t k v hs w))"
  shows "\<exists>recs. sLog (st (dlq W items w)) = sLog (st w) @ recs \<and>
    map (\<lambda>k. (kmTopic k, kmKey k, kmValue k)) recs = map (\<lambda>it. (TopicDLQStore, kmKey (siKm it), kmValue (siKm it))) items"
proof (induction items arbitrary: w)
  case (Cons it items)
  obtain r w1 where p: "swProducer W TopicDLQStore (kmKey (siKm it)) (kmValue (siKm it)) [[(''origin-topic'', kmTopic (siKm it))]] w = (r, w1)"
    by (cases "swProducer W TopicDLQStore (kmKey (siKm it)) (kmValue (siKm it)) [[(''origin-topic'', kmTopic (siKm it))]] w")
  have "\<not> isl r" using assms [of TopicDLQStore "kmKey (siKm it)" "kmValue (siKm it)" "[[(''origin-topic'', kmTopic (siKm it))]]" w] p by simp
  then obtain hs where "sLog (st w1) = sLog (st w) @ [\<lparr>kmTopic = TopicDLQStore, kmKey = kmKey (siKm it), kmValue = kmValue (siKm it), kmHeaders = hs\<rparr>]"
    using produce [OF p] by auto
  moreover obtain recs where "sLog (st (dlq W items w1)) = sLog (st w1) @ recs"
      "map (\<lambda>k. (kmTopic k, kmKey k, kmValue k)) recs = map (\<lambda>it. (TopicDLQStore, kmKey (siKm it), kmValue (siKm it))) items"
    using Cons by blast
  ultimately show ?case using p by (intro exI [of _ "\<lparr>kmTopic = TopicDLQStore, kmKey = kmKey (siKm it), kmValue = kmValue (siKm it), kmHeaders = hs\<rparr> # recs"]) simp
qed simp

lemma commitBatch_st: "st (commitBatch W items w) = st w"
  using commit by (simp add: commitBatch_def) (metis prod.collapse)

text \<open>A flush: the tables grow by rows of the batch, and all of it is stored or all of it dead-lettered.\<close>

lemma flush_spec:
  assumes "\<forall>t. keys_ok (tMsg (sTabs (st w)) t)"
  shows "grows (row_of items) (sTabs (st w)) (sTabs (st (flush W items w))) \<and>
    ((\<forall>t ms rows. (t, ms) \<in> set (GroupByShard items) \<longrightarrow> BuildMessageInsert ms = Inr rows \<longrightarrow>
       (\<forall>r \<in> set rows. \<exists>r' \<in> set (tMsg (sTabs (st (flush W items w))) t). same_key r r')) \<or>
     (\<exists>w1. sLog (st w1) = sLog (st w) \<and> sLog (st (flush W items w)) = sLog (st (dlq W items w1))))"
proof (cases "items = []")
  case True
  then show ?thesis by (simp add: flush_def GroupByShard_def)
next
  case False
  obtain r w1 where r: "retry_from (swWait W) storeMaxRetry 1 (writeBatch W items) w = (r, w1)"
    by (cases "retry_from (swWait W) storeMaxRetry 1 (writeBatch W items) w")
  have f: "flush W items w = commitBatch W items (if isl r then dlq W items w1 else w1)"
    using False r by (cases r) (simp_all add: flush_def retryExec_def storeMaxRetry_def)
  from retry_spec [OF r assms] show ?thesis
    unfolding f commitBatch_st by (cases r) (auto simp: dlq_tabs)
qed

end

section \<open>Batches and counters\<close>

text \<open>The records a run of the loop takes in, up to its end.\<close>

fun taken :: "event list \<Rightarrow> kmsg list" where
  "taken [] = []"
| "taken (Received km # evs) = km # taken evs"
| "taken (Tick # evs) = taken evs"
| "taken (Closed # evs) = []"
| "taken (Cancelled kms # evs) = kms"

fun ends :: "event list \<Rightarrow> bool" where
  "ends [] = False"
| "ends (Received km # evs) = ends evs"
| "ends (Tick # evs) = ends evs"
| "ends (Closed # evs) = True"
| "ends (Cancelled kms # evs) = True"

lemma BatchLoop_concat:
  "BatchLoop W evs pending w = (bs, w') \<Longrightarrow> length pending < storeBatchSize \<Longrightarrow>
   (\<exists>rest. concat bs @ rest = pending @ map (parseStoreItem (swUnmarshal W)) (taken evs) \<and> (ends evs \<longrightarrow> rest = []) \<and> length rest < storeBatchSize) \<and>
   (\<forall>b \<in> set (butlast bs). b \<noteq> [] \<and> length b \<le> storeBatchSize) \<and> w' = fold (flush W) bs w"
proof (induction W evs pending w arbitrary: bs w' rule: BatchLoop.induct)
  case (2 W km evs pending w)
  let ?p = "pending @ [parseStoreItem (swUnmarshal W) km]"
  show ?case
  proof (cases "length ?p \<ge> storeBatchSize")
    case True
    obtain bs1 w1 where b: "BatchLoop W evs [] (flush W ?p w) = (bs1, w1)" by (cases "BatchLoop W evs [] (flush W ?p w)")
    with 2(3) True have e: "bs = ?p # bs1" "w' = w1" by (simp_all add: Let_def)
    from 2(1) [OF refl True b] have IH: "(\<exists>rest. concat bs1 @ rest = map (parseStoreItem (swUnmarshal W)) (taken evs) \<and> (ends evs \<longrightarrow> rest = []) \<and> length rest < storeBatchSize) \<and>
       (\<forall>b \<in> set (butlast bs1). b \<noteq> [] \<and> length b \<le> storeBatchSize) \<and> w1 = fold (flush W) bs1 (flush W ?p w)"
      by (simp add: storeBatchSize_def)
    moreover have "length ?p \<le> storeBatchSize" using 2(4) by simp
    ultimately show ?thesis unfolding e by (auto simp: storeBatchSize_def)
  next
    case False
    with 2 show ?thesis by (simp add: Let_def)
  qed
next
  case (3 W evs pending w)
  show ?case
  proof (cases "pending = []")
    case True
    then have "BatchLoop W evs pending w = (bs, w')" using 3(3) by simp
    from 3(2) [OF _ this 3(4)] True show ?thesis by simp
  next
    case False
    obtain bs1 w1 where b: "BatchLoop W evs [] (flush W pending w) = (bs1, w1)" by (cases "BatchLoop W evs [] (flush W pending w)")
    with 3(3) False have e: "bs = pending # bs1" "w' = w1" by simp_all
    from 3(1) [OF False b] have "(\<exists>rest. concat bs1 @ rest = map (parseStoreItem (swUnmarshal W)) (taken evs) \<and> (ends evs \<longrightarrow> rest = []) \<and> length rest < storeBatchSize) \<and>
       (\<forall>b \<in> set (butlast bs1). b \<noteq> [] \<and> length b \<le> storeBatchSize) \<and> w1 = fold (flush W) bs1 (flush W pending w)"
      by (simp add: storeBatchSize_def)
    with False 3(4) show ?thesis unfolding e by auto
  qed
next
  case (1 W pending w)
  then show ?case by simp
next
  case (4 W evs pending w)
  then have "bs = [pending]" "w' = flush W pending w" by simp_all
  then show ?case by (simp add: storeBatchSize_def)
next
  case (5 W kms evs pending w)
  then have "bs = [pending @ map (parseStoreItem (swUnmarshal W)) kms]" "w' = flush W (pending @ map (parseStoreItem (swUnmarshal W)) kms) w"
    by (simp_all add: Let_def)
  then show ?case by (simp add: storeBatchSize_def)
qed

text \<open>The row of a user and conversation, and what an upsert does to it.\<close>

definition conv_at :: "int \<Rightarrow> string \<Rightarrow> conv_row list \<Rightarrow> conv_row option" where
  "conv_at uid c rows = List.find (\<lambda>r. conv_key r = (uid, c)) rows"

lemma conv_at_upsert:
  "conv_at uid c (upsert_row v rows) = (if conv_key v = (uid, c)
     then Some (case conv_at uid c rows of None \<Rightarrow> v
       | Some r \<Rightarrow> r\<lparr>cvLast := max (cvLast r) (cvLast v), cvUnread := cvUnread r + cvUnread v\<rparr>)
     else conv_at uid c rows)"
proof (cases "conv_key v \<in> conv_key ` set rows")
  case True
  let ?f = "\<lambda>r. if conv_key r = conv_key v
        then r\<lparr>cvLast := max (cvLast r) (cvLast v), cvUnread := cvUnread r + cvUnread v\<rparr> else r"
  have "conv_at uid c (map ?f rows) = map_option ?f (conv_at uid c rows)"
    unfolding conv_at_def by (rule find_map_keep) (simp add: conv_key_def)
  moreover have "conv_at uid c rows \<noteq> None" if "conv_key v = (uid, c)"
    using True that by (auto simp: conv_at_def find_None_iff)
  moreover have "conv_key r = (uid, c)" if "conv_at uid c rows = Some r" for r
    using that by (auto simp: conv_at_def find_Some_iff)
  ultimately show ?thesis using True by (auto simp: upsert_row_def split: option.splits)
next
  case False
  have "conv_at uid c rows = None" if "conv_key v = (uid, c)"
    using False that by (auto simp: conv_at_def find_None_iff image_iff)
  then show ?thesis using False by (auto simp: upsert_row_def conv_at_def find_append split: option.splits)
qed

definition unread_at :: "int \<Rightarrow> string \<Rightarrow> tables \<Rightarrow> int" where
  "unread_at uid c T = (case conv_at uid c (tConv T) of None \<Rightarrow> 0 | Some r \<Rightarrow> cvUnread r)"

lemma ReceiverOf_Inr:
  assumes "ReceiverOf m = Inr recv"
  obtains a b where "ParseP2PConv (pmConvId m) = Inr (a, b)" "a < b" "{pmSenderId m, recv} = {a, b}" "recv \<noteq> pmSenderId m"
proof -
  obtain a b where p: "ParseP2PConv (pmConvId m) = Inr (a, b)" using assms by (auto simp: ReceiverOf_def split: sum.splits)
  with ParseP2PConv_InrD [OF p] assms that show ?thesis by (auto simp: ReceiverOf_def split: if_splits)
qed

text \<open>A direct message counts once for its receiver and not for its sender.\<close>

lemma unread_upsert:
  assumes "ReceiverOf m = Inr recv" and "BuildConversationUpsert [m] = Inr rows"
  shows "unread_at recv (pmConvId m) (upsert_conv rows T) = unread_at recv (pmConvId m) T + 1"
    "unread_at (pmSenderId m) (pmConvId m) (upsert_conv rows T) = unread_at (pmSenderId m) (pmConvId m) T"
proof -
  from assms(1) obtain a b where p: "ParseP2PConv (pmConvId m) = Inr (a, b)" "a < b" "{pmSenderId m, recv} = {a, b}" "recv \<noteq> pmSenderId m"
    by (rule ReceiverOf_Inr)
  then have "recv = a \<and> pmSenderId m = b \<or> recv = b \<and> pmSenderId m = a" by (auto simp: doubleton_eq_iff)
  with p assms show "unread_at recv (pmConvId m) (upsert_conv rows T) = unread_at recv (pmConvId m) T + 1"
    "unread_at (pmSenderId m) (pmConvId m) (upsert_conv rows T) = unread_at (pmSenderId m) (pmConvId m) T"
    by (auto simp: unread_at_def upsert_conv_def conv_at_upsert conv_key_def split: option.splits)
qed

section \<open>The worker as it is wired\<close>

context services
begin

lemma Members_frame:
  assumes "Members R M g w = (res, w')"
  shows "sTabs (st w') = sTabs (st w) \<and> sLog (st w') = sLog (st w)"
proof -
  have load: "sTabs (st w2) = sTabs (st w1) \<and> sLog (st w2) = sLog (st w1)" if "loadAndBackfill R M g b w1 = (r, w2)" for b w1 r w2
  proof -
    obtain q v1 where q: "mQuery M w1 = (q, v1)" by (cases "mQuery M w1")
    obtain a v2 where a: "rSAdd R (ConvMembersKey g) (map format_int (select_members g (sTabs (st w1)))) v1 = (a, v2)"
      by (cases "rSAdd R (ConvMembersKey g) (map format_int (select_members g (sTabs (st w1)))) v1")
    obtain e v3 where e: "rExpire R (ConvMembersKey g) membersTTL v2 = (e, v3)" by (cases "rExpire R (ConvMembersKey g) membersTTL v2")
    from that q a e Query [OF q] wrote_key_other [OF SAdd [OF a]] Expire [OF e] show ?thesis
      by (auto simp: loadAndBackfill_def Let_def split: sum.splits if_splits)
  qed
  obtain r w1 where s: "rSMembers R (ConvMembersKey g) w = (r, w1)" by (cases "rSMembers R (ConvMembersKey g) w")
  from SMembers [OF s] assms s show ?thesis by (auto simp: Members_def dest!: load split: sum.splits if_splits)
qed

lemma trace_frame:
  assumes "\<And>w r w'. eRead E w = (r, w') \<Longrightarrow> st w' = st w"
    and "\<And>w t w'. eUnixNano E w = (t, w') \<Longrightarrow> sTabs (st w') = sTabs (st w) \<and> sLog (st w') = sLog (st w)"
    and "newTraceID E w = (t, w')"
  shows "sTabs (st w') = sTabs (st w) \<and> sLog (st w') = sLog (st w)"
proof -
  obtain r w1 where r: "eRead E w = (r, w1)" by (cases "eRead E w")
  obtain n w2 where n: "eUnixNano E w1 = (n, w2)" by (cases "eUnixNano E w1")
  from assms(1) [OF r] assms(2) [OF n] assms(3) r n show ?thesis by (auto simp: newTraceID_def split: sum.splits)
qed

lemma Send_frame:
  assumes "\<And>w r w'. eRead E w = (r, w') \<Longrightarrow> st w' = st w"
    and "\<And>w t w'. eUnixNano E w = (t, w') \<Longrightarrow> sTabs (st w') = sTabs (st w) \<and> sLog (st w') = sLog (st w)"
    and "Send E P t k v hs w = (res, w')"
  shows "sTabs (st w') = sTabs (st w) \<and>
    ((\<exists>hs'. sLog (st w') = sLog (st w) @ [\<lparr>kmTopic = t, kmKey = k, kmValue = v, kmHeaders = hs'\<rparr>]) \<or> isl res \<and> sLog (st w') = sLog (st w))"
proof -
  obtain h w1 where b: "buildHeaders E hs w = (h, w1)" by (cases "buildHeaders E hs w")
  obtain tr hd where f: "fold collect_headers hs ([], []) = (tr, hd)" by (cases "fold collect_headers hs ([], [])")
  obtain n v1 where n: "newTraceID E w = (n, v1)" by (cases "newTraceID E w")
  have "sTabs (st w1) = sTabs (st w) \<and> sLog (st w1) = sLog (st w)"
    using b f n trace_frame [OF assms(1,2) n] by (auto simp: buildHeaders_def split: if_splits)
  moreover obtain r w2 where p: "P \<lparr>kmTopic = t, kmKey = k, kmValue = v, kmHeaders = h\<rparr> w1 = (r, w2)"
    by (cases "P \<lparr>kmTopic = t, kmKey = k, kmValue = v, kmHeaders = h\<rparr> w1")
  ultimately show ?thesis using assms(3) b p Write [OF p] by (auto simp: Send_def wrote_def split: sum.splits)
qed

end

lemma store_deps_wired:
  assumes "services R M P now st"
    and "\<And>w r w'. eRead E w = (r, w') \<Longrightarrow> st w' = st w"
    and "\<And>w t w'. eUnixNano E w = (t, w') \<Longrightarrow> sTabs (st w') = sTabs (st w) \<and> sLog (st w') = sLog (st w)"
    and "\<And>ks w r w'. commit ks w = (r, w') \<Longrightarrow> st w' = st w" and "\<And>a w r w'. wait a w = (r, w') \<Longrightarrow> st w' = st w"
  shows "store_deps R M P now st (NewStoreWorker M (Send E P) commit (Some (GroupMembers R M)) un wait)"
proof -
  have send: "sTabs (st w') = sTabs (st w) \<and>
      ((\<exists>hs'. sLog (st w') = sLog (st w) @ [\<lparr>kmTopic = t, kmKey = k, kmValue = v, kmHeaders = hs'\<rparr>]) \<or> isl res \<and> sLog (st w') = sLog (st w))"
    if "Send E P t k v hs w = (res, w')" for t k v hs w res w'
    by (rule services.Send_frame [OF assms(1) _ _ that]) (use assms(2,3) in blast)+
  show ?thesis
    by (intro store_deps.intro store_deps_axioms.intro assms(1))
      (auto simp: NewStoreWorker_def GroupMembers_def dest: services.Members_frame [OF assms(1)] assms(4,5) dest!: send)
qed

section \<open>Groups that cannot be built\<close>

lemma fst_group_add: "fst ` set (group_add t m gs) = insert t (fst ` set gs)"
proof (induction gs)
  case (Cons g gs)
  then show ?case by (cases g) (simp add: insert_commute)
qed simp

lemma distinct_group_add: "distinct (map fst gs) \<Longrightarrow> distinct (map fst (group_add t m gs))"
proof (induction gs)
  case (Cons g gs)
  then show ?case by (cases g) (simp add: fst_group_add)
qed simp

lemma distinct_GroupByShard: "distinct (map fst (GroupByShard items))"
  unfolding GroupByShard_def
proof (induction items rule: rev_induct)
  case (snoc it items)
  then show ?case by (cases "siMsg it") (simp_all add: distinct_group_add)
qed simp

lemma bad_group:
  assumes "it \<in> set items" and "siMsg it = Some m" and "isl (parse_uint (pmMsgId m))"
    and "(ShardTable (pmConvId m), ms) \<in> set (GroupByShard items)"
  shows "isl (BuildMessageInsert ms)"
proof -
  obtain ms' where ms': "(ShardTable (pmConvId m), ms') \<in> set (GroupByShard items)" "m \<in> set ms'"
    using GroupByShard_complete [OF assms(1,2)] by blast
  then have "ms' = ms" using assms(4) distinct_GroupByShard [of items] by (metis eq_key_imp_eq_value)
  show ?thesis
  proof (rule ccontr)
    assume "\<not> isl (BuildMessageInsert ms)"
    then obtain rows where "BuildMessageInsert ms = Inr rows" by (cases "BuildMessageInsert ms") simp_all
    from BuildMessageInsert_Inr [OF this] ms'(2) \<open>ms' = ms\<close> assms(3) show False by auto
  qed
qed

context store_deps
begin

lemma insert_groups_skips:
  assumes "insert_groups W gs w = (res, w')" and "\<forall>ms. (t, ms) \<in> set gs \<longrightarrow> isl (BuildMessageInsert ms)"
  shows "tMsg (sTabs (st w')) t = tMsg (sTabs (st w)) t"
  using assms
proof (induction gs arbitrary: w)
  case (Cons g gs)
  obtain t' ms where g: "g = (t', ms)" by (cases g)
  show ?case
  proof (cases "BuildMessageInsert ms")
    case (Inl e)
    with Cons g show ?thesis by auto
  next
    case (Inr rows)
    with Cons.prems(2) g have "t' \<noteq> t" by auto
    obtain r w1 where x: "swExec W (\<lambda>T. Inr (insert_ignore t' rows T)) w = (r, w1)"
      by (cases "swExec W (\<lambda>T. Inr (insert_ignore t' rows T)) w")
    from exec_tables [OF x] \<open>t' \<noteq> t\<close> have "tMsg (sTabs (st w1)) t = tMsg (sTabs (st w)) t" by (auto simp: insert_ignore_def)
    with Cons g Inr x show ?thesis by (auto split: sum.splits)
  qed
qed simp

lemma writeBatch_skips:
  assumes "writeBatch W items w = (res, w')" and "\<forall>ms. (t, ms) \<in> set (GroupByShard items) \<longrightarrow> isl (BuildMessageInsert ms)"
  shows "tMsg (sTabs (st w')) t = tMsg (sTabs (st w)) t"
proof -
  obtain r w1 where i: "insert_groups W (GroupByShard items) w = (r, w1)" by (cases "insert_groups W (GroupByShard items) w")
  from insert_groups_skips [OF i assms(2)] assms(1) i show ?thesis
    by (auto simp: writeBatch_def insertMessages_def dest!: upsertConversations_spec split: sum.splits)
qed

lemma retry_skips:
  assumes "retry_from (swWait W) mx a (writeBatch W items) w = (res, w')"
    and "\<forall>ms. (t, ms) \<in> set (GroupByShard items) \<longrightarrow> isl (BuildMessageInsert ms)"
  shows "tMsg (sTabs (st w')) t = tMsg (sTabs (st w)) t"
  using assms(1)
proof (induction "mx - a" arbitrary: a w rule: less_induct)
  case less
  obtain r w1 where b: "writeBatch W items w = (r, w1)" by (cases "writeBatch W items w")
  obtain wr w2 where wt: "swWait W a w1 = (wr, w2)" by (cases "swWait W a w1")
  note B = writeBatch_skips [OF b assms(2)] and st2 = waits [OF wt]
  have ih: "tMsg (sTabs (st w')) t = tMsg (sTabs (st w2)) t"
    if "a < mx" "retry_from (swWait W) mx (a + 1) (writeBatch W items) w2 = (res, w')"
    using that by (intro less(1) [of "a + 1"]) auto
  from less(2) b wt B st2 ih show ?case by (subst (asm) retry_from.simps) (auto split: sum.splits if_splits)
qed

lemma flush_skips:
  assumes "\<forall>ms. (t, ms) \<in> set (GroupByShard items) \<longrightarrow> isl (BuildMessageInsert ms)"
  shows "tMsg (sTabs (st (flush W items w))) t = tMsg (sTabs (st w)) t"
proof -
  obtain r w1 where r: "retry_from (swWait W) storeMaxRetry 1 (writeBatch W items) w = (r, w1)"
    by (cases "retry_from (swWait W) storeMaxRetry 1 (writeBatch W items) w")
  from retry_skips [OF r assms] r show ?thesis
    by (cases r) (simp_all add: flush_def retryExec_def storeMaxRetry_def commitBatch_st dlq_tabs)
qed

lemma fold_flush_grows:
  assumes "\<forall>t. keys_ok (tMsg (sTabs (st w)) t)" and "\<forall>b \<in> set bs. set b \<subseteq> set items"
  shows "grows (row_of items) (sTabs (st w)) (sTabs (st (fold (flush W) bs w)))"
  using assms
proof (induction bs arbitrary: w)
  case (Cons b bs)
  have "row_of b t r \<Longrightarrow> row_of items t r" for t r using Cons.prems(2) unfolding row_of_def by auto
  with flush_spec [OF Cons.prems(1), of b] have g: "grows (row_of items) (sTabs (st w)) (sTabs (st (flush W b w)))"
    unfolding grows_def by meson
  then have "\<forall>t. keys_ok (tMsg (sTabs (st (flush W b w))) t)" using Cons.prems(1) by (simp add: grows_def)
  from Cons.IH [OF this] Cons.prems(2) grows_trans [OF g] show ?case by simp
qed simp

text \<open>What one direct message does to the counters when it is written alone.\<close>

lemma writeBatch_direct:
  assumes "writeBatch W [it] w = (Inr (), w')" and "siMsg it = Some m" and "pmConvType m \<noteq> 2" and "ReceiverOf m = Inr recv"
  shows "unread_at recv (pmConvId m) (sTabs (st w')) = unread_at recv (pmConvId m) (sTabs (st w)) + 1"
    "unread_at (pmSenderId m) (pmConvId m) (sTabs (st w')) = unread_at (pmSenderId m) (pmConvId m) (sTabs (st w))"
proof -
  from assms(4) obtain a b where p: "ParseP2PConv (pmConvId m) = Inr (a, b)" by (rule ReceiverOf_Inr)
  obtain rows where rows: "BuildConversationUpsert [m] = Inr rows" using p assms(4) by simp
  obtain r w1 where i: "insertMessages W [it] w = (r, w1)" by (cases "insertMessages W [it] w")
  obtain r2 w2 where x: "swExec W (\<lambda>T. Inr (upsert_conv rows T)) w1 = (r2, w2)" by (cases "swExec W (\<lambda>T. Inr (upsert_conv rows T)) w1")
  have "tConv (sTabs (st w1)) = tConv (sTabs (st w))"
  proof (cases "BuildMessageInsert [m]")
    case (Inl e)
    with i assms(2) have "w1 = w" by (simp add: insertMessages_def GroupByShard_def del: BuildMessageInsert.simps)
    then show ?thesis by simp
  next
    case (Inr rs)
    let ?q = "\<lambda>T. Inr (insert_ignore (ShardTable (pmConvId m)) rs T)"
    obtain q v where q: "swExec W ?q w = (q, v)" by (cases "swExec W ?q w")
    with i assms(2) Inr have "w1 = v"
      by (simp add: insertMessages_def GroupByShard_def del: BuildMessageInsert.simps split: sum.splits)
    with exec_tables [OF q] show ?thesis by (auto simp: insert_ignore_def)
  qed
  moreover have "r2 = Inr () \<and> w' = w2"
    using assms(1,2,3) i rows x by (auto simp: writeBatch_def upsertConversations_def split: sum.splits)
  moreover have "sTabs (st w2) = upsert_conv rows (sTabs (st w1))" using calculation(2) exec_tables [OF x] by auto
  ultimately show "unread_at recv (pmConvId m) (sTabs (st w')) = unread_at recv (pmConvId m) (sTabs (st w)) + 1"
    "unread_at (pmSenderId m) (pmConvId m) (sTabs (st w')) = unread_at (pmSenderId m) (pmConvId m) (sTabs (st w))"
    using unread_upsert [OF assms(4) rows, of "sTabs (st w1)"] by (simp_all add: unread_at_def)
qed

lemma writeBatch_again:
  assumes "writeBatch W [it] w = (res, w')" and "siMsg it = Some m" and "parse_uint (pmMsgId m) = Inr i"
    and "r' \<in> set (tMsg (sTabs (st w)) (ShardTable (pmConvId m)))" and "same_key (msg_row i m) r'"
  shows "tMsg (sTabs (st w')) = tMsg (sTabs (st w))"
proof -
  let ?q = "\<lambda>T. Inr (insert_ignore (ShardTable (pmConvId m)) [msg_row i m] T)"
  obtain r w1 where i: "insertMessages W [it] w = (r, w1)" by (cases "insertMessages W [it] w")
  obtain q v where q: "swExec W ?q w = (q, v)" by (cases "swExec W ?q w")
  have "tMsg (insert_ignore (ShardTable (pmConvId m)) [msg_row i m] (sTabs (st w))) = tMsg (sTabs (st w))"
    using assms(4,5) by (auto simp: insert_ignore_def add_row_def)
  then have "tMsg (sTabs (st v)) = tMsg (sTabs (st w))" using exec_tables [OF q] by auto
  moreover have "w1 = v" using i assms(2,3) q by (auto simp: insertMessages_def GroupByShard_def split: sum.splits)
  ultimately show ?thesis
    using assms(1) i by (auto simp: writeBatch_def dest!: upsertConversations_spec split: sum.splits)
qed

end

section \<open>A worker to run\<close>

definition demo_store_msg :: PbMsg where
  "demo_store_msg = \<lparr>pmMsgId = ''42'', pmConvId = ''c:1:2'', pmConvType = 1, pmSenderId = 1, pmMsgType = 1,
     pmPayload = [104, 105], pmSeq = 3, pmTimestamp = 1704067200000, pmStatus = 0\<rparr>"

definition demo_unmarshal :: "bytes \<Rightarrow> PbMsg result" where
  "demo_unmarshal b =
     (if b = [] then Inl (Err ''proto'') else Inr (demo_store_msg\<lparr>pmMsgId := if b = [1] then ''42'' else ''x''\<rparr>))"

definition demo_store :: "mem StoreWorker" where
  "demo_store = NewStoreWorker mem_mysql (Send demo_entropy mem_kafka) (\<lambda>ks m. (Inr (), m)) (Some (GroupMembers mem_redis mem_mysql))
     demo_unmarshal (\<lambda>a m. (Inr (), m))"

definition demo_km :: "bytes \<Rightarrow> kmsg" where
  "demo_km b = \<lparr>kmTopic = ''msg.store'', kmKey = [], kmValue = b, kmHeaders = []\<rparr>"

interpretation mems: store_deps mem_redis mem_mysql mem_kafka mem_now mem_st demo_store
  unfolding demo_store_def
  by (rule store_deps_wired [OF mem.services_axioms]) (auto simp: demo_entropy_def mem_now_def)

lemma demo_keys: "\<forall>t. keys_ok (tMsg (sTabs (mem_st (demo_world fs))) t)"
  by (simp add: demo_world_def mem_st_def demo_tables_def keys_ok_def)

lemma demo_id: "parse_uint (pmMsgId demo_store_msg) = Inr 42"
  by (simp add: demo_store_msg_def parse_uint_def is_digit_def digit_val_def)

lemma demo_write:
  assumes "mmFaults w = []"
  shows "\<exists>w'. writeBatch demo_store [\<lparr>siMsg = Some demo_store_msg, siKm = demo_km [1]\<rparr>] w = (Inr (), w') \<and> mmFaults w' = []"
proof -
  have "ParseP2PConv ''c:1:2'' = Inr (1, 2)" by (simp add: ParseP2PConv_def)
  then show ?thesis
    using assms demo_id by (simp add: writeBatch_def insertMessages_def GroupByShard_def upsertConversations_def demo_store_def
        NewStoreWorker_def mem_mysql_def mem_call_def demo_store_msg_def ReceiverOf_def)
qed

section \<open>Properties\<close>

text \<open>
  The message tables under the store worker. Whatever the loop finds in its channel and whatever
  the database answers, no stored message is changed, moved or removed, both keys of every table
  stay unique, and each new row is a received message under its own id, in the table of its
  conversation.
\<close>

theorem store_tables_grow:
  assumes "store_deps R M P now st W" and "\<forall>t. keys_ok (tMsg (sTabs (st w)) t)" and "BatchLoop W evs [] w = (bs, w')"
  shows "\<forall>t. keys_ok (tMsg (sTabs (st w')) t) \<and> (\<exists>new. tMsg (sTabs (st w')) t = tMsg (sTabs (st w)) t @ new \<and>
    (\<forall>r \<in> set new. row_of (map (parseStoreItem (swUnmarshal W)) (taken evs)) t r))"
proof -
  note L = BatchLoop_concat [OF assms(3), simplified]
  then obtain rest where rest: "concat bs @ rest = map (parseStoreItem (swUnmarshal W)) (taken evs)" and w': "w' = fold (flush W) bs w"
    by (auto simp: storeBatchSize_def)
  have "\<forall>b \<in> set bs. set b \<subseteq> set (map (parseStoreItem (swUnmarshal W)) (taken evs))"
    unfolding rest [symmetric] by auto
  from store_deps.fold_flush_grows [OF assms(1,2) this] assms(2) show ?thesis unfolding w' grows_def by blast
qed

theorem store_tables_grow_witness:
  "\<exists>bs w'. BatchLoop demo_store [Received (demo_km [1]), Tick, Received (demo_km []), Closed] [] (demo_world [1, 0]) = (bs, w') \<and>
    keys_ok (tMsg (sTabs (mem_st w')) (ShardTable ''c:1:2''))"
proof -
  obtain bs w' where b: "BatchLoop demo_store [Received (demo_km [1]), Tick, Received (demo_km []), Closed] [] (demo_world [1, 0]) = (bs, w')"
    by (cases "BatchLoop demo_store [Received (demo_km [1]), Tick, Received (demo_km []), Closed] [] (demo_world [1, 0])")
  with store_tables_grow [OF mems.store_deps_axioms demo_keys b] show ?thesis by blast
qed

text \<open>What a flush does with one message of its batch: it is in its table, or the batch is a dead letter.\<close>

lemma flush_stores:
  assumes "store_deps R M P now st W" and "\<forall>t. keys_ok (tMsg (sTabs (st w)) t)"
    and "\<And>t k v hs w. \<not> isl (fst (swProducer W t k v hs w))"
    and "it \<in> set items" and "siMsg it = Some m" and "parse_uint (pmMsgId m) = Inr i"
    and "\<And>it' m'. it' \<in> set items \<Longrightarrow> siMsg it' = Some m' \<Longrightarrow> ShardTable (pmConvId m') = ShardTable (pmConvId m) \<Longrightarrow>
      \<not> isl (parse_uint (pmMsgId m'))"
  shows "(\<exists>r \<in> set (tMsg (sTabs (st (flush W items w))) (ShardTable (pmConvId m))). same_key (msg_row i m) r) \<or>
    (\<exists>recs. sLog (st (flush W items w)) = sLog (st w) @ recs \<and>
      map (\<lambda>k. (kmTopic k, kmKey k, kmValue k)) recs = map (\<lambda>it. (TopicDLQStore, kmKey (siKm it), kmValue (siKm it))) items)"
proof -
  obtain ms where ms: "(ShardTable (pmConvId m), ms) \<in> set (GroupByShard items)" "m \<in> set ms"
    using GroupByShard_complete [OF assms(4,5)] by blast
  have "\<not> isl (parse_uint (pmMsgId m'))" if "m' \<in> set ms" for m'
    using GroupByShard_sound [OF ms(1) that] assms(7) by metis
  then obtain rows where rows: "BuildMessageInsert ms = Inr rows" using BuildMessageInsert_total by blast
  then have "msg_row i m \<in> set rows" using BuildMessageInsert_Inr [OF rows] ms(2) assms(6) by auto
  with store_deps.flush_spec [OF assms(1,2), of items] ms(1) rows show ?thesis
    using store_deps.dlq_log [OF assms(1,3)] by (metis (no_types, lifting))
qed


definition demo_dlq :: "mem Producer" where
  "demo_dlq t k v hs m = (Inr (), m\<lparr>mmLog := mmLog m @ [\<lparr>kmTopic = t, kmKey = k, kmValue = v, kmHeaders = concat hs\<rparr>]\<rparr>)"


text \<open>
  A message whose id is not a number takes its table with it. Every message of the batch for the
  same table is left unstored, and not dead-lettered, although the batch is committed.
\<close>

theorem bad_id_drops_group:
  assumes "store_deps R M P now st W" and "it \<in> set items" and "siMsg it = Some m" and "isl (parse_uint (pmMsgId m))"
  shows "tMsg (sTabs (st (flush W items w))) (ShardTable (pmConvId m)) = tMsg (sTabs (st w)) (ShardTable (pmConvId m))"
  using bad_group [OF assms(2,3,4)] by (intro store_deps.flush_skips [OF assms(1)]) blast

theorem bad_id_drops_group_witness:
  "tMsg (sTabs (mem_st (flush demo_store (map (parseStoreItem demo_unmarshal) [demo_km [1], demo_km [2]]) (demo_world [])))) (ShardTable ''c:1:2'') = []"
proof -
  let ?items = "map (parseStoreItem demo_unmarshal) [demo_km [1], demo_km [2]]"
  let ?m = "demo_store_msg\<lparr>pmMsgId := ''x''\<rparr>"
  have "siMsg (last ?items) = Some ?m" "isl (parse_uint (pmMsgId ?m))" "last ?items \<in> set ?items" "pmConvId ?m = ''c:1:2''"
    by (simp_all add: parseStoreItem_def demo_unmarshal_def demo_km_def demo_store_msg_def parse_uint_def is_digit_def digit_val_def)
  with bad_id_drops_group [OF mems.store_deps_axioms, of "last ?items" ?items ?m "demo_world []"] show ?thesis
    by (simp add: demo_world_def mem_st_def demo_tables_def)
qed

text \<open>
  C40: redelivery. Kafka may deliver a record again, and a batch that failed half way is written again:
  a direct message written twice is stored once, but counts twice as unread for its receiver (and
  never for its sender).
\<close>

theorem redelivery_counts_twice:
  assumes "store_deps R M P now st W" and "\<forall>t. keys_ok (tMsg (sTabs (st w)) t)"
    and "siMsg it = Some m" and "pmConvType m \<noteq> 2" and "ReceiverOf m = Inr recv" and "parse_uint (pmMsgId m) = Inr i"
    and "writeBatch W [it] w = (Inr (), w1)" and "writeBatch W [it] w1 = (Inr (), w2)"
  shows "tMsg (sTabs (st w2)) = tMsg (sTabs (st w1)) \<and>
    unread_at recv (pmConvId m) (sTabs (st w2)) = unread_at recv (pmConvId m) (sTabs (st w)) + 2 \<and>
    unread_at (pmSenderId m) (pmConvId m) (sTabs (st w2)) = unread_at (pmSenderId m) (pmConvId m) (sTabs (st w))"
proof -
  have "(ShardTable (pmConvId m), [m]) \<in> set (GroupByShard [it])" "BuildMessageInsert [m] = Inr [msg_row i m]"
    using assms(3,6) by (simp_all add: GroupByShard_def)
  then obtain r' where "r' \<in> set (tMsg (sTabs (st w1)) (ShardTable (pmConvId m)))" "same_key (msg_row i m) r'"
    using store_deps.writeBatch_spec [OF assms(1,7,2)] by (metis list.set_intros(1))
  note again = store_deps.writeBatch_again [OF assms(1,8,3,6) this]
  note first = store_deps.writeBatch_direct [OF assms(1,7,3,4,5)] and second = store_deps.writeBatch_direct [OF assms(1,8,3,4,5)]
  from again first second show ?thesis by simp
qed

theorem redelivery_counts_twice_witness:
  "\<exists>w1 w2. writeBatch demo_store [\<lparr>siMsg = Some demo_store_msg, siKm = demo_km [1]\<rparr>] (demo_world []) = (Inr (), w1) \<and>
    writeBatch demo_store [\<lparr>siMsg = Some demo_store_msg, siKm = demo_km [1]\<rparr>] w1 = (Inr (), w2) \<and>
    unread_at 2 ''c:1:2'' (sTabs (mem_st w2)) = 2"
proof -
  let ?it = "\<lparr>siMsg = Some demo_store_msg, siKm = demo_km [1]\<rparr>"
  have p: "ParseP2PConv ''c:1:2'' = Inr (1, 2)" by (simp add: ParseP2PConv_def)
  have r: "ReceiverOf demo_store_msg = Inr 2" by (simp add: ReceiverOf_def demo_store_msg_def p)
  have "mmFaults (demo_world []) = []" by (simp add: demo_world_def)
  then obtain w1 where w1: "writeBatch demo_store [?it] (demo_world []) = (Inr (), w1)" "mmFaults w1 = []" using demo_write by blast
  then obtain w2 where w2: "writeBatch demo_store [?it] w1 = (Inr (), w2)" using demo_write by blast
  from redelivery_counts_twice [OF mems.store_deps_axioms demo_keys _ _ r demo_id w1(1) w2] w1(1) w2 show ?thesis
    by (simp add: unread_at_def conv_at_def demo_store_msg_def demo_world_def mem_st_def demo_tables_def)
qed

text \<open>
  Batching. When the loop has ended, the batches it flushed are together the records it took, in
  their order, each batch but the last holds between one and a hundred records, and nothing but the
  flushes touched the world.
\<close>

theorem batches_in_order:
  assumes "BatchLoop W evs [] w = (bs, w')" and "ends evs"
  shows "concat bs = map (parseStoreItem (swUnmarshal W)) (taken evs) \<and>
    (\<forall>b \<in> set (butlast bs). b \<noteq> [] \<and> length b \<le> storeBatchSize) \<and> w' = fold (flush W) bs w"
  using BatchLoop_concat [OF assms(1)] assms(2) by (auto simp: storeBatchSize_def)

theorem batches_in_order_witness:
  "\<exists>bs w'. BatchLoop demo_store [Received (demo_km [1]), Tick, Cancelled [demo_km [], demo_km [2]]] [] (demo_world []) = (bs, w') \<and>
    length (concat bs) = 3"
proof -
  let ?evs = "[Received (demo_km [1]), Tick, Cancelled [demo_km [], demo_km [2]]]"
  obtain bs w' where b: "BatchLoop demo_store ?evs [] (demo_world []) = (bs, w')" by (cases "BatchLoop demo_store ?evs [] (demo_world [])")
  with batches_in_order [OF b] show ?thesis by simp
qed

end
