(* ===== verification/JobPush.thy ===== *)
theory JobPush
  imports Comet JobStore
begin

text \<open>
  The other consumers of \<^verbatim>\<open>internal/job\<close>: the push worker that hands a message to the comets of its
  receiver (\<^verbatim>\<open>push.go\<close>), the worker for changes of group membership (\<^verbatim>\<open>group.go\<close>), the consumer loop
  (\<^verbatim>\<open>runloop.go\<close>) and the clean-up of the route table (\<^verbatim>\<open>reconcile.go\<close>). The comets are a call per
  address. Shown: a push goes to the devices of its receiver's route whose comet is alive and to
  no other, and to each of them; a membership event never disturbs an existing conversation row; the
  clean-up ends and removes only entries of comets that are gone.
\<close>

section \<open>Connections to comets\<close>

record 'w PushWorker =
  pwRdb :: "'w redis"
  pwUnmarshal :: "bytes \<Rightarrow> Envelope result"
  pwMarshal :: "PbMsg \<Rightarrow> bytes result"
  pwDial :: "string \<Rightarrow> ('w, unit) call"
  pwPush :: "string \<Rightarrow> PushFramesReq \<Rightarrow> ('w, PushFramesResp) call"
  pwHang :: "string \<Rightarrow> ('w, unit) call"

text \<open>The pool of \<open>CometPool\<close> (the addresses it has connections to) beside the world.\<close>

record 'w pooled =
  poConns :: "string list"
  poWorld :: 'w

definition NewCometPool :: "'w \<Rightarrow> 'w pooled" where
  "NewCometPool w = \<lparr>poConns = [], poWorld = w\<rparr>"

definition pool_Get :: "'w PushWorker \<Rightarrow> string \<Rightarrow> ('w pooled, unit) call" where
  "pool_Get W addr s =
     (if addr \<in> set (poConns s) then (Inr (), s)
      else case pwDial W addr (poWorld s) of
        (Inl e, w1) \<Rightarrow> (Inl (errorf (''job: dial comet '' @ addr) e), s\<lparr>poWorld := w1\<rparr>)
      | (Inr _, w1) \<Rightarrow> (Inr (), s\<lparr>poConns := poConns s @ [addr], poWorld := w1\<rparr>))"

definition pool_Close :: "'w PushWorker \<Rightarrow> 'w pooled \<Rightarrow> 'w pooled" where
  "pool_Close W s = \<lparr>poConns = [], poWorld = fold (\<lambda>addr w. snd (pwHang W addr w)) (poConns s) (poWorld s)\<rparr>"

section \<open>Pushing\<close>

definition BuildPushFrame :: "(PbMsg \<Rightarrow> bytes result) \<Rightarrow> PbMsg \<Rightarrow> bytes result" where
  "BuildPushFrame marshal msg =
     (case marshal msg of
        Inl e \<Rightarrow> Inl (errorf ''job: marshal PbMsg'' e)
      | Inr body \<Rightarrow> Encode \<lparr>fVer = ProtoVer, fCmd = CmdMsgPush, fSeq = 0, fBody = body\<rparr>)"

fun deviceOfField :: "string \<Rightarrow> string" where
  "deviceOfField field = (case dropWhile (\<lambda>c. c \<noteq> CHR '':'') field of [] \<Rightarrow> field | _ # device \<Rightarrow> device)"

text \<open>The attempts of \<open>pushToOne\<close>, of which the code makes two.\<close>

fun push_attempts :: "'w PushWorker \<Rightarrow> nat \<Rightarrow> string \<Rightarrow> PushFramesReq \<Rightarrow> 'w \<Rightarrow> 'w" where
  "push_attempts W 0 addr req w = w"
| "push_attempts W (Suc n) addr req w =
     (case pwPush W addr req w of
        (Inr resp, w1) \<Rightarrow> w1
      | (Inl e, w1) \<Rightarrow> push_attempts W n addr req w1)"

definition pushToOne :: "'w PushWorker \<Rightarrow> string \<Rightarrow> int \<Rightarrow> string \<Rightarrow> bytes \<Rightarrow> 'w pooled \<Rightarrow> 'w pooled" where
  "pushToOne W addr uid device frame s =
     (case pool_Get W addr s of
        (Inl e, s1) \<Rightarrow> s1
      | (Inr _, s1) \<Rightarrow>
          s1\<lparr>poWorld := push_attempts W 2 addr \<lparr>pfUid = uid, pfDeviceId = device, pfFrames = [frame]\<rparr> (poWorld s1)\<rparr>)"

fun push_route :: "'w PushWorker \<Rightarrow> int \<Rightarrow> bytes \<Rightarrow> (string \<times> string) list \<Rightarrow> 'w pooled \<Rightarrow> 'w pooled" where
  "push_route W recv frame [] s = s"
| "push_route W recv frame ((field, addr) # route) s =
     (let device = deviceOfField field in
      case rExists (pwRdb W) (CometAliveKey addr) (poWorld s) of
        (Inl e, w1) \<Rightarrow> push_route W recv frame route (s\<lparr>poWorld := w1\<rparr>)
      | (Inr n, w1) \<Rightarrow>
          if n = 0 then push_route W recv frame route (s\<lparr>poWorld := w1\<rparr>)
          else push_route W recv frame route (pushToOne W addr recv device frame (s\<lparr>poWorld := w1\<rparr>)))"

definition push_Handle :: "'w PushWorker \<Rightarrow> kmsg \<Rightarrow> ('w pooled, unit) call" where
  "push_Handle W km s =
     (case pwUnmarshal W (kmValue km) of
        Inl e \<Rightarrow> (Inr (), s)
      | Inr env \<Rightarrow>
          (case enMsg env of
             None \<Rightarrow> (Inr (), s)
           | Some msg \<Rightarrow>
               if enRecvUid env \<le> 0 then (Inr (), s)
               else case rHGetAll (pwRdb W) (RouteKey (enRecvUid env)) (poWorld s) of
                 (Inl e, w1) \<Rightarrow> (Inr (), s\<lparr>poWorld := w1\<rparr>)
               | (Inr route, w1) \<Rightarrow>
                   if route = [] then (Inr (), s\<lparr>poWorld := w1\<rparr>)
                   else case BuildPushFrame (pwMarshal W) msg of
                     Inl e \<Rightarrow> (Inr (), s\<lparr>poWorld := w1\<rparr>)
                   | Inr frame \<Rightarrow> (Inr (), push_route W (enRecvUid env) frame route (s\<lparr>poWorld := w1\<rparr>))))"

section \<open>Group events\<close>

record groupEvent =
  geEvent :: string
  geGid :: int
  geUID :: int

definition TopicGroupEvent :: string where "TopicGroupEvent = ''group.event''"

text \<open>\<open>INSERT IGNORE INTO conversation\<close>: nothing if the row of the user and conversation exists.\<close>

definition insert_conv :: "int \<Rightarrow> string \<Rightarrow> int \<Rightarrow> tables \<Rightarrow> tables" where
  "insert_conv uid convID gid T =
     (if (uid, convID) \<in> conv_key ` set (tConv T) then T
      else T\<lparr>tConv := tConv T @ [\<lparr>cvUid = uid, cvConv = convID, cvType = 2, cvTarget = gid, cvLast = 0, cvRead = 0, cvUnread = 0\<rparr>]\<rparr>)"

definition group_Handle :: "'w redis \<Rightarrow> 'w mysql \<Rightarrow> (bytes \<Rightarrow> groupEvent result) \<Rightarrow> kmsg \<Rightarrow> ('w, unit) call" where
  "group_Handle rdb db un km w =
     (case un (kmValue km) of
        Inl e \<Rightarrow> (Inr (), w)
      | Inr ev \<Rightarrow>
          if geGid ev \<le> 0 \<or> geUID ev \<le> 0 then (Inr (), w)
          else (let (_, w1) = rDel rdb (ConvMembersKey (geGid ev)) w in
            if geEvent ev = ''join''
            then (let (_, w2) = mExec db (\<lambda>T. Inr (insert_conv (geUID ev) (ConvIDForGroup (geGid ev)) (geGid ev) T)) w1 in (Inr (), w2))
            else (Inr (), w1)))"

section \<open>The consumer loop\<close>

text \<open>
  \<open>RunLoop\<close> on what \<open>FetchMessage\<close> returns, one element per round: a record, or an error and whether
  the context had ended. The result is \<open>None\<close> while the loop goes on after the last element.
\<close>

datatype fetch = Fetched kmsg | FetchFailed error bool

fun RunLoop :: "(kmsg \<Rightarrow> ('w, unit) call) \<Rightarrow> (kmsg \<Rightarrow> ('w, unit) call) \<Rightarrow> ('w \<Rightarrow> bool) \<Rightarrow> fetch list \<Rightarrow> 'w \<Rightarrow> unit result option \<times> 'w" where
  "RunLoop handler commit ended [] w = (None, w)"
| "RunLoop handler commit ended (FetchFailed e done # fs) w = (Some (if done then Inr () else Inl e), w)"
| "RunLoop handler commit ended (Fetched km # fs) w =
     (case handler km w of
        (Inl e, w1) \<Rightarrow> RunLoop handler commit ended fs w1
      | (Inr _, w1) \<Rightarrow>
          (case commit km w1 of
             (Inl e, w2) \<Rightarrow> (Some (if ended w2 then Inr () else Inl e), w2)
           | (Inr _, w2) \<Rightarrow> RunLoop handler commit ended fs w2))"

text \<open>\<open>StoreRunLoop\<close>: each fetched record with whether the channel took it before the context ended.\<close>

datatype store_fetch = StoreFetched kmsg bool | StoreFailed error bool

fun StoreRunLoop :: "store_fetch list \<Rightarrow> kmsg list \<Rightarrow> unit result option \<times> kmsg list" where
  "StoreRunLoop [] ch = (None, ch)"
| "StoreRunLoop (StoreFailed e done # fs) ch = (Some (if done then Inr () else Inl e), ch)"
| "StoreRunLoop (StoreFetched km sent # fs) ch = (if sent then StoreRunLoop fs (ch @ [km]) else (Some (Inr ()), ch))"

section \<open>Cleaning the route table\<close>

definition reconcileScanCT :: int where "reconcileScanCT = 1000"

fun check_alive :: "'w redis \<Rightarrow> (string \<times> string) list \<Rightarrow> (string \<times> bool) list \<Rightarrow> ('w, (string \<times> bool) list) call" where
  "check_alive rdb [] alive w = (Inr alive, w)"
| "check_alive rdb ((field, addr) # route) alive w =
     (if addr \<in> fst ` set alive then check_alive rdb route alive w
      else case rExists rdb (CometAliveKey addr) w of
        (Inl e, w1) \<Rightarrow> (Inl e, w1)
      | (Inr n, w1) \<Rightarrow> check_alive rdb route ((addr, 0 < n) # alive) w1)"

definition reconcileHash :: "'w redis \<Rightarrow> string \<Rightarrow> ('w, int) call" where
  "reconcileHash rdb key w =
     (case rHGetAll rdb key w of
        (Inl e, w1) \<Rightarrow> (Inl e, w1)
      | (Inr route, w1) \<Rightarrow>
          (case check_alive rdb route [] w1 of
             (Inl e, w2) \<Rightarrow> (Inl e, w2)
           | (Inr alive, w2) \<Rightarrow>
               (let stale = map fst (filter (\<lambda>(field, addr). map_of alive addr \<noteq> Some True) route) in
                if stale = [] then (Inr 0, w2)
                else case rHDel rdb key stale w2 of
                  (Inl e, w3) \<Rightarrow> (Inl e, w3)
                | (Inr _, w3) \<Rightarrow> (Inr (int (length stale)), w3))))"

fun reconcile_keys :: "'w redis \<Rightarrow> string list \<Rightarrow> int \<Rightarrow> 'w \<Rightarrow> int \<times> 'w" where
  "reconcile_keys rdb [] removed w = (removed, w)"
| "reconcile_keys rdb (key # keys) removed w =
     (case reconcileHash rdb key w of
        (Inl e, w1) \<Rightarrow> reconcile_keys rdb keys removed w1
      | (Inr n, w1) \<Rightarrow> reconcile_keys rdb keys (removed + n) w1)"

text \<open>The SCAN loop; \<open>None\<close> if the cursor never returns to 0.\<close>

partial_function (option) reconcile_scan :: "'w redis \<Rightarrow> nat \<Rightarrow> int \<Rightarrow> 'w \<Rightarrow> ((int \<times> error option) \<times> 'w) option" where
  "reconcile_scan rdb cursor removed w =
     (case rScan rdb cursor ''route:*'' reconcileScanCT w of
        (Inl e, w1) \<Rightarrow> Some ((removed, Some e), w1)
      | (Inr (keys, nxt), w1) \<Rightarrow>
          (let (removed', w2) = reconcile_keys rdb keys removed w1 in
           if nxt = 0 then Some ((removed', None), w2) else reconcile_scan rdb nxt removed' w2))"

definition ReconcileOnce :: "'w redis \<Rightarrow> 'w \<Rightarrow> ((int \<times> error option) \<times> 'w) option" where
  "ReconcileOnce rdb w = reconcile_scan rdb 0 0 w"

text \<open>\<open>Run\<close> on what its select receives: a tick (\<open>True\<close>) or the cancellation; \<open>None\<close> if a pass never ends.\<close>

fun Reconciler_Run :: "'w redis \<Rightarrow> bool list \<Rightarrow> 'w \<Rightarrow> 'w option" where
  "Reconciler_Run rdb [] w = Some w"
| "Reconciler_Run rdb (False # evs) w = Some w"
| "Reconciler_Run rdb (True # evs) w =
     (case ReconcileOnce rdb w of None \<Rightarrow> None | Some (_, w1) \<Rightarrow> Reconciler_Run rdb evs w1)"

section \<open>Devices of a route\<close>

lemma deviceOfField_routeField: "deviceOfField (routeField platform device) = device"
proof -
  have "dropWhile (\<lambda>c. c \<noteq> CHR '':'') (xs @ CHR '':'' # ys) = CHR '':'' # ys" if "CHR '':'' \<notin> set xs" for xs ys :: string
    using that by (induction xs) auto
  moreover have "CHR '':'' \<notin> set (format_int platform)" using format_int_chars [of "CHR '':''" platform] by (auto simp: is_digit_def)
  ultimately show ?thesis by (simp add: routeField_def)
qed

lemma BuildPushFrame_Decode:
  assumes "BuildPushFrame marshal m = Inr frame"
  obtains body where "marshal m = Inr body" "Decode frame = Inr \<lparr>fVer = ProtoVer, fCmd = CmdMsgPush, fSeq = 0, fBody = body\<rparr>"
proof -
  from assms obtain body where body: "marshal m = Inr body"
      "Encode \<lparr>fVer = ProtoVer, fCmd = CmdMsgPush, fSeq = 0, fBody = body\<rparr> = Inr frame"
    by (auto simp: BuildPushFrame_def split: sum.splits)
  then have "length frame < 2 ^ 32" using Encode_length [OF body(2)] Encode_InrD [OF body(2)] by (simp add: HeaderLen_def MaxBodyLen_def)
  with body that show ?thesis by (simp add: Decode_Encode_iff)
qed

definition comet_alive :: "svc \<Rightarrow> string \<Rightarrow> bool" where
  "comet_alive s addr \<longleftrightarrow> sKeys s (CometAliveKey addr) \<noteq> None"

definition push_req :: "int \<Rightarrow> bytes \<Rightarrow> string \<Rightarrow> PushFramesReq" where
  "push_req recv frame field = \<lparr>pfUid = recv, pfDeviceId = deviceOfField field, pfFrames = [frame]\<rparr>"

section \<open>What pushing relies on\<close>

text \<open>
  \<open>calls\<close> is the sequence of push requests made so far with their addresses. A request reaches the log
  whether or not its answer arrives; nothing else does.
\<close>

locale push_deps = services R M P now st
  for R :: "'w redis" and M :: "'w mysql" and P :: "'w kwriter" and now :: "'w \<Rightarrow> int \<times> 'w" and st :: "'w \<Rightarrow> svc" +
  fixes W :: "'w PushWorker" and calls :: "'w \<Rightarrow> (string \<times> PushFramesReq) list"
  assumes rdb: "pwRdb W = R"
    and dial: "\<And>a w r w'. pwDial W a w = (r, w') \<Longrightarrow> st w' = st w \<and> calls w' = calls w"
    and pushed: "\<And>a q w r w'. pwPush W a q w = (r, w') \<Longrightarrow> st w' = st w \<and> calls w' = calls w @ [(a, q)]"
    and exists_calls: "\<And>k w r w'. rExists R k w = (r, w') \<Longrightarrow> calls w' = calls w"
    and hgetall_calls: "\<And>k w r w'. rHGetAll R k w = (r, w') \<Longrightarrow> calls w' = calls w"
begin

lemma push_attempts_spec:
  "\<exists>k \<le> n. st (push_attempts W n addr req w) = st w \<and> calls (push_attempts W n addr req w) = calls w @ replicate k (addr, req) \<and>
     (0 < n \<longrightarrow> 0 < k)"
proof (induction n arbitrary: w)
  case (Suc n)
  obtain r w1 where p: "pwPush W addr req w = (r, w1)" by (cases "pwPush W addr req w")
  note P = pushed [OF p]
  show ?case
  proof (cases r)
    case (Inl e)
    from Suc [of w1] obtain k where "k \<le> n" "st (push_attempts W n addr req w1) = st w1"
        "calls (push_attempts W n addr req w1) = calls w1 @ replicate k (addr, req)" by blast
    with P p Inl show ?thesis by (intro exI [of _ "Suc k"]) simp
  next
    case (Inr v)
    with P p show ?thesis by (intro exI [of _ 1]) simp
  qed
qed simp

lemma pool_Get_frame:
  "pool_Get W addr s = (r, s') \<Longrightarrow> st (poWorld s') = st (poWorld s) \<and> calls (poWorld s') = calls (poWorld s)"
  by (auto simp: pool_Get_def dest!: dial split: if_splits sum.splits prod.splits)

lemma pool_Get_dialled: "pool_Get W addr s = (Inl e, s') \<Longrightarrow> \<exists>w. isl (fst (pwDial W addr w))"
  by (intro exI [of _ "poWorld s"], cases "pwDial W addr (poWorld s)") (auto simp: pool_Get_def split: if_splits sum.splits)

lemma pushToOne_spec:
  "\<exists>k \<le> 2. st (poWorld (pushToOne W addr recv d frame s)) = st (poWorld s) \<and>
     calls (poWorld (pushToOne W addr recv d frame s)) =
       calls (poWorld s) @ replicate k (addr, \<lparr>pfUid = recv, pfDeviceId = d, pfFrames = [frame]\<rparr>) \<and>
     ((\<forall>a w. \<not> isl (fst (pwDial W a w))) \<longrightarrow> 0 < k)"
proof -
  obtain r s1 where g: "pool_Get W addr s = (r, s1)" by (cases "pool_Get W addr s")
  note G = pool_Get_frame [OF g]
  show ?thesis
  proof (cases r)
    case (Inl e)
    with pool_Get_dialled g have "\<not> (\<forall>a w. \<not> isl (fst (pwDial W a w)))" by blast
    with Inl g G show ?thesis by (intro exI [of _ 0]) (simp add: pushToOne_def)
  next
    case (Inr u)
    obtain k where "k \<le> 2" "st (push_attempts W 2 addr \<lparr>pfUid = recv, pfDeviceId = d, pfFrames = [frame]\<rparr> (poWorld s1)) = st (poWorld s1)"
        "calls (push_attempts W 2 addr \<lparr>pfUid = recv, pfDeviceId = d, pfFrames = [frame]\<rparr> (poWorld s1)) =
          calls (poWorld s1) @ replicate k (addr, \<lparr>pfUid = recv, pfDeviceId = d, pfFrames = [frame]\<rparr>)" "0 < k"
      using push_attempts_spec [of 2 addr "\<lparr>pfUid = recv, pfDeviceId = d, pfFrames = [frame]\<rparr>" "poWorld s1"] by auto
    with Inr g G show ?thesis by (intro exI [of _ k]) (simp add: pushToOne_def)
  qed
qed

lemma push_route_spec:
  "\<exists>new. st (poWorld (push_route W recv frame route s)) = st (poWorld s) \<and>
     calls (poWorld (push_route W recv frame route s)) = calls (poWorld s) @ new \<and>
     (\<forall>(a, q) \<in> set new. comet_alive (st (poWorld s)) a \<and> (\<exists>field. (field, a) \<in> set route \<and> q = push_req recv frame field)) \<and>
     ((\<forall>a w. \<not> isl (fst (pwDial W a w))) \<longrightarrow> (\<forall>k w. \<not> isl (fst (rExists R k w))) \<longrightarrow>
       (\<forall>(field, a) \<in> set route. comet_alive (st (poWorld s)) a \<longrightarrow> (a, push_req recv frame field) \<in> set new))"
proof (induction route arbitrary: s)
  case (Cons e route)
  obtain field addr where e: "e = (field, addr)" by (cases e)
  obtain r w1 where x: "rExists R (CometAliveKey addr) (poWorld s) = (r, w1)" by (cases "rExists R (CometAliveKey addr) (poWorld s)")
  have X: "st w1 = st (poWorld s)" "calls w1 = calls (poWorld s)"
      "\<And>n. r = Inr n \<Longrightarrow> n = (if comet_alive (st (poWorld s)) addr then 1 else 0)"
    using Exists [OF x] exists_calls [OF x] by (auto simp: comet_alive_def)
  let ?s1 = "s\<lparr>poWorld := w1\<rparr>"
  show ?case
  proof (cases "r = Inr 0 \<or> isl r")
    case True
    then have eq: "push_route W recv frame (e # route) s = push_route W recv frame route ?s1"
      using x e by (auto simp: rdb split: sum.splits)
    have dead: "\<not> comet_alive (st (poWorld s)) addr" if "\<forall>k w. \<not> isl (fst (rExists R k w))"
      using that [rule_format, of "CometAliveKey addr" "poWorld s"] True x X(3) by (auto split: if_splits)
    from Cons [of ?s1] obtain new where new: "st (poWorld (push_route W recv frame route ?s1)) = st w1"
        "calls (poWorld (push_route W recv frame route ?s1)) = calls w1 @ new"
        "\<forall>(a, q) \<in> set new. comet_alive (st w1) a \<and> (\<exists>field. (field, a) \<in> set route \<and> q = push_req recv frame field)"
        "(\<forall>a w. \<not> isl (fst (pwDial W a w))) \<longrightarrow> (\<forall>k w. \<not> isl (fst (rExists R k w))) \<longrightarrow>
          (\<forall>(field, a) \<in> set route. comet_alive (st w1) a \<longrightarrow> (a, push_req recv frame field) \<in> set new)"
      by (elim exE conjE) simp
    show ?thesis unfolding eq
      by (intro exI [of _ new] conjI) (use new X dead in \<open>auto simp: e\<close>)
  next
    case False
    then obtain n where n: "r = Inr n" "n \<noteq> 0" by (cases r) auto
    let ?s2 = "pushToOne W addr recv (deviceOfField field) frame ?s1"
    have eq: "push_route W recv frame (e # route) s = push_route W recv frame route ?s2" using n x e by (simp add: rdb)
    have al: "comet_alive (st (poWorld s)) addr" using X(3) n by (auto split: if_splits)
    obtain k where k: "st (poWorld ?s2) = st w1" "calls (poWorld ?s2) = calls w1 @ replicate k (addr, push_req recv frame field)"
        "(\<forall>a w. \<not> isl (fst (pwDial W a w))) \<longrightarrow> 0 < k"
      using pushToOne_spec [of addr recv "deviceOfField field" frame ?s1] by (auto simp: push_req_def)
    from Cons [of ?s2] obtain new where new: "st (poWorld (push_route W recv frame route ?s2)) = st (poWorld ?s2)"
        "calls (poWorld (push_route W recv frame route ?s2)) = calls (poWorld ?s2) @ new"
        "\<forall>(a, q) \<in> set new. comet_alive (st (poWorld ?s2)) a \<and> (\<exists>field. (field, a) \<in> set route \<and> q = push_req recv frame field)"
        "(\<forall>a w. \<not> isl (fst (pwDial W a w))) \<longrightarrow> (\<forall>k w. \<not> isl (fst (rExists R k w))) \<longrightarrow>
          (\<forall>(field, a) \<in> set route. comet_alive (st (poWorld ?s2)) a \<longrightarrow> (a, push_req recv frame field) \<in> set new)" by blast
    show ?thesis unfolding eq
      by (intro exI [of _ "replicate k (addr, push_req recv frame field) @ new"] conjI)
        (use new k X al in \<open>auto simp: e\<close>)
  qed
qed simp

lemma push_Handle_spec:
  assumes "push_Handle W km s = (r, s')" and "pwUnmarshal W (kmValue km) = Inr env" and "enMsg env = Some msg"
  shows "r = Inr () \<and> st (poWorld s') = st (poWorld s) \<and> (\<exists>new. calls (poWorld s') = calls (poWorld s) @ new \<and>
    (\<forall>(a, q) \<in> set new. 0 < enRecvUid env \<and> comet_alive (st (poWorld s)) a \<and>
      (\<exists>field frame. hash_at (sKeys (st (poWorld s))) (RouteKey (enRecvUid env)) field = Some a \<and>
        BuildPushFrame (pwMarshal W) msg = Inr frame \<and> q = push_req (enRecvUid env) frame field)) \<and>
    ((\<forall>a w. \<not> isl (fst (pwDial W a w))) \<longrightarrow> (\<forall>k w. \<not> isl (fst (rExists R k w)) \<and> \<not> isl (fst (rHGetAll R k w))) \<longrightarrow>
      0 < enRecvUid env \<longrightarrow> (\<forall>field a frame. hash_at (sKeys (st (poWorld s))) (RouteKey (enRecvUid env)) field = Some a \<longrightarrow>
        comet_alive (st (poWorld s)) a \<longrightarrow> BuildPushFrame (pwMarshal W) msg = Inr frame \<longrightarrow>
        (a, push_req (enRecvUid env) frame field) \<in> set new)))"
proof -
  let ?recv = "enRecvUid env"
  obtain q w1 where h: "rHGetAll R (RouteKey ?recv) (poWorld s) = (q, w1)" by (cases "rHGetAll R (RouteKey ?recv) (poWorld s)")
  note H = HGetAll [OF h] hgetall_calls [OF h]
  note eq = assms(1) [unfolded push_Handle_def assms(2) rdb, simplified, unfolded assms(3), simplified]
  show ?thesis
  proof (cases "0 < ?recv")
    case False
    with eq show ?thesis by (intro conjI exI [of _ "[]"]) auto
  next
    case recv: True
    show ?thesis
    proof (cases q)
      case (Inl e)
      have "\<not> (\<forall>k w. \<not> isl (fst (rExists R k w)) \<and> \<not> isl (fst (rHGetAll R k w)))" using h Inl by (metis fst_conv sum.disc(1))
      with eq recv h Inl H show ?thesis by (intro conjI exI [of _ "[]"]) auto
    next
      case (Inr route)
      then have route: "map_of route = hash_at (sKeys (st (poWorld s))) (RouteKey ?recv)" "distinct (map fst route)" using H(1) by auto
      show ?thesis
      proof (cases "route = [] \<or> isl (BuildPushFrame (pwMarshal W) msg)")
        case True
        with eq recv h Inr H route(1) show ?thesis
          by (intro conjI exI [of _ "[]"]) (auto split: sum.splits if_splits simp: fun_eq_iff)
      next
        case False
        then obtain frame where frame: "BuildPushFrame (pwMarshal W) msg = Inr frame" "route \<noteq> []"
          by (cases "BuildPushFrame (pwMarshal W) msg") auto
        let ?s1 = "s\<lparr>poWorld := w1\<rparr>"
        have s': "r = Inr ()" "s' = push_route W ?recv frame route ?s1" using eq recv h Inr frame by simp_all
        have st1: "st w1 = st (poWorld s)" "calls w1 = calls (poWorld s)" using H by auto
        have fld: "(f, a) \<in> set route \<longleftrightarrow> hash_at (sKeys (st (poWorld s))) (RouteKey ?recv) f = Some a" for f a
          using route by (simp flip: route(1))
        show ?thesis unfolding s'
          using push_route_spec [of ?recv frame route ?s1]
          by (elim exE conjE, intro conjI exI) (auto simp: st1 fld frame recv)
      qed
    qed
  qed
qed

end

section \<open>Group events\<close>

context services
begin

lemma group_Handle_spec:
  assumes "group_Handle R M un km w = (r, w')"
  shows "r = Inr () \<and> sLog (st w') = sLog (st w) \<and>
    (\<exists>new. sTabs (st w') = (sTabs (st w))\<lparr>tConv := tConv (sTabs (st w)) @ new\<rparr> \<and> length new \<le> 1 \<and>
      (\<forall>row \<in> set new. \<exists>ev. un (kmValue km) = Inr ev \<and> geEvent ev = ''join'' \<and> 0 < geGid ev \<and> 0 < geUID ev \<and>
        conv_key row = (geUID ev, ConvIDForGroup (geGid ev)) \<and> conv_key row \<notin> conv_key ` set (tConv (sTabs (st w))) \<and>
        cvLast row = 0 \<and> cvRead row = 0 \<and> cvUnread row = 0)) \<and>
    (\<forall>k. sKeys (st w') k = sKeys (st w) k \<or>
      (\<exists>ev. un (kmValue km) = Inr ev \<and> k = ConvMembersKey (geGid ev) \<and> sKeys (st w') k = None))"
proof (cases "un (kmValue km)")
  case (Inl e)
  with assms show ?thesis by (auto simp: group_Handle_def intro: exI [of _ "[]"])
next
  case (Inr ev)
  show ?thesis
  proof (cases "geGid ev \<le> 0 \<or> geUID ev \<le> 0")
    case True
    with assms Inr show ?thesis by (auto simp: group_Handle_def intro: exI [of _ "[]"])
  next
    case False
    let ?q = "\<lambda>T. Inr (insert_conv (geUID ev) (ConvIDForGroup (geGid ev)) (geGid ev) T)"
    obtain d w1 where d: "rDel R (ConvMembersKey (geGid ev)) w = (d, w1)" by (cases "rDel R (ConvMembersKey (geGid ev)) w")
    obtain x w2 where x: "mExec M ?q w1 = (x, w2)" by (cases "mExec M ?q w1")
    have D: "sTabs (st w1) = sTabs (st w)" "sLog (st w1) = sLog (st w)"
        "\<And>k. sKeys (st w1) k = sKeys (st w) k \<or> k = ConvMembersKey (geGid ev) \<and> sKeys (st w1) k = None"
      using Del [OF d] unfolding wrote_key_def by metis+
    have X: "sLog (st w2) = sLog (st w1)" "sKeys (st w2) = sKeys (st w1)"
        "sTabs (st w2) = insert_conv (geUID ev) (ConvIDForGroup (geGid ev)) (geGid ev) (sTabs (st w)) \<or> sTabs (st w2) = sTabs (st w)"
      using Exec [OF x] D by (auto simp: wrote_def)
    have r: "r = Inr ()" "w' = (if geEvent ev = ''join'' then w2 else w1)"
      using assms Inr False d x by (auto simp: group_Handle_def split: if_splits)
    have "\<exists>new. sTabs (st w') = (sTabs (st w))\<lparr>tConv := tConv (sTabs (st w)) @ new\<rparr> \<and> length new \<le> 1 \<and>
        (\<forall>row \<in> set new. geEvent ev = ''join'' \<and> conv_key row = (geUID ev, ConvIDForGroup (geGid ev)) \<and>
          conv_key row \<notin> conv_key ` set (tConv (sTabs (st w))) \<and> cvLast row = 0 \<and> cvRead row = 0 \<and> cvUnread row = 0)"
    proof (cases "sTabs (st w') = sTabs (st w)")
      case True
      then show ?thesis by (intro exI [of _ "[]"]) simp
    next
      case neq: False
      then have "geEvent ev = ''join''" "sTabs (st w') = insert_conv (geUID ev) (ConvIDForGroup (geGid ev)) (geGid ev) (sTabs (st w))"
        using r X D by (auto split: if_splits)
      with neq show ?thesis
        by (intro exI [of _ "[\<lparr>cvUid = geUID ev, cvConv = ConvIDForGroup (geGid ev), cvType = 2, cvTarget = geGid ev, cvLast = 0, cvRead = 0, cvUnread = 0\<rparr>]"])
          (auto simp: insert_conv_def conv_key_def split: if_splits)
    qed
    moreover have "sKeys (st w') k = sKeys (st w) k \<or> k = ConvMembersKey (geGid ev) \<and> sKeys (st w') k = None" for k
      using D(3) X(2) r(2) by simp
    ultimately show ?thesis using r D X Inr False by (auto simp: not_le)
  qed
qed

end

section \<open>What the clean-up relies on\<close>

text \<open>
  SCAN returns only keys that match its pattern, and every cursor it hands out is nearer to the end of
  the iteration, measured by \<open>left\<close>.
\<close>

locale scan_services = services R M P now st
  for R :: "'w redis" and M :: "'w mysql" and P :: "'w kwriter" and now :: "'w \<Rightarrow> int \<times> 'w" and st :: "'w \<Rightarrow> svc" +
  fixes left :: "nat \<Rightarrow> nat"
  assumes scan_next: "\<And>c p n w ks nx w'. rScan R c p n w = (Inr (ks, nx), w') \<Longrightarrow> nx = 0 \<or> left nx < left c"
    and scan_match: "\<And>c n w ks nx w' k. rScan R c ''route:*'' n w = (Inr (ks, nx), w') \<Longrightarrow> k \<in> set ks \<Longrightarrow> take 6 k = ''route:''"

text \<open>The route table has only lost entries of comets that are gone, and nothing else has changed.\<close>

definition pruned :: "svc \<Rightarrow> svc \<Rightarrow> bool" where
  "pruned s s' \<longleftrightarrow> sTabs s' = sTabs s \<and> sLog s' = sLog s \<and> (\<forall>k. take 6 k \<noteq> ''route:'' \<longrightarrow> sKeys s' k = sKeys s k) \<and>
     (\<forall>k f. hash_at (sKeys s') k f = hash_at (sKeys s) k f \<or>
       hash_at (sKeys s') k f = None \<and> (\<exists>a. hash_at (sKeys s) k f = Some a \<and> \<not> comet_alive s a))"

lemma pruned_refl [simp]: "pruned s s"
  by (simp add: pruned_def)

lemma pruned_alive: "pruned s s' \<Longrightarrow> comet_alive s' = comet_alive s"
  by (auto simp: pruned_def comet_alive_def fun_eq_iff CometAliveKey_def cometAlivePrefix_def)

lemma pruned_trans:
  assumes "pruned s s'" and "pruned s' s''"
  shows "pruned s s''"
proof -
  have "hash_at (sKeys s'') k f = hash_at (sKeys s) k f \<or>
      hash_at (sKeys s'') k f = None \<and> (\<exists>a. hash_at (sKeys s) k f = Some a \<and> \<not> comet_alive s a)" for k f
    using assms pruned_alive [OF assms(1)] unfolding pruned_def by metis
  with assms show ?thesis by (simp add: pruned_def)
qed

context services
begin

lemma check_alive_spec:
  "check_alive R route alive w = (res, w') \<Longrightarrow> \<forall>(a, b) \<in> set alive. b = comet_alive (st w) a \<Longrightarrow>
   st w' = st w \<and> (\<forall>al. res = Inr al \<longrightarrow> (\<forall>(a, b) \<in> set al. b = comet_alive (st w) a) \<and> snd ` set route \<union> fst ` set alive \<subseteq> fst ` set al)"
proof (induction route arbitrary: alive w)
  case (Cons e route)
  obtain field addr where e: "e = (field, addr)" by (cases e)
  show ?case
  proof (cases "addr \<in> fst ` set alive")
    case True
    with Cons.prems e have c: "check_alive R route alive w = (res, w')" by simp
    show ?thesis using Cons.IH [OF c Cons.prems(2)] True unfolding e by (metis (no_types, lifting) Un_iff image_insert insert_subset list.simps(15) snd_conv subsetD sup_ge2 Un_insert_left)
  next
    case False
    obtain r w1 where x: "rExists R (CometAliveKey addr) w = (r, w1)" by (cases "rExists R (CometAliveKey addr) w")
    note X = Exists [OF x]
    show ?thesis
    proof (cases r)
      case (Inl err)
      with Cons.prems(1) e False x X show ?thesis by auto
    next
      case (Inr n)
      then have c: "check_alive R route ((addr, 0 < n) # alive) w1 = (res, w')" using Cons.prems(1) e False x by simp
      have "(0 < n) = comet_alive (st w) addr" using X Inr by (auto simp: comet_alive_def)
      then have "\<forall>(a, b) \<in> set ((addr, 0 < n) # alive). b = comet_alive (st w1) a" using Cons.prems(2) X by auto
      from Cons.IH [OF c this] X show ?thesis by (auto simp: e)
    qed
  qed
qed auto

text \<open>Deleting exactly the fields of a route hash whose comets are gone.\<close>

lemma pruned_HDel:
  assumes "rHDel R key fs w = (d, w')" and "take 6 key = ''route:''"
    and "\<And>f. f \<in> set fs \<longleftrightarrow> (\<exists>a. hash_at (sKeys (st w)) key f = Some a \<and> \<not> comet_alive (st w) a)"
  shows "pruned (st w) (st w') \<and> (\<not> isl d \<longrightarrow> (\<forall>f a. hash_at (sKeys (st w')) key f = Some a \<longrightarrow> comet_alive (st w) a))"
proof (cases "st w' = st w \<and> isl d")
  case False
  with HDel [OF assms(1)] have D: "sTabs (st w') = sTabs (st w)" "sLog (st w') = sLog (st w)" "\<And>k. k \<noteq> key \<Longrightarrow> sKeys (st w') k = sKeys (st w) k"
      "hash_at (sKeys (st w')) key = (\<lambda>f. if f \<in> set fs then None else hash_at (sKeys (st w)) key f)"
    by (auto simp: wrote_key_def)
  have "hash_at (sKeys (st w')) k f = hash_at (sKeys (st w)) k f" if "k \<noteq> key" for k f
    using D(3) [OF that] by (simp add: hash_at_def)
  with D(1-3) have "pruned (st w) (st w')"
    using assms(2,3) fun_cong [OF D(4)] unfolding pruned_def by (metis (no_types, lifting))
  moreover have "comet_alive (st w) a" if "hash_at (sKeys (st w')) key f = Some a" for f a
    using that assms(3) [of f] by (auto simp: D(4) split: if_splits)
  ultimately show ?thesis by blast
qed simp

lemma reconcileHash_spec:
  assumes "reconcileHash R key w = (res, w')" and "take 6 key = ''route:''"
  shows "pruned (st w) (st w') \<and> (\<not> isl res \<longrightarrow> (\<forall>f a. hash_at (sKeys (st w')) key f = Some a \<longrightarrow> comet_alive (st w) a))"
proof -
  obtain q w1 where h: "rHGetAll R key w = (q, w1)" by (cases "rHGetAll R key w")
  note H = HGetAll [OF h]
  show ?thesis
  proof (cases q)
    case (Inl e)
    with assms(1) h H show ?thesis by (auto simp: reconcileHash_def)
  next
    case (Inr route)
    obtain c w2 where c: "check_alive R route [] w1 = (c, w2)" by (cases "check_alive R route [] w1")
    from check_alive_spec [OF c] H have C: "st w2 = st w"
        "\<And>al. c = Inr al \<Longrightarrow> (\<forall>(a, b) \<in> set al. b = comet_alive (st w) a) \<and> snd ` set route \<subseteq> fst ` set al" by auto
    show ?thesis
    proof (cases c)
      case cl: (Inl e)
      with assms(1) h Inr c C show ?thesis by (auto simp: reconcileHash_def)
    next
      case cr: (Inr al)
      let ?stale = "map fst (filter (\<lambda>(field, addr). map_of al addr \<noteq> Some True) route)"
      have al: "map_of al a = Some (comet_alive (st w) a)" if "(f, a) \<in> set route" for f a
      proof -
        have "a \<in> fst ` set al" using C(2) [OF cr] that by force
        then obtain b where "map_of al a = Some b" by (metis map_of_eq_None_iff not_None_eq)
        with C(2) [OF cr] show ?thesis by (auto dest!: map_of_SomeD)
      qed
      have route: "(f, a) \<in> set route \<longleftrightarrow> hash_at (sKeys (st w)) key f = Some a" for f a
        using H Inr by (metis map_of_eq_Some_iff)
      have stale: "f \<in> set ?stale \<longleftrightarrow> (\<exists>a. hash_at (sKeys (st w)) key f = Some a \<and> \<not> comet_alive (st w) a)" for f
        using al by (force simp flip: route)
      show ?thesis
      proof (cases "?stale = []")
        case True
        then have "w' = w2" using assms(1) h Inr c cr by (simp add: reconcileHash_def Let_def)
        with C(1) stale True show ?thesis by (metis empty_iff empty_set pruned_refl)
      next
        case False
        obtain d w3 where d: "rHDel R key ?stale w2 = (d, w3)" by (cases "rHDel R key ?stale w2")
        have w': "w' = w3" "isl res = isl d" using assms(1) h Inr c cr d False by (auto simp: reconcileHash_def Let_def split: sum.splits)
        from pruned_HDel [OF d assms(2), unfolded C(1), OF stale] w' show ?thesis by simp
      qed
    qed
  qed
qed

lemma reconcile_keys_spec:
  assumes "reconcile_keys R keys n w = (m, w')" and "\<forall>k \<in> set keys. take 6 k = ''route:''"
  shows "pruned (st w) (st w')"
  using assms
proof (induction keys arbitrary: n w)
  case (Cons k keys)
  obtain r w1 where h: "reconcileHash R k w = (r, w1)" by (cases "reconcileHash R k w")
  have "pruned (st w) (st w1)" using reconcileHash_spec [OF h] Cons.prems(2) by simp
  moreover have "pruned (st w1) (st w')" using Cons h by (cases r) auto
  ultimately show ?case by (rule pruned_trans)
qed simp

end

context scan_services
begin

lemma reconcile_scan_spec:
  "\<exists>res w'. reconcile_scan R cursor n w = Some (res, w') \<and> pruned (st w) (st w')"
proof (induction "left cursor" arbitrary: cursor n w rule: less_induct)
  case less
  obtain r w1 where s: "rScan R cursor ''route:*'' reconcileScanCT w = (r, w1)" by (cases "rScan R cursor ''route:*'' reconcileScanCT w")
  note S = Scan [OF s]
  show ?case
  proof (cases r)
    case (Inl e)
    with s S show ?thesis by (subst reconcile_scan.simps) simp
  next
    case (Inr kn)
    obtain keys nx where kn: "kn = (keys, nx)" by (cases kn)
    obtain m w2 where k: "reconcile_keys R keys n w1 = (m, w2)" by (cases "reconcile_keys R keys n w1")
    have P: "pruned (st w) (st w2)" using reconcile_keys_spec [OF k] scan_match s S Inr kn by auto
    show ?thesis
    proof (cases "nx = 0")
      case True
      with s Inr kn k P show ?thesis by (subst reconcile_scan.simps) simp
    next
      case False
      then have "left nx < left cursor" using scan_next s Inr kn by blast
      from less [OF this, of m w2] obtain res w' where "reconcile_scan R nx m w2 = Some (res, w')" "pruned (st w2) (st w')" by blast
      with s Inr kn k False pruned_trans [OF P] show ?thesis by (subst reconcile_scan.simps) simp
    qed
  qed
qed

end

section \<open>Instances\<close>

text \<open>A second store beside a world: the calls of the first leave it alone.\<close>

definition beside :: "('w \<Rightarrow> 'a \<times> 'w) \<Rightarrow> 'w \<times> 'x \<Rightarrow> 'a \<times> ('w \<times> 'x)" where
  "beside f p = (fst (f (fst p)), (snd (f (fst p)), snd p))"

lemma besideD: "beside f p = (r, p') \<Longrightarrow> f (fst p) = (r, fst p') \<and> snd p' = snd p"
  by (auto simp: beside_def)

definition beside_redis :: "'w redis \<Rightarrow> ('w \<times> 'x) redis" where
  "beside_redis R =
    \<lparr>rGet = \<lambda>k. beside (rGet R k), rSet = \<lambda>k v t. beside (rSet R k v t), rSetNX = \<lambda>k v t. beside (rSetNX R k v t),
     rDel = \<lambda>k. beside (rDel R k), rIncr = \<lambda>k. beside (rIncr R k), rExists = \<lambda>k. beside (rExists R k),
     rHSet = \<lambda>k f v. beside (rHSet R k f v), rHDel = \<lambda>k fs. beside (rHDel R k fs), rHGetAll = \<lambda>k. beside (rHGetAll R k),
     rHLen = \<lambda>k. beside (rHLen R k), rSMembers = \<lambda>k. beside (rSMembers R k), rSAdd = \<lambda>k vs. beside (rSAdd R k vs),
     rExpire = \<lambda>k t. beside (rExpire R k t), rZRank = \<lambda>k v. beside (rZRank R k v), rZAdd = \<lambda>k vs. beside (rZAdd R k vs),
     rScan = \<lambda>c p n. beside (rScan R c p n)\<rparr>"

definition beside_mysql :: "'w mysql \<Rightarrow> ('w \<times> 'x) mysql" where
  "beside_mysql M = \<lparr>mQuery = beside (mQuery M), mExec = \<lambda>q. beside (mExec M q)\<rparr>"

lemma wrote_beside:
  "wrote (\<lambda>p. st (fst p)) p r p' s = wrote st (fst p) r (fst p') s"
  "wrote_key (\<lambda>p. st (fst p)) p r p' k post = wrote_key st (fst p) r (fst p') k post"
  by (simp_all add: wrote_def wrote_key_def)

context services
begin

lemmas laws =
  Get Set SetNX Del Incr Exists HSet HDel HGetAll HLen SMembers SAdd Expire ZRank ZAdd Scan Query Exec Write Now

end

lemma services_beside:
  assumes "services R M P now st"
  shows "services (beside_redis R) (beside_mysql M) (\<lambda>m. beside (P m)) (beside now) (\<lambda>p. st (fst p))"
proof (rule services.intro)
qed (simp_all only: wrote_beside beside_redis_def beside_mysql_def redis.simps mysql.simps,
   (drule besideD [THEN conjunct1], erule services.laws [OF assms])+)

text \<open>A world that also keeps the requests made to comets.\<close>

type_synonym pushed = "(string \<times> PushFramesReq) list"

definition demo_push :: "(mem \<times> pushed) PushWorker" where
  "demo_push =
    \<lparr>pwRdb = beside_redis mem_redis, pwUnmarshal = \<lambda>b. Inr \<lparr>enRecvUid = 2, enMsg = Some demo_store_msg\<rparr>,
     pwMarshal = \<lambda>m. Inr [7], pwDial = \<lambda>a p. (Inr (), p),
     pwPush = \<lambda>a q p. (Inr \<lparr>pfOnline = True\<rparr>, (fst p, snd p @ [(a, q)])), pwHang = \<lambda>a p. (Inr (), p)\<rparr>"

interpretation mempush: push_deps "beside_redis mem_redis" "beside_mysql mem_mysql" "\<lambda>m. beside (mem_kafka m)" "beside mem_now"
  "\<lambda>p. mem_st (fst p)" demo_push snd
  by (intro push_deps.intro push_deps_axioms.intro services_beside mem.services_axioms)
    (auto simp: demo_push_def beside_redis_def beside_def)

interpretation memscan: scan_services mem_redis mem_mysql mem_kafka mem_now mem_st "\<lambda>_. 0"
proof unfold_locales
  fix c p n w ks nx w'
  assume "rScan mem_redis c p n w = (Inr (ks, nx), w')"
  then show "nx = 0 \<or> (0::nat) < 0"
    by (simp add: mem_redis_def) (drule mem_reads; auto)
next
  fix c n w ks nx w' k
  assume "rScan mem_redis c ''route:*'' n w = (Inr (ks, nx), w')" and "k \<in> set ks"
  then show "take 6 k = ''route:''"
    by (simp add: mem_redis_def) (drule mem_reads; auto simp: eval_nat_numeral)
qed

text \<open>User 2 has one device on a comet that is alive and one on a comet that is gone.\<close>

definition demo_routes :: mem where
  "demo_routes = (demo_world [])\<lparr>mmKeys := [(RouteKey 2, VHash [(routeField 1 ''d1'', ''a:1''), (routeField 2 ''d2'', ''b:1'')]),
     (CometAliveKey ''a:1'', VStr ''1'')]\<rparr>"

section \<open>Properties\<close>

text \<open>
  C24: delivery to the online devices. Handling a record of \<open>msg.push\<close> never fails and changes no
  store; every push request it makes goes to a comet that is alive and that the route table names for
  the receiver, with the receiver's id, the device of that entry and the frame of the message; and
  when Redis and the connections work, every such entry gets its request.
\<close>

theorem push_reaches_route:
  assumes "push_deps R M P now st W calls" and "push_Handle W km s = (r, s')"
    and "pwUnmarshal W (kmValue km) = Inr env" and "enMsg env = Some msg"
  shows "r = Inr () \<and> st (poWorld s') = st (poWorld s) \<and> (\<exists>new. calls (poWorld s') = calls (poWorld s) @ new \<and>
    (\<forall>(a, q) \<in> set new. 0 < enRecvUid env \<and> comet_alive (st (poWorld s)) a \<and>
      (\<exists>field frame. hash_at (sKeys (st (poWorld s))) (RouteKey (enRecvUid env)) field = Some a \<and>
        BuildPushFrame (pwMarshal W) msg = Inr frame \<and> q = push_req (enRecvUid env) frame field)) \<and>
    ((\<forall>a w. \<not> isl (fst (pwDial W a w))) \<longrightarrow> (\<forall>k w. \<not> isl (fst (rExists R k w)) \<and> \<not> isl (fst (rHGetAll R k w))) \<longrightarrow>
      0 < enRecvUid env \<longrightarrow> (\<forall>field a frame. hash_at (sKeys (st (poWorld s))) (RouteKey (enRecvUid env)) field = Some a \<longrightarrow>
        comet_alive (st (poWorld s)) a \<longrightarrow> BuildPushFrame (pwMarshal W) msg = Inr frame \<longrightarrow>
        (a, push_req (enRecvUid env) frame field) \<in> set new)))"
  by (rule push_deps.push_Handle_spec [OF assms])

theorem push_reaches_route_witness:
  "\<exists>s'. push_Handle demo_push (demo_km [1]) (NewCometPool (demo_routes, [])) = (Inr (), s') \<and>
    (\<forall>(a, q) \<in> set (snd (poWorld s')). comet_alive (mem_st demo_routes) a \<and> pfUid q = 2)"
proof -
  let ?s = "NewCometPool (demo_routes, [])"
  obtain r s' where h: "push_Handle demo_push (demo_km [1]) ?s = (r, s')" by (cases "push_Handle demo_push (demo_km [1]) ?s")
  have e: "pwUnmarshal demo_push (kmValue (demo_km [1])) = Inr \<lparr>enRecvUid = 2, enMsg = Some demo_store_msg\<rparr>"
    by (simp add: demo_push_def)
  have w: "poWorld ?s = (demo_routes, [])" by (simp add: NewCometPool_def)
  from push_reaches_route [OF mempush.push_deps_axioms h e] obtain new where "r = Inr ()" "snd (poWorld s') = new"
      "\<forall>(a, q) \<in> set new. comet_alive (mem_st demo_routes) a \<and> (\<exists>field frame. q = push_req 2 frame field)"
    by (simp add: w) blast
  with h show ?thesis by (auto simp: push_req_def split: prod.splits) fastforce
qed

text \<open>
  C34: changes of membership. Handling a record of \<open>group.event\<close> never fails; every conversation row stays
  as it is, so that a member who comes back keeps the cursor; at most one row is added, the fresh one
  of a user who joined and had none; and the only key of Redis it can touch is the member cache of the
  group, which it deletes.
\<close>

theorem group_event_keeps_cursors:
  assumes "services R M P now st" and "group_Handle R M un km w = (r, w')"
  shows "r = Inr () \<and> sLog (st w') = sLog (st w) \<and>
    (\<exists>new. sTabs (st w') = (sTabs (st w))\<lparr>tConv := tConv (sTabs (st w)) @ new\<rparr> \<and> length new \<le> 1 \<and>
      (\<forall>row \<in> set new. \<exists>ev. un (kmValue km) = Inr ev \<and> geEvent ev = ''join'' \<and> 0 < geGid ev \<and> 0 < geUID ev \<and>
        conv_key row = (geUID ev, ConvIDForGroup (geGid ev)) \<and> conv_key row \<notin> conv_key ` set (tConv (sTabs (st w))) \<and>
        cvLast row = 0 \<and> cvRead row = 0 \<and> cvUnread row = 0)) \<and>
    (\<forall>k. sKeys (st w') k = sKeys (st w) k \<or>
      (\<exists>ev. un (kmValue km) = Inr ev \<and> k = ConvMembersKey (geGid ev) \<and> sKeys (st w') k = None))"
  by (rule services.group_Handle_spec [OF assms])

theorem group_event_keeps_cursors_witness:
  "\<exists>w'. group_Handle mem_redis mem_mysql (\<lambda>b. Inr \<lparr>geEvent = ''join'', geGid = 7, geUID = 2\<rparr>) (demo_km [1]) (demo_world []) = (Inr (), w') \<and>
    sLog (mem_st w') = []"
proof -
  let ?un = "\<lambda>b. Inr \<lparr>geEvent = ''join'', geGid = 7, geUID = 2\<rparr>"
  obtain r w' where g: "group_Handle mem_redis mem_mysql ?un (demo_km [1]) (demo_world []) = (r, w')"
    by (cases "group_Handle mem_redis mem_mysql ?un (demo_km [1]) (demo_world [])")
  have "r = Inr ()" "sLog (mem_st w') = sLog (mem_st (demo_world []))"
    using group_event_keeps_cursors [OF mem.services_axioms g] by blast+
  with g show ?thesis by (simp add: demo_world_def mem_st_def)
qed

text \<open>The same over any number of passes: no pass blocks the next, and together they remove dead entries only.\<close>

lemma Reconciler_Run_prunes:
  assumes "scan_services R M P now st left"
  shows "\<exists>w'. Reconciler_Run R evs w = Some w' \<and> pruned (st w) (st w')"
proof (induction evs arbitrary: w)
  case (Cons ev evs)
  obtain n err w1 where r: "ReconcileOnce R w = Some ((n, err), w1)" "pruned (st w) (st w1)"
    using scan_services.reconcile_scan_spec [OF assms, of 0 0 w] by (auto simp: ReconcileOnce_def)
  from Cons.IH [of w1] r show ?case by (cases ev) (auto intro: pruned_trans)
qed simp

text \<open>
  C29: cleaning the route table. A pass always ends, and so does any number of them until the worker is
  cancelled; tables, log and all keys outside the route table stay; a route entry that disappears named
  a comet without a live registration; and a hash that was processed without an error has no such entry
  left.
\<close>

theorem reconcile_removes_only_dead:
  assumes "scan_services R M P now st left"
  shows "(\<exists>n err w'. ReconcileOnce R w = Some ((n, err), w') \<and> pruned (st w) (st w')) \<and>
    (\<exists>w'. Reconciler_Run R evs w = Some w' \<and> pruned (st w) (st w')) \<and>
    (\<forall>key w1 m w2. take 6 key = ''route:'' \<longrightarrow> reconcileHash R key w1 = (Inr m, w2) \<longrightarrow>
      (\<forall>f a. hash_at (sKeys (st w2)) key f = Some a \<longrightarrow> comet_alive (st w2) a))"
proof (intro conjI Reconciler_Run_prunes [OF assms])
  show "\<exists>n err w'. ReconcileOnce R w = Some ((n, err), w') \<and> pruned (st w) (st w')"
    using scan_services.reconcile_scan_spec [OF assms, of 0 0 w] by (auto simp: ReconcileOnce_def)
  show "\<forall>key w1 m w2. take 6 key = ''route:'' \<longrightarrow> reconcileHash R key w1 = (Inr m, w2) \<longrightarrow>
      (\<forall>f a. hash_at (sKeys (st w2)) key f = Some a \<longrightarrow> comet_alive (st w2) a)"
    using services.reconcileHash_spec [OF scan_services.axioms(1) [OF assms]] pruned_alive by (metis sum.disc(2))
qed

theorem reconcile_removes_only_dead_witness:
  "\<exists>n err w'. ReconcileOnce mem_redis demo_routes = Some ((n, err), w') \<and>
    hash_at (sKeys (mem_st w')) (RouteKey 2) (routeField 1 ''d1'') = Some ''a:1''"
proof -
  obtain n err w' where r: "ReconcileOnce mem_redis demo_routes = Some ((n, err), w')" "pruned (mem_st demo_routes) (mem_st w')"
    using reconcile_removes_only_dead [OF memscan.scan_services_axioms, of demo_routes] by blast
  have "hash_at (sKeys (mem_st demo_routes)) (RouteKey 2) (routeField 1 ''d1'') = Some ''a:1''" "comet_alive (mem_st demo_routes) ''a:1''"
    by (simp_all add: demo_routes_def mem_st_def hash_at_def comet_alive_def keys_differ)
  with r show ?thesis unfolding pruned_def by (metis option.inject)
qed

end
