(* ===== verification/DlqReplay.thy ===== *)
theory DlqReplay
  imports JobPush "HOL-Library.Sublist"
begin

text \<open>
  \<^verbatim>\<open>scripts/dlqreplay\<close>, the tool that lists a dead letter topic and puts its records back on the topic they
  came from. What the consumer returns is the input of its loop; \<open>Waiting\<close> means that the loop waits
  for another record. Shown: a dead letter is marked as consumed only after it is back, in order and
  with its key and value, so that the store worker sees the same message again.
\<close>

section \<open>The tool\<close>

definition origin_of :: "string \<Rightarrow> string option" where
  "origin_of topic =
     (if topic = ''dlq.msg.store'' then Some ''msg.store''
      else if topic = ''dlq.msg.push'' then Some ''msg.push''
      else None)"

datatype replay_end = Finished nat | UnknownTopic | FetchFatal error | ReplayFatal error | CommitFatal error | Waiting

fun replay_loop ::
  "'w Producer \<Rightarrow> (kmsg \<Rightarrow> ('w, unit) call) \<Rightarrow> string \<Rightarrow> string \<Rightarrow> bool \<Rightarrow> int \<Rightarrow> nat \<Rightarrow> fetch list \<Rightarrow> 'w \<Rightarrow> replay_end \<times> 'w" where
  "replay_loop send commit topic origin confirm limit cnt [] w =
     (if int cnt < limit then (Waiting, w) else (Finished cnt, w))"
| "replay_loop send commit topic origin confirm limit cnt (FetchFailed e ended # fs) w =
     (if int cnt < limit then (if ended then (Finished cnt, w) else (FetchFatal e, w)) else (Finished cnt, w))"
| "replay_loop send commit topic origin confirm limit cnt (Fetched km # fs) w =
     (if int cnt < limit then
        (case (if confirm then send origin (kmKey km) (kmValue km) [[(''replayed-from'', topic)]] w else (Inr (), w)) of
           (Inl e, w1) \<Rightarrow> (ReplayFatal e, w1)
         | (Inr _, w1) \<Rightarrow>
             (case commit km w1 of
                (Inl e, w2) \<Rightarrow> (CommitFatal e, w2)
              | (Inr _, w2) \<Rightarrow> replay_loop send commit topic origin confirm limit (Suc cnt) fs w2))
      else (Finished cnt, w))"

definition dlqreplay :: "'w Producer \<Rightarrow> (kmsg \<Rightarrow> ('w, unit) call) \<Rightarrow> string \<Rightarrow> bool \<Rightarrow> int \<Rightarrow> fetch list \<Rightarrow> 'w \<Rightarrow> replay_end \<times> 'w" where
  "dlqreplay send commit topic confirm limit fs w =
     (case origin_of topic of
        None \<Rightarrow> (UnknownTopic, w)
      | Some origin \<Rightarrow> replay_loop send commit topic origin confirm limit 0 fs w)"

section \<open>What it relies on\<close>

definition key_value :: "kmsg \<Rightarrow> bytes \<times> bytes" where
  "key_value km = (kmKey km, kmValue km)"

definition fetched :: "fetch list \<Rightarrow> kmsg list" where
  "fetched fs = concat (map (\<lambda>f. case f of Fetched km \<Rightarrow> [km] | FetchFailed e ended \<Rightarrow> []) fs)"

lemma fetched_simps [simp]:
  "fetched [] = []" "fetched (Fetched km # fs) = km # fetched fs" "fetched (FetchFailed e b # fs) = fetched fs"
  by (simp_all add: fetched_def)

text \<open>\<open>committed\<close> is the sequence of records the consumer group has marked; a failed commit may have happened.\<close>

locale replay_deps = services R M P now st
  for R :: "'w redis" and M :: "'w mysql" and P :: "'w kwriter" and now :: "'w \<Rightarrow> int \<times> 'w" and st :: "'w \<Rightarrow> svc" +
  fixes send :: "'w Producer" and commit :: "kmsg \<Rightarrow> ('w, unit) call" and committed :: "'w \<Rightarrow> kmsg list"
  assumes sends: "\<And>t k v hs w res w'. send t k v hs w = (res, w') \<Longrightarrow> committed w' = committed w \<and> sTabs (st w') = sTabs (st w) \<and>
      ((\<exists>hs'. sLog (st w') = sLog (st w) @ [\<lparr>kmTopic = t, kmKey = k, kmValue = v, kmHeaders = hs'\<rparr>]) \<or> isl res \<and> sLog (st w') = sLog (st w))"
    and commits: "\<And>km w res w'. commit km w = (res, w') \<Longrightarrow> st w' = st w \<and>
      (committed w' = committed w @ [km] \<or> isl res \<and> committed w' = committed w)"
begin

lemma replay_loop_spec:
  assumes "replay_loop send commit topic origin True limit cnt fs w = (res, w')"
  shows "\<exists>ls cs. sTabs (st w') = sTabs (st w) \<and> sLog (st w') = sLog (st w) @ ls \<and> committed w' = committed w @ cs \<and> prefix cs (fetched fs) \<and>
    prefix (map key_value cs) (map key_value ls) \<and> prefix (map key_value ls) (map key_value (fetched fs)) \<and> length ls \<le> length cs + 1 \<and>
    (\<forall>r \<in> set ls. kmTopic r = origin) \<and> (\<forall>n. res = Finished n \<longrightarrow> n = cnt + length cs \<and> length ls = length cs)"
  using assms
proof (induction fs arbitrary: cnt w)
  case Nil
  then show ?case by (auto split: if_splits intro: exI [of _ "[]"])
next
  case (Cons f fs)
  show ?case
  proof (cases "int cnt < limit \<and> (\<exists>km. f = Fetched km)")
    case False
    then have "w' = w \<and> (\<forall>n. res = Finished n \<longrightarrow> n = cnt)"
      using Cons.prems by (cases f) (auto split: if_splits)
    then show ?thesis by (intro exI [of _ "[]"]) auto
  next
    case True
    then obtain km where km: "f = Fetched km" and lim: "int cnt < limit" by blast
    obtain s w1 where s: "send origin (kmKey km) (kmValue km) [[(''replayed-from'', topic)]] w = (s, w1)"
      by (cases "send origin (kmKey km) (kmValue km) [[(''replayed-from'', topic)]] w")
    note S = sends [OF s]
    obtain c w2 where c: "commit km w1 = (c, w2)" by (cases "commit km w1")
    note C = commits [OF c]
    show ?thesis
    proof (cases "\<exists>e. s = Inl e")
      case True
      then have r: "w' = w1" "\<And>n. res \<noteq> Finished n" using Cons.prems km lim s by auto
      from S consider hs where "sLog (st w1) = sLog (st w) @ [\<lparr>kmTopic = origin, kmKey = kmKey km, kmValue = kmValue km, kmHeaders = hs\<rparr>]"
        | "sLog (st w1) = sLog (st w)" by blast
      then show ?thesis
      proof cases
        case 1
        then show ?thesis using S r km by (intro exI [of _ "[\<lparr>kmTopic = origin, kmKey = kmKey km, kmValue = kmValue km, kmHeaders = hs\<rparr>]"] exI [of _ "[]"])
            (auto simp: key_value_def)
      qed (use S r in \<open>auto intro!: exI [of _ "[]"]\<close>)
    next
      case False
      then obtain hs where hs: "sLog (st w1) = sLog (st w) @ [\<lparr>kmTopic = origin, kmKey = kmKey km, kmValue = kmValue km, kmHeaders = hs\<rparr>]"
        using S by (cases s) auto
      let ?r = "\<lparr>kmTopic = origin, kmKey = kmKey km, kmValue = kmValue km, kmHeaders = hs\<rparr>"
      have kv: "key_value ?r = key_value km" by (simp add: key_value_def)
      show ?thesis
      proof (cases "\<exists>e. c = Inl e")
        case True
        then have r: "w' = w2" "\<And>n. res \<noteq> Finished n" using Cons.prems km lim s c False by (cases s; auto)+
        from C consider "committed w2 = committed w1 @ [km]" | "committed w2 = committed w1" by blast
        then show ?thesis
        proof cases
          case 1
          then show ?thesis using S C r km hs kv by (intro exI [of _ "[?r]"] exI [of _ "[km]"]) auto
        next
          case 2
          then show ?thesis using S C r km hs kv by (intro exI [of _ "[?r]"] exI [of _ "[]"]) auto
        qed
      next
        case c': False
        then have rec: "replay_loop send commit topic origin True limit (Suc cnt) fs w2 = (res, w')"
          using Cons.prems km lim s c False by (cases s; cases c) auto
        from Cons.IH [OF rec] obtain ls cs where IH: "sTabs (st w') = sTabs (st w2)" "sLog (st w') = sLog (st w2) @ ls" "committed w' = committed w2 @ cs"
            "prefix cs (fetched fs)" "prefix (map key_value cs) (map key_value ls)" "prefix (map key_value ls) (map key_value (fetched fs))"
            "length ls \<le> length cs + 1" "\<forall>r \<in> set ls. kmTopic r = origin" "\<forall>n. res = Finished n \<longrightarrow> n = Suc cnt + length cs \<and> length ls = length cs"
          by blast
        have "committed w2 = committed w1 @ [km]" using C c' by (cases c) auto
        with IH S C hs kv km show ?thesis by (intro exI [of _ "?r # ls"] exI [of _ "km # cs"]) auto
      qed
    qed
  qed
qed

end

text \<open>The producer of \<^verbatim>\<open>pkg/kafkax\<close> and a commit that leaves the stores alone.\<close>

lemma replay_deps_wired:
  assumes "services R M P now st"
    and "\<And>w r w'. eRead E w = (r, w') \<Longrightarrow> st w' = st w \<and> committed w' = committed w"
    and "\<And>w t w'. eUnixNano E w = (t, w') \<Longrightarrow> sTabs (st w') = sTabs (st w) \<and> sLog (st w') = sLog (st w) \<and> committed w' = committed w"
    and "\<And>m w r w'. P m w = (r, w') \<Longrightarrow> committed w' = committed w"
    and "\<And>km w res w'. commit km w = (res, w') \<Longrightarrow> st w' = st w \<and> (committed w' = committed w @ [km] \<or> isl res \<and> committed w' = committed w)"
  shows "replay_deps R M P now st (Send E P) commit committed"
proof (intro replay_deps.intro replay_deps_axioms.intro assms(1,5))
  fix t k v hs w res w'
  assume s: "Send E P t k v hs w = (res, w')"
  have "sTabs (st w') = sTabs (st w) \<and>
      ((\<exists>hs'. sLog (st w') = sLog (st w) @ [\<lparr>kmTopic = t, kmKey = k, kmValue = v, kmHeaders = hs'\<rparr>]) \<or> isl res \<and> sLog (st w') = sLog (st w))"
    by (rule services.Send_frame [OF assms(1) _ _ s]) (use assms(2,3) in blast)+
  moreover have "committed w' = committed w"
  proof -
    have "committed w2 = committed w" if "newTraceID E w = (x, w2)" for x w2
      using that assms(2,3) by (auto simp: newTraceID_def split: prod.splits sum.splits)
    then have "committed w1 = committed w" if "buildHeaders E hs w = (h, w1)" for h w1
      using that by (auto simp: buildHeaders_eq Let_def split: prod.splits if_splits)
    then show ?thesis using s assms(4) by (auto simp: Send_def split: prod.splits sum.splits)
  qed
  ultimately show "committed w' = committed w \<and> sTabs (st w') = sTabs (st w) \<and>
      ((\<exists>hs'. sLog (st w') = sLog (st w) @ [\<lparr>kmTopic = t, kmKey = k, kmValue = v, kmHeaders = hs'\<rparr>]) \<or> isl res \<and> sLog (st w') = sLog (st w))" by blast
qed

text \<open>A world that also keeps the records a consumer group has marked.\<close>

definition demo_replay_entropy :: "(mem \<times> kmsg list) entropy" where
  "demo_replay_entropy = \<lparr>eRead = beside (eRead demo_entropy), eUnixNano = beside (eUnixNano demo_entropy)\<rparr>"

definition demo_commit :: "kmsg \<Rightarrow> (mem \<times> kmsg list, unit) call" where
  "demo_commit km p = (Inr (), (fst p, snd p @ [km]))"

interpretation memreplay: replay_deps "beside_redis mem_redis" "beside_mysql mem_mysql" "\<lambda>m. beside (mem_kafka m)" "beside mem_now" "\<lambda>p. mem_st (fst p)"
  "Send demo_replay_entropy (\<lambda>m. beside (mem_kafka m))" demo_commit snd
  by (rule replay_deps_wired [OF services_beside [OF mem.services_axioms]])
    (auto simp: demo_replay_entropy_def demo_entropy_def demo_commit_def beside_def mem_now_def mem_st_def)

section \<open>Properties\<close>

text \<open>
  C8: replaying dead letters. However a confirmed run ends, the records it marked as consumed are the first
  ones of the dead letter topic, each of them is by then on the original topic, in order and with its
  key and value, so that the store worker decodes the same message again; at most one record more was
  written; and a run that finishes has replayed exactly as many as it reports.
\<close>

theorem dead_letters_replayed:
  assumes "replay_deps R M P now st send commit committed" and "origin_of topic = Some origin"
    and "dlqreplay send commit topic True limit fs w = (res, w')"
  shows "\<exists>ls cs. sLog (st w') = sLog (st w) @ ls \<and> sTabs (st w') = sTabs (st w) \<and> committed w' = committed w @ cs \<and> prefix cs (fetched fs) \<and>
    prefix (map key_value cs) (map key_value ls) \<and> length ls \<le> length cs + 1 \<and> (\<forall>r \<in> set ls. kmTopic r = origin) \<and>
    (\<forall>un. map (\<lambda>r. siMsg (parseStoreItem un r)) (take (length cs) ls) = map (\<lambda>r. siMsg (parseStoreItem un r)) cs) \<and>
    (\<forall>n. res = Finished n \<longrightarrow> length ls = n \<and> length cs = n)"
proof -
  from assms(2,3) have "replay_loop send commit topic origin True limit 0 fs w = (res, w')" by (simp add: dlqreplay_def)
  from replay_deps.replay_loop_spec [OF assms(1) this] obtain ls cs where
    r: "sTabs (st w') = sTabs (st w)" "sLog (st w') = sLog (st w) @ ls" "committed w' = committed w @ cs" "prefix cs (fetched fs)"
      "prefix (map key_value cs) (map key_value ls)" "length ls \<le> length cs + 1" "\<forall>r \<in> set ls. kmTopic r = origin"
      "\<forall>n. res = Finished n \<longrightarrow> n = 0 + length cs \<and> length ls = length cs" by blast
  have kv: "map key_value (take (length cs) ls) = map key_value cs"
    using r(5) by (auto simp: prefix_def take_map [symmetric])
  have parse: "siMsg (parseStoreItem un r) = (case un (snd (key_value r)) of Inl e \<Rightarrow> None | Inr m \<Rightarrow> Some m)" for un r
    by (simp add: parseStoreItem_def key_value_def split: sum.splits)
  have "map (\<lambda>r. siMsg (parseStoreItem un r)) xs = map (\<lambda>p. case un (snd p) of Inl e \<Rightarrow> None | Inr m \<Rightarrow> Some m) (map key_value xs)" for un xs
    by (simp add: parse)
  then have "map (\<lambda>r. siMsg (parseStoreItem un r)) (take (length cs) ls) = map (\<lambda>r. siMsg (parseStoreItem un r)) cs" for un
    using kv by metis
  with r show ?thesis by (intro exI [of _ ls] exI [of _ cs] conjI allI impI) auto
qed

theorem dead_letters_replayed_witness:
  "\<exists>res w'. dlqreplay (Send demo_replay_entropy (\<lambda>m. beside (mem_kafka m))) demo_commit ''dlq.msg.store'' True 2
      [Fetched (demo_km [1]), Fetched (demo_km [2]), Fetched (demo_km [3])] (demo_world [0, 1], []) = (res, w') \<and>
    prefix (snd w') [demo_km [1], demo_km [2], demo_km [3]]"
proof -
  let ?run = "dlqreplay (Send demo_replay_entropy (\<lambda>m. beside (mem_kafka m))) demo_commit ''dlq.msg.store'' True 2
      [Fetched (demo_km [1]), Fetched (demo_km [2]), Fetched (demo_km [3])] (demo_world [0, 1], [])"
  obtain res w' where run: "?run = (res, w')" by (cases ?run)
  have o: "origin_of ''dlq.msg.store'' = Some ''msg.store''" by (simp add: origin_of_def)
  from dead_letters_replayed [OF memreplay.replay_deps_axioms o run] run show ?thesis by auto
qed

end
