(* ===== verification/Bench.thy ===== *)
theory Bench
  imports Frame Messages Client
begin

text \<open>
  The load generator \<^verbatim>\<open>scripts/bench\<close>: registration and login of its accounts, the ring of
  conversations, the statistics that received frames change, and the verdict. The HTTP client, the
  socket and the codecs are parameters; latencies are whole milliseconds. Shown: the ring leaves every
  client with a conversation of its own and a friendship that allows it; a passing verdict means that
  nothing was lost only if nothing was delivered twice.
\<close>

section \<open>Statistics\<close>

text \<open>The counters by sender are association lists; a missing one is 0.\<close>

record stats =
  bsAckLat :: "int list"
  bsE2eLat :: "int list"
  bsRecvCount :: int
  bsSent :: "(string \<times> int) list"
  bsRecv :: "(string \<times> int) list"

definition counter :: "(string \<times> int) list \<Rightarrow> string \<Rightarrow> int" where
  "counter m k = (case map_of m k of None \<Rightarrow> 0 | Some n \<Rightarrow> n)"

definition incr :: "string \<Rightarrow> (string \<times> int) list \<Rightarrow> (string \<times> int) list" where
  "incr k m = (if map_of m k = None then m @ [(k, 1)] else map (\<lambda>(k', n). (k', if k' = k then n + 1 else n)) m)"

definition addACK :: "int \<Rightarrow> stats \<Rightarrow> stats" where
  "addACK ms st = st\<lparr>bsAckLat := bsAckLat st @ [ms]\<rparr>"

definition addE2E :: "int \<Rightarrow> stats \<Rightarrow> stats" where
  "addE2E ms st = st\<lparr>bsE2eLat := bsE2eLat st @ [ms]\<rparr>"

definition p99 :: "int list \<Rightarrow> int" where
  "p99 xs = (if length xs = 0 then 0 else sort xs ! ((length xs - 1) * 99 div 100))"

section \<open>Clients\<close>

record benchClient =
  bcIdx :: nat
  bcUid :: int
  bcToken :: string
  bcPeer :: int
  bcConvID :: string
  bcSentAt :: "(string \<times> int) list"

definition bench_conv :: "int \<Rightarrow> int \<Rightarrow> string" where
  "bench_conv a b = (let (a, b) = (if a > b then (b, a) else (a, b)) in ''c:'' @ format_int a @ '':'' @ format_int b)"

text \<open>One round of the pairing loop, on the array of clients and the rows for the friend table.\<close>

definition pair_step :: "nat \<Rightarrow> benchClient list \<times> (int \<times> int) list \<Rightarrow> benchClient list \<times> (int \<times> int) list" where
  "pair_step i = (\<lambda>(bcs, rows).
     let j = (i + 1) mod length bcs; ua = bcUid (bcs ! i); ub = bcUid (bcs ! j);
         bcs1 = bcs[i := (bcs ! i)\<lparr>bcPeer := ub\<rparr>];
         bcs2 = bcs1[j := (bcs1 ! j)\<lparr>bcPeer := ua\<rparr>];
         bcs3 = bcs2[i := (bcs2 ! i)\<lparr>bcConvID := bench_conv ua ub\<rparr>];
         bcs4 = bcs3[j := (bcs3 ! j)\<lparr>bcConvID := bcConvID (bcs3 ! i)\<rparr>]
     in (bcs4, rows @ [(ua, ub), (ub, ua)]))"

definition pair_all :: "benchClient list \<Rightarrow> benchClient list \<times> (int \<times> int) list" where
  "pair_all bcs = fold pair_step [0..<length bcs] (bcs, [])"

section \<open>Accounts\<close>

text \<open>
  The two calls of \<open>registerLogin\<close>: what the account service answers, decoded as far as it decodes (a
  body that does not decode leaves zeros).
\<close>

definition registerLogin ::
  "(string \<Rightarrow> ('w, int) call) \<Rightarrow> (string \<Rightarrow> ('w, int \<times> int \<times> string) call) \<Rightarrow> string \<Rightarrow> ('w, int \<times> string) call" where
  "registerLogin register login username w =
     (case register username w of
        (Inl e, w1) \<Rightarrow> (Inl e, w1)
      | (Inr code, w1) \<Rightarrow>
          if code \<noteq> 0 \<and> code \<noteq> 40202 then (Inl (Err (''register code='' @ format_int code)), w1)
          else (case login username w1 of
              (Inl e, w2) \<Rightarrow> (Inl e, w2)
            | (Inr (lcode, uid, token), w2) \<Rightarrow>
                if lcode \<noteq> 0 \<or> token = [] then (Inl (Err (''login code='' @ format_int lcode)), w2)
                else (Inr (uid, token), w2)))"

section \<open>Frames\<close>

definition bench_write :: "(bytes \<Rightarrow> 'v \<Rightarrow> 'v) option \<Rightarrow> u16 \<Rightarrow> u32 \<Rightarrow> bytes \<Rightarrow> 'v \<Rightarrow> 'v" where
  "bench_write ws cmd sq body v =
     (case Encode \<lparr>fVer = ProtoVer, fCmd = cmd, fSeq = sq, fBody = body\<rparr> of
        Inl e \<Rightarrow> v
      | Inr frame \<Rightarrow> (case ws of None \<Rightarrow> v | Some write \<Rightarrow> write frame v))"

record bench_codec =
  bxMsgSendAck :: "bytes \<Rightarrow> MsgSendAck \<times> error option"
  bxMsgPush :: "bytes \<Rightarrow> MsgPush \<times> error option"
  bxSyncNotifyReq :: "bytes \<Rightarrow> SyncNotifyReq \<times> error option"
  bxSyncResp :: "bytes \<Rightarrow> SyncResp \<times> error option"
  bxSyncPull :: "SyncPullReq \<Rightarrow> bytes"
  bxPayload :: "bytes \<Rightarrow> string list result"
  bxMsgSend :: "MsgSendReq \<Rightarrow> bytes"
  bxJson :: "string list \<Rightarrow> bytes"

text \<open>
  \<open>strconv.ParseInt\<close> with its error dropped: 0, or the nearest bound if the number is out of range; and
  \<open>time.Since\<close>, whose nanoseconds saturate, in milliseconds.
\<close>

definition parsed_ms :: "string \<Rightarrow> int" where
  "parsed_ms s = (case parse_int s of
     Inr ts \<Rightarrow> ts | Inl e \<Rightarrow> if e = err_range then (if hd s = CHR ''-'' then - (2 ^ 63) else 2 ^ 63 - 1) else 0)"

definition since_ms :: "int \<Rightarrow> int \<Rightarrow> int" where
  "since_ms nowMs ts = max (- 9223372036854) (min 9223372036854 (nowMs - ts))"

definition countMsg :: "bench_codec \<Rightarrow> int \<Rightarrow> MsgPush \<Rightarrow> stats \<Rightarrow> stats" where
  "countMsg X nowMs m st =
     (let st1 = st\<lparr>bsRecvCount := bsRecvCount st + 1\<rparr>;
          st2 = st1\<lparr>bsRecv := incr (format_int (mpSenderId m)) (bsRecv st1)\<rparr>
      in case bxPayload X (mpPayload m) of
           Inl e \<Rightarrow> st2
         | Inr parts \<Rightarrow>
             if length parts = 2 then addE2E (since_ms nowMs (parsed_ms (parts ! 1))) st2 else st2)"

text \<open>One message in \<open>readLoop\<close>: the client, the statistics and the frames it writes.\<close>

definition bench_read :: "bench_codec \<Rightarrow> int \<Rightarrow> int \<Rightarrow> bytes \<Rightarrow> benchClient \<times> stats \<Rightarrow> (benchClient \<times> stats) \<times> (u16 \<times> bytes) list" where
  "bench_read X nowMs mt data = (\<lambda>(bc, st).
     if mt \<noteq> BinaryMessage then ((bc, st), [])
     else case Decode data of
       Inl e \<Rightarrow> ((bc, st), [])
     | Inr frame \<Rightarrow>
         if fCmd frame = CmdMsgSendAck then
           (case bxMsgSendAck X (fBody frame) of
              (m, Some e) \<Rightarrow> ((bc, st), [])
            | (m, None) \<Rightarrow>
                if maCode m \<noteq> 0 then ((bc, st), [])
                else (case map_of (bcSentAt bc) (maClientMsgId m) of
                    None \<Rightarrow> ((bc, st), [])
                  | Some t \<Rightarrow>
                      ((bc\<lparr>bcSentAt := filter (\<lambda>p. fst p \<noteq> maClientMsgId m) (bcSentAt bc)\<rparr>, addACK (nowMs - t) st), [])))
         else if fCmd frame = CmdMsgPush then
           (case bxMsgPush X (fBody frame) of
              (m, Some e) \<Rightarrow> ((bc, st), [])
            | (m, None) \<Rightarrow> ((bc, countMsg X nowMs m st), []))
         else if fCmd frame = CmdSyncNotify then
           (case bxSyncNotifyReq X (fBody frame) of
              (n, Some e) \<Rightarrow> ((bc, st), [])
            | (n, None) \<Rightarrow> ((bc, st), map (\<lambda>cv. (CmdSyncPull,
                bxSyncPull X \<lparr>yqConvId = cbConvId cv, yqLocalMaxSeq = 0, yqLimit = 100, yqUid = 0\<rparr>)) (snConvs n)))
         else if fCmd frame = CmdSyncResp then
           (case bxSyncResp X (fBody frame) of
              (r, Some e) \<Rightarrow> ((bc, st), [])
            | (r, None) \<Rightarrow> ((bc, fold (countMsg X nowMs) (yaMessages r) st), []))
         else ((bc, st), []))"

text \<open>A tick of the sending loop with the sequence number before it: the frame it writes, and what it counts.\<close>

definition bench_tick ::
  "bench_codec \<Rightarrow> int \<Rightarrow> int \<Rightarrow> u32 \<Rightarrow> benchClient \<times> stats \<Rightarrow> (u16 \<times> u32 \<times> bytes) \<times> u32 \<times> benchClient \<times> stats" where
  "bench_tick X nowNs nowMs sq = (\<lambda>(bc, st).
     let cmid = format_int (bcUid bc) @ ''-'' @ format_int nowNs;
         body = bxMsgSend X \<lparr>mqClientMsgId = cmid, mqConvId = bcConvID bc, mqConvType = 1, mqMsgType = 1,
                              mqPayload = bxJson X [cmid, format_int nowMs]\<rparr>
     in ((CmdMsgSend, sq + 1, body), sq + 1,
         bc\<lparr>bcSentAt := (cmid, nowMs) # filter (\<lambda>p. fst p \<noteq> cmid) (bcSentAt bc)\<rparr>,
         st\<lparr>bsSent := incr (format_int (bcUid bc)) (bsSent st)\<rparr>))"

section \<open>The verdict\<close>

definition bench_loss :: "stats \<Rightarrow> int" where
  "bench_loss st = fold (\<lambda>(sender, n) loss. let got = counter (bsRecv st) sender in if got \<noteq> n then loss + (n - got) else loss) (bsSent st) 0"

definition bench_pass :: "nat \<Rightarrow> nat \<Rightarrow> stats \<Rightarrow> bool" where
  "bench_pass clients connected st \<longleftrightarrow> bench_loss st = 0 \<and> connected = clients"

section \<open>Lemmas\<close>

lemma counter_incr: "counter (incr k m) k' = counter m k' + (if k' = k then 1 else 0)"
proof -
  have "map_of (map (\<lambda>(k', n). (k', if k' = k then n + 1 else n)) m) k' = map_option (\<lambda>n. if k' = k then n + 1 else n) (map_of m k')"
    by (induction m) auto
  moreover have "map_of (m @ [(k, 1)]) k' = (case map_of m k' of None \<Rightarrow> if k' = k then Some 1 else None | Some v \<Rightarrow> Some v)"
    by (induction m) auto
  ultimately show ?thesis by (auto simp: counter_def incr_def split: option.splits)
qed

text \<open>Every received message counts once, for its sender.\<close>

lemma countMsg_counts:
  "counter (bsRecv (countMsg X t m st)) k = counter (bsRecv st) k + (if k = format_int (mpSenderId m) then 1 else 0)"
  "bsRecvCount (countMsg X t m st) = bsRecvCount st + 1" "bsSent (countMsg X t m st) = bsSent st"
  by (auto simp: countMsg_def Let_def addE2E_def counter_incr split: sum.splits)

lemma bench_loss_eq: "bench_loss st = sum_list (map (\<lambda>(sender, n). n - counter (bsRecv st) sender) (bsSent st))"
proof -
  have "fold (\<lambda>(sender, n) loss. let got = counter r sender in if got \<noteq> n then loss + (n - got) else loss) xs a =
      a + sum_list (map (\<lambda>(sender, n). n - counter r sender) xs)" for r and xs :: "(string \<times> int) list" and a
    by (induction xs arbitrary: a) (auto simp: Let_def)
  then show ?thesis by (simp add: bench_loss_def)
qed

text \<open>
  What the receiver of a tick's message reads off its payload: the end-to-end latency since the tick,
  if the JSON decoder undoes the encoder.
\<close>

lemma e2e_latency:
  assumes "bxPayload X (bxJson X [cmid, format_int ms]) = Inr [cmid, format_int ms]" and "int64 ms"
    and "mpPayload m = bxJson X [cmid, format_int ms]" and "0 \<le> now - ms" "now - ms \<le> 9223372036854"
  shows "bsE2eLat (countMsg X now m st) = bsE2eLat st @ [now - ms]"
  using assms by (simp add: countMsg_def parsed_ms_def parse_int_format since_ms_def addE2E_def)

text \<open>The value reported as the 99th percentile is a sample, and at most one in a hundred plus one are above it.\<close>

lemma p99_sample: "xs \<noteq> [] \<Longrightarrow> p99 xs \<in> set xs"
proof -
  assume "xs \<noteq> []"
  then have "(length xs - 1) * 99 div 100 < length (sort xs)" by (cases xs) auto
  then have "sort xs ! ((length xs - 1) * 99 div 100) \<in> set (sort xs)" by (rule nth_mem)
  with \<open>xs \<noteq> []\<close> show ?thesis by (simp add: p99_def)
qed

lemma p99_two: "a \<le> b \<Longrightarrow> p99 [a, b] = a"
  by (simp add: p99_def)

lemma bench_conv_is_convP2P: "bench_conv = convP2P"
  by (simp add: fun_eq_iff bench_conv_def convP2P_def)

section \<open>The ring\<close>

lemma pair_step_at:
  assumes "i < length bcs" and "2 \<le> length bcs" and "pair_step i (bcs, rows) = (bcs', rows')"
  shows "length bcs' = length bcs" "\<And>k. bcUid (bcs' ! k) = bcUid (bcs ! k)"
    "\<And>k. k < length bcs \<Longrightarrow> k \<noteq> i \<Longrightarrow> k \<noteq> (i + 1) mod length bcs \<Longrightarrow> bcs' ! k = bcs ! k"
    "bcPeer (bcs' ! i) = bcUid (bcs ! ((i + 1) mod length bcs))" "bcPeer (bcs' ! ((i + 1) mod length bcs)) = bcUid (bcs ! i)"
    "bcConvID (bcs' ! i) = bench_conv (bcUid (bcs ! i)) (bcUid (bcs ! ((i + 1) mod length bcs)))"
    "bcConvID (bcs' ! ((i + 1) mod length bcs)) = bench_conv (bcUid (bcs ! i)) (bcUid (bcs ! ((i + 1) mod length bcs)))"
    "rows' = rows @ [(bcUid (bcs ! i), bcUid (bcs ! ((i + 1) mod length bcs))), (bcUid (bcs ! ((i + 1) mod length bcs)), bcUid (bcs ! i))]"
proof -
  have j: "(i + 1) mod length bcs < length bcs" "(i + 1) mod length bcs \<noteq> i"
    using assms(1,2) by (auto simp: mod_if split: if_splits)
  show "length bcs' = length bcs" "\<And>k. bcUid (bcs' ! k) = bcUid (bcs ! k)"
    "\<And>k. k < length bcs \<Longrightarrow> k \<noteq> i \<Longrightarrow> k \<noteq> (i + 1) mod length bcs \<Longrightarrow> bcs' ! k = bcs ! k"
    "bcPeer (bcs' ! i) = bcUid (bcs ! ((i + 1) mod length bcs))" "bcPeer (bcs' ! ((i + 1) mod length bcs)) = bcUid (bcs ! i)"
    "bcConvID (bcs' ! i) = bench_conv (bcUid (bcs ! i)) (bcUid (bcs ! ((i + 1) mod length bcs)))"
    "bcConvID (bcs' ! ((i + 1) mod length bcs)) = bench_conv (bcUid (bcs ! i)) (bcUid (bcs ! ((i + 1) mod length bcs)))"
    "rows' = rows @ [(bcUid (bcs ! i), bcUid (bcs ! ((i + 1) mod length bcs))), (bcUid (bcs ! ((i + 1) mod length bcs)), bcUid (bcs ! i))]"
    using assms j by (auto simp: pair_step_def Let_def nth_list_update)
qed

definition linked :: "benchClient list \<Rightarrow> benchClient list \<times> (int \<times> int) list \<Rightarrow> nat \<Rightarrow> nat \<Rightarrow> bool" where
  "linked bcs r i k \<longleftrightarrow> bcPeer (fst r ! i) = bcUid (bcs ! k) \<and> bcConvID (fst r ! i) = bench_conv (bcUid (bcs ! i)) (bcUid (bcs ! k)) \<and>
     (bcUid (bcs ! i), bcUid (bcs ! k)) \<in> set (snd r) \<and> (bcUid (bcs ! k), bcUid (bcs ! i)) \<in> set (snd r)"

lemma ring_prefix:
  assumes "i < length bcs" and "2 \<le> length bcs"
  shows "length (fst (fold pair_step [0..<i] (bcs, []))) = length bcs \<and>
    (\<forall>k. bcUid (fst (fold pair_step [0..<i] (bcs, [])) ! k) = bcUid (bcs ! k)) \<and> (\<forall>k < i. linked bcs (fold pair_step [0..<i] (bcs, [])) k (k + 1))"
  using assms(1)
proof (induction i)
  case (Suc i)
  let ?r = "fold pair_step [0..<i] (bcs, [])"
  obtain b rows where r: "?r = (b, rows)" by (cases ?r)
  obtain b' rows' where r': "pair_step i (b, rows) = (b', rows')" by (cases "pair_step i (b, rows)")
  have IH: "length b = length bcs" "\<forall>k. bcUid (b ! k) = bcUid (bcs ! k)" "\<forall>k < i. linked bcs (b, rows) k (k + 1)" using Suc r by auto
  have i: "i < length b" "2 \<le> length b" "(i + 1) mod length b = i + 1" using Suc.prems assms(2) IH(1) by simp_all
  note P = pair_step_at [OF i(1,2) r', unfolded i(3)]
  have "linked bcs (b', rows') k (k + 1)" if "k < Suc i" for k
  proof (cases "k = i")
    case True
    then show ?thesis using P(4,6,8) IH(2) by (simp add: linked_def)
  next
    case False
    then have "b' ! k = b ! k" using that Suc.prems IH(1) by (intro P(3)) auto
    with IH(3) False that P(8) show ?thesis by (auto simp: linked_def)
  qed
  with P(1,2) IH r r' show ?case by simp
qed simp

text \<open>
  The pairing leaves every client with the conversation it has with its neighbour in the ring (the first
  one with its predecessor, which the last round gives it), and with the rows of the friend table that
  let the logic server accept its messages.
\<close>

theorem bench_ring_linked:
  assumes "2 \<le> length bcs" and "i < length bcs"
  shows "linked bcs (pair_all bcs) i (if i = 0 then length bcs - 1 else (i + 1) mod length bcs)"
proof -
  let ?n = "length bcs - 1" and ?r = "fold pair_step [0..<length bcs - 1] (bcs, [])"
  obtain b rows where r: "?r = (b, rows)" by (cases ?r)
  obtain b' rows' where r': "pair_step ?n (b, rows) = (b', rows')" by (cases "pair_step ?n (b, rows)")
  have n: "?n < length bcs" using assms by simp
  have IH: "length b = length bcs" "\<forall>k. bcUid (b ! k) = bcUid (bcs ! k)" "\<forall>k < ?n. linked bcs (b, rows) k (k + 1)"
    using ring_prefix [OF n assms(1)] r by auto
  have "?n + 1 = length bcs" using assms(1) by simp
  then have m: "?n < length b" "2 \<le> length b" "(?n + 1) mod length b = 0" using assms(1) IH(1) by simp_all
  note P = pair_step_at [OF m(1,2) r', unfolded m(3)]
  have "[0..<length bcs] = [0..<?n] @ [?n]" using assms(1) by (metis Suc_diff_1 less_le_trans upt_Suc_append zero_le zero_less_numeral)
  then have all: "pair_all bcs = (b', rows')" using r r' by (simp add: pair_all_def)
  have sym: "bench_conv x y = bench_conv y x" for x y by (simp add: bench_conv_def)
  consider "i = 0" | "i = ?n" "i \<noteq> 0" | "0 < i" "i < ?n" using assms(2) by linarith
  then show ?thesis
  proof cases
    case 1
    then show ?thesis using P(5,7,8) IH(2) all sym by (simp add: linked_def)
  next
    case 2
    then have "(i + 1) mod length bcs = 0" using m(3) IH(1) by simp
    with 2 show ?thesis using P(4,6,8) IH(2) all by (simp add: linked_def)
  next
    case 3
    then have j: "(i + 1) mod length bcs = i + 1" "b' ! i = b ! i" using P(3) [of i] IH(1) by auto
    with IH(3) 3 P(8) all show ?thesis by (auto simp: linked_def)
  qed
qed

section \<open>What a pass means\<close>

text \<open>
  The verdict of the load test. If no message was counted twice, a pass means that every sender's
  messages all arrived; but one message lost and another delivered twice also pass.
\<close>

theorem bench_pass_means:
  "(\<forall>st clients connected. bench_pass clients connected st \<and> (\<forall>(sender, n) \<in> set (bsSent st). counter (bsRecv st) sender \<le> n) \<longrightarrow>
      (\<forall>(sender, n) \<in> set (bsSent st). counter (bsRecv st) sender = n)) \<and>
   (\<exists>st. bench_pass 2 2 st \<and> bsSent st = [(''1'', 5), (''2'', 5)] \<and> counter (bsRecv st) ''1'' = 4)"
proof (intro conjI allI impI)
  fix st clients connected
  assume a: "bench_pass clients connected st \<and> (\<forall>(sender, n) \<in> set (bsSent st). counter (bsRecv st) sender \<le> n)"
  let ?d = "\<lambda>(sender, n). n - counter (bsRecv st) sender"
  have "\<forall>x \<in> set (map ?d (bsSent st)). 0 \<le> x" using a by auto
  moreover have "sum_list (map ?d (bsSent st)) = 0" using a by (simp add: bench_pass_def bench_loss_eq)
  ultimately have "\<forall>x \<in> set (map ?d (bsSent st)). x = 0" using sum_list_nonneg_eq_0_iff [of "map ?d (bsSent st)"] by blast
  then show "\<forall>(sender, n) \<in> set (bsSent st). counter (bsRecv st) sender = n" by auto
next
  let ?st = "\<lparr>bsAckLat = [], bsE2eLat = [], bsRecvCount = 10, bsSent = [(''1'', 5), (''2'', 5)], bsRecv = [(''1'', 4), (''2'', 6)]\<rparr>"
  have "bench_pass 2 2 ?st" "counter (bsRecv ?st) ''1'' = 4" by (simp_all add: bench_pass_def bench_loss_eq counter_def)
  then show "\<exists>st. bench_pass 2 2 st \<and> bsSent st = [(''1'', 5), (''2'', 5)] \<and> counter (bsRecv st) ''1'' = 4" by (intro exI [of _ ?st]) simp
qed

end
