(* ===== verification/Account.thy ===== *)
theory Account
  imports LogicToken
begin

text \<open>
  The account service, \<^verbatim>\<open>internal/account\<close>: registration, login and token verification
  (\<^verbatim>\<open>service.go\<close>, \<^verbatim>\<open>token.go\<close>, \<^verbatim>\<open>cache.go\<close>, \<^verbatim>\<open>store.go\<close>, \<^verbatim>\<open>errcode.go\<close>), the groups (\<^verbatim>\<open>group.go\<close>,
  \<^verbatim>\<open>groupstore.go\<close>) and the HTTP layer around them (\<^verbatim>\<open>handler.go\<close>).

  The JWT library, bcrypt, the JSON decoder, MySQL, Redis, Kafka, the clock and MySQL's collation of
  user names are parameters. A response is the list of what the handler writes, so that a handler
  that writes twice is visible. Texts of messages to users are left out; times are milliseconds. The
  events of \<open>emitGroupEvent\<close> are tasks that goroutines carry out later, in any order.
\<close>

section \<open>Codes\<close>

definition AccountOK :: int where "AccountOK = 0"
definition CodeUnauthorized :: int where "CodeUnauthorized = 40101"
definition AccountBadParam :: int where "AccountBadParam = 40201"
definition CodeUsernameExists :: int where "CodeUsernameExists = 40202"
definition CodeStorageError :: int where "CodeStorageError = 50101"
definition CodeRedisError :: int where "CodeRedisError = 50201"
definition CodeGroupNameBad :: int where "CodeGroupNameBad = 40203"
definition CodeGroupNotFound :: int where "CodeGroupNotFound = 40204"
definition CodeGroupForbidden :: int where "CodeGroupForbidden = 40302"
definition CodeGroupFull :: int where "CodeGroupFull = 40303"

lemmas account_codes =
  AccountOK_def CodeUnauthorized_def AccountBadParam_def CodeUsernameExists_def CodeStorageError_def CodeRedisError_def
  CodeGroupNameBad_def CodeGroupNotFound_def CodeGroupForbidden_def CodeGroupFull_def

text \<open>A \<open>BizError\<close>, possibly wrapped, or another error.\<close>

datatype aerror = BizError int | Plain error

definition wrapStorage :: "error \<Rightarrow> aerror" where
  "wrapStorage e = BizError CodeStorageError"

section \<open>Parameters\<close>

record Claims =
  clUID :: int
  clType :: string
  clExp :: int
  clIat :: int
  clIss :: string

text \<open>
  \<open>jwt.NewWithClaims(HS256, claims).SignedString(secret)\<close>, and \<open>jwt.ParseWithClaims\<close> with the accepted
  methods, the function that picks the key for a method, and the time in seconds.
\<close>

record jwt =
  jwSign :: "bytes \<Rightarrow> Claims \<Rightarrow> string result"
  jwParse :: "string list \<Rightarrow> (string \<Rightarrow> bytes result) \<Rightarrow> int \<Rightarrow> string \<Rightarrow> Claims result"

record 'w bcrypt =
  bcGenerate :: "string \<Rightarrow> int \<Rightarrow> ('w, string) call"
  bcCompare :: "string \<Rightarrow> string \<Rightarrow> error option"

record 'w Store =
  usCreateUser :: "user_row \<Rightarrow> ('w, unit) call"
  usGetUserByUsername :: "string \<Rightarrow> ('w, user_row) call"

record 'w TokenCache =
  tcSetDigest :: "int \<Rightarrow> string \<Rightarrow> int \<Rightarrow> ('w, unit) call"
  tcGetDigest :: "int \<Rightarrow> ('w, string) call"
  tcDelDigest :: "int \<Rightarrow> ('w, unit) call"

record groupMemberRow =
  mrUID :: int
  mrRole :: int

record 'w GroupStore =
  gsCreateGroup :: "int \<Rightarrow> string \<Rightarrow> int \<Rightarrow> groupMemberRow list \<Rightarrow> ('w, unit) call"
  gsGetGroup :: "int \<Rightarrow> ('w, int) call"
  gsListMembers :: "int \<Rightarrow> ('w, groupMemberRow list) call"
  gsMemberRole :: "int \<Rightarrow> int \<Rightarrow> ('w, int) call"
  gsAddMember :: "int \<Rightarrow> int \<Rightarrow> ('w, unit) call"
  gsRemoveMember :: "int \<Rightarrow> int \<Rightarrow> ('w, unit) call"

text \<open>An event on its way to Kafka: name, group and user.\<close>

type_synonym gevent = "string \<times> int \<times> int"

text \<open>What the process keeps: the identifier node both services share, and the events under way.\<close>

record 'w acct =
  acNode :: Node
  acEvents :: "gevent list"
  acWorld :: 'w

definition ask :: "('w \<Rightarrow> 'a \<times> 'w) \<Rightarrow> 'w acct \<Rightarrow> 'a \<times> 'w acct" where
  "ask f s = (let (r, w) = f (acWorld s) in (r, s\<lparr>acWorld := w\<rparr>))"

section \<open>Tokens\<close>

definition TokenTypeAccess :: string where "TokenTypeAccess = ''access''"
definition TokenTypeRefresh :: string where "TokenTypeRefresh = ''refresh''"

record TokenManager =
  tmSecret :: bytes
  tmAccessTTL :: int
  tmRefreshTTL :: int

definition NewTokenManager :: "string \<Rightarrow> int \<Rightarrow> int \<Rightarrow> TokenManager" where
  "NewTokenManager secret accessTTL refreshTTL =
     \<lparr>tmSecret = bytes_of secret, tmAccessTTL = accessTTL, tmRefreshTTL = refreshTTL\<rparr>"

record 'w Service =
  seStore :: "'w Store"
  seCache :: "'w TokenCache"
  seTM :: TokenManager
  seJwt :: jwt
  seBcrypt :: "'w bcrypt"
  seNow :: "'w \<Rightarrow> int \<times> 'w"

definition NewService ::
  "'w Store \<Rightarrow> 'w TokenCache \<Rightarrow> TokenManager \<Rightarrow> jwt \<Rightarrow> 'w bcrypt \<Rightarrow> ('w \<Rightarrow> int \<times> 'w) \<Rightarrow> 'w Service" where
  "NewService store cache tm J B now =
     \<lparr>seStore = store, seCache = cache, seTM = tm, seJwt = J, seBcrypt = B, seNow = now\<rparr>"

text \<open>\<open>Issue\<close>: the token with the time it expires, in milliseconds; JWT dates are whole seconds.\<close>

definition Issue :: "'w Service \<Rightarrow> int \<Rightarrow> bool \<Rightarrow> 'w acct \<Rightarrow> (string \<times> int) result \<times> 'w acct" where
  "Issue S uid accessToken s =
     (let typ = (if accessToken then TokenTypeAccess else TokenTypeRefresh);
          ttl = (if accessToken then tmAccessTTL (seTM S) else tmRefreshTTL (seTM S));
          (now, s1) = ask (seNow S) s;
          expire = now + ttl;
          claims = \<lparr>clUID = uid, clType = typ, clExp = expire div 1000, clIat = now div 1000, clIss = ''linkim-account''\<rparr>
      in case jwSign (seJwt S) (tmSecret (seTM S)) claims of
           Inl e \<Rightarrow> (Inl (errorf ''account: sign token'' e), s1)
         | Inr t \<Rightarrow> (Inr (t, expire), s1))"

definition hmac_key :: "bytes \<Rightarrow> string \<Rightarrow> bytes result" where
  "hmac_key secret alg =
     (if alg \<in> {''HS256'', ''HS384'', ''HS512''} then Inr secret
      else Inl (Err (''account: unexpected signing method '' @ alg)))"

definition Parse :: "'w Service \<Rightarrow> string \<Rightarrow> 'w acct \<Rightarrow> Claims result \<times> 'w acct" where
  "Parse S token s =
     (let (now, s1) = ask (seNow S) s in
      case jwParse (seJwt S) [''HS256''] (hmac_key (tmSecret (seTM S))) (now div 1000) token of
        Inl e \<Rightarrow> (Inl (errorf ''account: parse token'' e), s1)
      | Inr claims \<Rightarrow> (Inr claims, s1))"

definition Digest :: "string \<Rightarrow> string" where
  "Digest token = EncodeToString (take 32 (Sum256 (bytes_of token)))"

definition redisTokenCache :: "'w redis \<Rightarrow> 'w TokenCache" where
  "redisTokenCache R =
    \<lparr>tcSetDigest = \<lambda>uid digest ttl w. (case rSet R (TokenKey uid) digest ttl w of
        (Inl e, w1) \<Rightarrow> (Inl (errorf ''account: set token digest'' e), w1) | (Inr _, w1) \<Rightarrow> (Inr (), w1)),
     tcGetDigest = \<lambda>uid w. (case rGet R (TokenKey uid) w of
        (Inl e, w1) \<Rightarrow> if e = RedisNil then (Inr [], w1) else (Inl (errorf ''account: get token digest'' e), w1)
      | (Inr v, w1) \<Rightarrow> (Inr v, w1)),
     tcDelDigest = \<lambda>uid w. (case rDel R (TokenKey uid) w of
        (Inl e, w1) \<Rightarrow> (Inl (errorf ''account: del token digest'' e), w1) | (Inr _, w1) \<Rightarrow> (Inr (), w1))\<rparr>"

section \<open>Users\<close>

definition ErrUsernameExists :: error where "ErrUsernameExists = Err ''account: username already exists''"
definition ErrUserNotFound :: error where "ErrUserNotFound = Err ''account: user not found''"

text \<open>
  The statements on the table \<open>user\<close>; names are compared by their images under the collation \<open>C\<close>.
\<close>

definition insert_user :: "(string \<Rightarrow> string) \<Rightarrow> user_row \<Rightarrow> tables \<Rightarrow> tables result" where
  "insert_user C u T =
     (if \<exists>v \<in> set (tUser T). uId v = uId u \<or> C (uName v) = C (uName u) then Inl DuplicateKey
      else Inr (T\<lparr>tUser := tUser T @ [u]\<rparr>))"

definition select_user :: "(string \<Rightarrow> string) \<Rightarrow> string \<Rightarrow> tables \<Rightarrow> user_row option" where
  "select_user C name T = List.find (\<lambda>v. C (uName v) = C name) (tUser T)"

definition isDuplicateKey :: "error \<Rightarrow> bool" where
  "isDuplicateKey e \<longleftrightarrow> e = DuplicateKey"

definition mysqlStore :: "'w mysql \<Rightarrow> (string \<Rightarrow> string) \<Rightarrow> 'w Store" where
  "mysqlStore M C =
    \<lparr>usCreateUser = \<lambda>u w. (case mExec M (insert_user C u) w of
        (Inl e, w1) \<Rightarrow> (Inl (if isDuplicateKey e then ErrUsernameExists else errorf ''account: insert user'' e), w1)
      | (Inr _, w1) \<Rightarrow> (Inr (), w1)),
     usGetUserByUsername = \<lambda>name w. (case mQuery M w of
        (Inl e, w1) \<Rightarrow> (Inl (errorf ''account: select user'' e), w1)
      | (Inr T, w1) \<Rightarrow> (case select_user C name T of None \<Rightarrow> (Inl ErrUserNotFound, w1) | Some u \<Rightarrow> (Inr u, w1)))\<rparr>"

section \<open>The service\<close>

definition bcryptCost :: int where "bcryptCost = 10"

record RegisterRequest =
  rqUsername :: string
  rqPassword :: string
  rqNickname :: string

record LoginRequest =
  lqUsername :: string
  lqPassword :: string

record LoginResult =
  lrUID :: int
  lrAccessToken :: string
  lrRefreshToken :: string
  lrExpireAt :: int

record VerifyResult =
  vrUID :: int
  vrValid :: bool

definition usernamePattern :: "string \<Rightarrow> bool" where
  "usernamePattern s \<longleftrightarrow> s \<noteq> [] \<and> (\<forall>c \<in> set s. let n = (of_char c :: nat) in
     97 \<le> n \<and> n \<le> 122 \<or> 65 \<le> n \<and> n \<le> 90 \<or> 48 \<le> n \<and> n \<le> 57 \<or> n = 95)"

definition validateRegister :: "RegisterRequest \<Rightarrow> aerror option" where
  "validateRegister req =
     (if length (rqUsername req) < 4 \<or> length (rqUsername req) > 32 then Some (BizError AccountBadParam)
      else if \<not> usernamePattern (rqUsername req) then Some (BizError AccountBadParam)
      else if length (rqPassword req) < 8 \<or> length (rqPassword req) > 64 then Some (BizError AccountBadParam)
      else if length (rqNickname req) > 64 then Some (BizError AccountBadParam)
      else None)"

definition Register :: "'w Service \<Rightarrow> RegisterRequest \<Rightarrow> 'w acct \<Rightarrow> (aerror + int) outcome \<times> 'w acct" where
  "Register S req s =
     (case validateRegister req of
        Some e \<Rightarrow> (Ret (Inl e), s)
      | None \<Rightarrow>
        (case ask (usGetUserByUsername (seStore S) (rqUsername req)) s of
           (Inr _, s1) \<Rightarrow> (Ret (Inl (BizError CodeUsernameExists)), s1)
         | (Inl e, s1) \<Rightarrow>
           if e \<noteq> ErrUserNotFound then (Ret (Inl (wrapStorage e)), s1)
           else (case ask (bcGenerate (seBcrypt S) (rqPassword req) bcryptCost) s1 of
             (Inl e, s2) \<Rightarrow> (Ret (Inl (wrapStorage e)), s2)
           | (Inr hash, s2) \<Rightarrow>
             (case Next (seNow S) (acNode s2) (acWorld s2) of
                None \<Rightarrow> (Hang, s2)
              | Some (uid, n, w) \<Rightarrow>
                (let (_, s3) = ask (seNow S) (s2\<lparr>acNode := n, acWorld := w\<rparr>);
                     u = \<lparr>uId = uid, uName = rqUsername req, uHash = hash, uNick = rqNickname req\<rparr>
                 in case ask (usCreateUser (seStore S) u) s3 of
                      (Inl e, s4) \<Rightarrow>
                        (Ret (Inl (if e = ErrUsernameExists then BizError CodeUsernameExists else wrapStorage e)), s4)
                    | (Inr _, s4) \<Rightarrow> (Ret (Inr uid), s4))))))"

definition Login :: "'w Service \<Rightarrow> LoginRequest \<Rightarrow> 'w acct \<Rightarrow> (aerror + LoginResult) \<times> 'w acct" where
  "Login S req s =
     (if lqUsername req = [] \<or> lqPassword req = [] then (Inl (BizError AccountBadParam), s)
      else case ask (usGetUserByUsername (seStore S) (lqUsername req)) s of
        (Inl e, s1) \<Rightarrow> (Inl (if e = ErrUserNotFound then BizError CodeUnauthorized else wrapStorage e), s1)
      | (Inr u, s1) \<Rightarrow>
          if bcCompare (seBcrypt S) (uHash u) (lqPassword req) \<noteq> None then (Inl (BizError CodeUnauthorized), s1)
          else case Issue S (uId u) True s1 of
            (Inl e, s2) \<Rightarrow> (Inl (wrapStorage e), s2)
          | (Inr (access, expire), s2) \<Rightarrow>
              (case Issue S (uId u) False s2 of
                 (Inl e, s3) \<Rightarrow> (Inl (wrapStorage e), s3)
               | (Inr (refresh, _), s3) \<Rightarrow>
                   (case ask (tcSetDigest (seCache S) (uId u) (Digest access) (tmAccessTTL (seTM S))) s3 of
                      (Inl e, s4) \<Rightarrow> (Inl (BizError CodeRedisError), s4)
                    | (Inr _, s4) \<Rightarrow>
                        (Inr \<lparr>lrUID = uId u, lrAccessToken = access, lrRefreshToken = refresh, lrExpireAt = expire div 1000\<rparr>, s4))))"

definition Verify :: "'w Service \<Rightarrow> string \<Rightarrow> 'w acct \<Rightarrow> (VerifyResult \<times> aerror option) \<times> 'w acct" where
  "Verify S token s =
     (case Parse S token s of
        (Inl e, s1) \<Rightarrow> ((\<lparr>vrUID = 0, vrValid = False\<rparr>, Some (BizError CodeUnauthorized)), s1)
      | (Inr claims, s1) \<Rightarrow>
          if clType claims \<noteq> TokenTypeAccess then ((\<lparr>vrUID = 0, vrValid = False\<rparr>, Some (BizError CodeUnauthorized)), s1)
          else case ask (tcGetDigest (seCache S) (clUID claims)) s1 of
            (Inl e, s2) \<Rightarrow> ((\<lparr>vrUID = 0, vrValid = False\<rparr>, Some (BizError CodeRedisError)), s2)
          | (Inr cached, s2) \<Rightarrow>
              if cached \<noteq> [] \<and> cached \<noteq> Digest token
              then ((\<lparr>vrUID = 0, vrValid = False\<rparr>, Some (BizError CodeUnauthorized)), s2)
              else ((\<lparr>vrUID = clUID claims, vrValid = True\<rparr>, None), s2))"

end
