(* ===== verification/AccountHttp.thy ===== *)
theory AccountHttp
  imports Account
begin

text \<open>
  The HTTP interface of the account service: the group statements of \<^verbatim>\<open>groupstore.go\<close>, the handlers and
  middlewares of \<^verbatim>\<open>handler.go\<close> and \<^verbatim>\<open>group.go\<close>, and the routing of \<open>NewRouter\<close>.
\<close>

section \<open>The group tables\<close>

definition groupMaxMembers :: int where "groupMaxMembers = 500"
definition roleMember :: int where "roleMember = 0"
definition roleAdmin :: int where "roleAdmin = 1"
definition roleOwner :: int where "roleOwner = 2"

text \<open>Primary keys \<open>group(id)\<close> and \<open>group_member(group_id, uid)\<close>.\<close>

definition member_key :: "member_row \<Rightarrow> int \<times> int" where
  "member_key r = (gmGroup r, gmUid r)"

fun insert_members :: "int \<Rightarrow> groupMemberRow list \<Rightarrow> member_row list \<Rightarrow> member_row list result" where
  "insert_members gid [] rows = Inr rows"
| "insert_members gid (m # ms) rows =
     (if (gid, mrUID m) \<in> member_key ` set rows then Inl (errorf ''account: insert group member'' DuplicateKey)
      else insert_members gid ms (rows @ [\<lparr>gmGroup = gid, gmUid = mrUID m, gmRole = mrRole m\<rparr>]))"

text \<open>The transaction of \<open>CreateGroup\<close>: all its rows or none.\<close>

definition create_group :: "int \<Rightarrow> string \<Rightarrow> int \<Rightarrow> groupMemberRow list \<Rightarrow> tables \<Rightarrow> tables result" where
  "create_group gid name owner members T =
     (if gid \<in> gId ` set (tGroup T) then Inl (errorf ''account: insert group'' DuplicateKey)
      else case insert_members gid members (tMember T) of
        Inl e \<Rightarrow> Inl e
      | Inr rows \<Rightarrow> Inr (T\<lparr>tGroup := tGroup T @ [\<lparr>gId = gid, gName = name, gOwner = owner\<rparr>], tMember := rows\<rparr>))"

definition select_owner :: "int \<Rightarrow> tables \<Rightarrow> int option" where
  "select_owner gid T = map_option gOwner (List.find (\<lambda>g. gId g = gid) (tGroup T))"

definition select_member_rows :: "int \<Rightarrow> tables \<Rightarrow> groupMemberRow list" where
  "select_member_rows gid T =
     map (\<lambda>r. \<lparr>mrUID = gmUid r, mrRole = gmRole r\<rparr>) (sort_key gmUid (filter (\<lambda>r. gmGroup r = gid) (tMember T)))"

definition select_role :: "int \<Rightarrow> int \<Rightarrow> tables \<Rightarrow> int option" where
  "select_role gid uid T = map_option gmRole (List.find (\<lambda>r. member_key r = (gid, uid)) (tMember T))"

definition add_member :: "int \<Rightarrow> int \<Rightarrow> tables \<Rightarrow> tables" where
  "add_member gid uid T =
     (if (gid, uid) \<in> member_key ` set (tMember T) then T
      else T\<lparr>tMember := tMember T @ [\<lparr>gmGroup = gid, gmUid = uid, gmRole = 0\<rparr>]\<rparr>)"

definition remove_member :: "int \<Rightarrow> int \<Rightarrow> tables \<Rightarrow> tables" where
  "remove_member gid uid T = T\<lparr>tMember := filter (\<lambda>r. member_key r \<noteq> (gid, uid)) (tMember T)\<rparr>"

definition wrap_exec :: "string \<Rightarrow> unit result \<times> 'w \<Rightarrow> unit result \<times> 'w" where
  "wrap_exec msg p = (case p of (Inl e, w) \<Rightarrow> (Inl (errorf msg e), w) | (Inr _, w) \<Rightarrow> (Inr (), w))"

definition mysqlGroupStore :: "'w mysql \<Rightarrow> 'w GroupStore" where
  "mysqlGroupStore M =
    \<lparr>gsCreateGroup = \<lambda>gid name owner members w. wrap_exec ''account: create group'' (mExec M (create_group gid name owner members) w),
     gsGetGroup = \<lambda>gid w. (case mQuery M w of
        (Inl e, w1) \<Rightarrow> (Inl (errorf ''account: select group'' e), w1)
      | (Inr T, w1) \<Rightarrow> (case select_owner gid T of None \<Rightarrow> (Inl ErrNoRows, w1) | Some u \<Rightarrow> (Inr u, w1))),
     gsListMembers = \<lambda>gid w. (case mQuery M w of
        (Inl e, w1) \<Rightarrow> (Inl (errorf ''account: list group members'' e), w1)
      | (Inr T, w1) \<Rightarrow> (Inr (select_member_rows gid T), w1)),
     gsMemberRole = \<lambda>gid uid w. (case mQuery M w of
        (Inl e, w1) \<Rightarrow> (Inl (errorf ''account: select member role'' e), w1)
      | (Inr T, w1) \<Rightarrow> (case select_role gid uid T of None \<Rightarrow> (Inr (- 1), w1) | Some r \<Rightarrow> (Inr r, w1))),
     gsAddMember = \<lambda>gid uid w. wrap_exec ''account: add group member'' (mExec M (\<lambda>T. Inr (add_member gid uid T)) w),
     gsRemoveMember = \<lambda>gid uid w. wrap_exec ''account: remove group member'' (mExec M (\<lambda>T. Inr (remove_member gid uid T)) w)\<rparr>"

section \<open>Requests and responses\<close>

text \<open>
  \<open>hqValues\<close> holds the values of the wildcards, which the router fills in. \<open>Plain\<close> replies are those of
  \<^verbatim>\<open>net/http\<close> itself.
\<close>

record request =
  hqMethod :: string
  hqPath :: "string list"
  hqAuth :: string
  hqBody :: bytes
  hqValues :: "(string \<times> string) list"

datatype data = NoData | DUid int | DLogin LoginResult | DVerify VerifyResult | DGid int | DMembers "groupMemberRow list"

record envelope =
  evCode :: int
  evData :: data

datatype reply = Json int envelope | Text int

type_synonym response = "reply list"

definition writeJSON :: "int \<Rightarrow> int \<Rightarrow> data \<Rightarrow> response" where
  "writeJSON status code d = [Json status \<lparr>evCode = code, evData = d\<rparr>]"

record createGroupRequest =
  cgName :: string
  cgMemberUIDs :: "int list"

text \<open>
  \<open>json.Decoder.Decode\<close> for each request type, on the bytes the limited reader delivers and whether it
  then fails for the size.
\<close>

record json_in =
  jiRegister :: "bytes \<Rightarrow> bool \<Rightarrow> RegisterRequest result"
  jiLogin :: "bytes \<Rightarrow> bool \<Rightarrow> LoginRequest result"
  jiVerify :: "bytes \<Rightarrow> bool \<Rightarrow> string result"
  jiCreate :: "bytes \<Rightarrow> bool \<Rightarrow> createGroupRequest result"
  jiAdd :: "bytes \<Rightarrow> bool \<Rightarrow> int result"

record 'w GroupService =
  grStore :: "'w GroupStore"
  grProducer :: "'w Producer option"

definition NewGroupService :: "'w GroupStore \<Rightarrow> 'w Producer option \<Rightarrow> 'w GroupService" where
  "NewGroupService store producer = \<lparr>grStore = store, grProducer = producer\<rparr>"

record 'w Handler =
  haSvc :: "'w Service"
  haGroups :: "'w GroupService option"
  haJson :: json_in

definition NewHandler :: "'w Service \<Rightarrow> 'w GroupService option \<Rightarrow> json_in \<Rightarrow> 'w Handler" where
  "NewHandler svc groups j = \<lparr>haSvc = svc, haGroups = groups, haJson = j\<rparr>"

type_synonym 'w hfun = "request \<Rightarrow> 'w acct \<Rightarrow> response outcome \<times> 'w acct"

definition maxRequestBody :: nat where "maxRequestBody = 2 ^ 20"

definition decodeBody :: "(bytes \<Rightarrow> bool \<Rightarrow> 'a result) \<Rightarrow> request \<Rightarrow> response + 'a" where
  "decodeBody dec r =
     (case dec (take maxRequestBody (hqBody r)) (length (hqBody r) > maxRequestBody) of
        Inl e \<Rightarrow> Inl (writeJSON 400 AccountBadParam NoData)
      | Inr v \<Rightarrow> Inr v)"

definition writeBizError :: "aerror \<Rightarrow> response" where
  "writeBizError err =
     (let code = (case err of BizError c \<Rightarrow> c | Plain e \<Rightarrow> CodeStorageError);
          status = (if 40100 \<le> code \<and> code < 40200 then 401
                    else if 40200 \<le> code \<and> code < 40300 then 400
                    else if 50200 \<le> code \<and> code < 50300 then 503
                    else 500)
      in writeJSON status code NoData)"

section \<open>Account handlers\<close>

definition handleRegister :: "'w Handler \<Rightarrow> 'w hfun" where
  "handleRegister h r s =
     (case decodeBody (jiRegister (haJson h)) r of
        Inl resp \<Rightarrow> (Ret resp, s)
      | Inr req \<Rightarrow>
          (case Register (haSvc h) req s of
             (Ret (Inl err), s1) \<Rightarrow> (Ret (writeBizError err), s1)
           | (Ret (Inr uid), s1) \<Rightarrow> (Ret (writeJSON 200 AccountOK (DUid uid)), s1)
           | (Panic, s1) \<Rightarrow> (Panic, s1)
           | (Hang, s1) \<Rightarrow> (Hang, s1)))"

definition handleLogin :: "'w Handler \<Rightarrow> 'w hfun" where
  "handleLogin h r s =
     (case decodeBody (jiLogin (haJson h)) r of
        Inl resp \<Rightarrow> (Ret resp, s)
      | Inr req \<Rightarrow>
          (case Login (haSvc h) req s of
             (Inl err, s1) \<Rightarrow> (Ret (writeBizError err), s1)
           | (Inr res, s1) \<Rightarrow> (Ret (writeJSON 200 AccountOK (DLogin res)), s1)))"

definition handleVerify :: "'w Handler \<Rightarrow> 'w hfun" where
  "handleVerify h r s =
     (case decodeBody (jiVerify (haJson h)) r of
        Inl resp \<Rightarrow> (Ret resp, s)
      | Inr token \<Rightarrow>
          (case Verify (haSvc h) token s of
             ((res, None), s1) \<Rightarrow> (Ret (writeJSON 200 AccountOK (DVerify res)), s1)
           | ((res, Some err), s1) \<Rightarrow>
               if err = BizError CodeUnauthorized then (Ret (writeJSON 200 CodeUnauthorized (DVerify res)), s1)
               else (Ret (writeBizError err), s1)))"

section \<open>Group handlers\<close>

definition bearerToken :: "request \<Rightarrow> string" where
  "bearerToken r =
     (let h = hqAuth r in if length h > 7 \<and> EqualFold (take 7 h) ''Bearer '' then drop 7 h else [])"

definition jwtAuth :: "'w Handler \<Rightarrow> (int \<Rightarrow> 'w hfun) \<Rightarrow> 'w hfun" where
  "jwtAuth h nxt r s =
     (let token = bearerToken r in
      if token = [] then (Ret (writeJSON 401 CodeUnauthorized NoData), s)
      else case Parse (haSvc h) token s of
        (Inl e, s1) \<Rightarrow> (Ret (writeJSON 401 CodeUnauthorized NoData), s1)
      | (Inr claims, s1) \<Rightarrow>
          if clType claims \<noteq> TokenTypeAccess then (Ret (writeJSON 401 CodeUnauthorized NoData), s1)
          else case ask (tcGetDigest (seCache (haSvc h)) (clUID claims)) s1 of
            (Inl e, s2) \<Rightarrow> nxt (clUID claims) r s2
          | (Inr cached, s2) \<Rightarrow>
              if cached \<noteq> [] \<and> cached \<noteq> Digest token then (Ret (writeJSON 401 CodeUnauthorized NoData), s2)
              else nxt (clUID claims) r s2)"

definition pathID :: "request \<Rightarrow> string \<Rightarrow> response + int" where
  "pathID r name =
     (case parse_int (case map_of (hqValues r) name of None \<Rightarrow> [] | Some v \<Rightarrow> v) of
        Inl e \<Rightarrow> Inl (writeJSON 400 AccountBadParam NoData)
      | Inr i \<Rightarrow> if i \<le> 0 then Inl (writeJSON 400 AccountBadParam NoData) else Inr i)"

definition writeGroupErr :: "error \<Rightarrow> response" where
  "writeGroupErr e =
     (if e = ErrNoRows then writeJSON 404 CodeGroupNotFound NoData else writeJSON 500 CodeStorageError NoData)"

definition emitGroupEvent :: "'w GroupService \<Rightarrow> string \<Rightarrow> int \<Rightarrow> int \<Rightarrow> 'w acct \<Rightarrow> 'w acct" where
  "emitGroupEvent G event gid uid s =
     (case grProducer G of None \<Rightarrow> s | Some send \<Rightarrow> s\<lparr>acEvents := acEvents s @ [(event, gid, uid)]\<rparr>)"

text \<open>\<open>json.Marshal\<close> of the event's map, whose keys it sorts; and what the goroutine sends.\<close>

definition quote :: "string \<Rightarrow> string" where
  "quote s = [CHR 0x22] @ s @ [CHR 0x22]"

definition event_json :: "gevent \<Rightarrow> string" where
  "event_json = (\<lambda>(event, gid, uid).
     ''{'' @ quote ''event'' @ '':'' @ quote event @ '','' @ quote ''gid'' @ '':'' @ format_int gid @ '','' @
     quote ''uid'' @ '':'' @ format_int uid @ ''}'')"

definition run_event :: "'w GroupService \<Rightarrow> gevent \<Rightarrow> 'w \<Rightarrow> 'w" where
  "run_event G ev w =
     (case grProducer G of
        None \<Rightarrow> w
      | Some send \<Rightarrow> (case ev of (event, gid, uid) \<Rightarrow>
          snd (send ''group.event'' (bytes_of (format_int gid)) (bytes_of (event_json ev)) [[(''event'', event)]] w)))"

text \<open>\<open>strings.TrimSpace\<close> on UTF-8: the encodings of the Unicode spaces.\<close>

definition unicode_spaces :: "nat list list" where
  "unicode_spaces = map (\<lambda>n. [n]) [9, 10, 11, 12, 13, 32] @ [[194, 133], [194, 160], [225, 154, 128]] @
     map (\<lambda>n. [226, 128, n]) [128, 129, 130, 131, 132, 133, 134, 135, 136, 137, 138, 168, 169, 175] @
     [[226, 129, 159], [227, 128, 128]]"

definition space_at :: "string \<Rightarrow> nat option" where
  "space_at s = map_option length (List.find (\<lambda>sp. take (length sp) (map of_char s) = sp) unicode_spaces)"

definition space_end :: "string \<Rightarrow> nat option" where
  "space_end s = map_option length
     (List.find (\<lambda>sp. length sp \<le> length s \<and> drop (length s - length sp) (map of_char s) = sp) unicode_spaces)"

function trim_left :: "string \<Rightarrow> string" where
  "trim_left s = (case space_at s of None \<Rightarrow> s | Some n \<Rightarrow> if n = 0 \<or> s = [] then s else trim_left (drop n s))"
  by pat_completeness auto
termination
  by (relation "measure length") auto

function trim_right :: "string \<Rightarrow> string" where
  "trim_right s = (case space_end s of None \<Rightarrow> s | Some n \<Rightarrow> if n = 0 \<or> s = [] then s else trim_right (take (length s - n) s))"
  by pat_completeness auto
termination
  by (relation "measure length") auto

definition TrimSpace :: "string \<Rightarrow> string" where
  "TrimSpace s = trim_right (trim_left s)"

fun dedup_members :: "int list \<Rightarrow> int list \<Rightarrow> int list" where
  "dedup_members seen [] = []"
| "dedup_members seen (m # ms) =
     (if m \<le> 0 \<or> m \<in> set seen then dedup_members seen ms else m # dedup_members (m # seen) ms)"

definition handleCreateGroup :: "'w Handler \<Rightarrow> int \<Rightarrow> 'w hfun" where
  "handleCreateGroup h uid r s =
     (case decodeBody (jiCreate (haJson h)) r of
        Inl resp \<Rightarrow> (Ret resp, s)
      | Inr req \<Rightarrow>
          (let name = TrimSpace (cgName req) in
           if length name < 1 \<or> length name > 64 then (Ret (writeJSON 400 CodeGroupNameBad NoData), s)
           else let members = dedup_members [uid] (cgMemberUIDs req) in
           if int (length members) + 1 > groupMaxMembers then (Ret (writeJSON 400 CodeGroupFull NoData), s)
           else case haGroups h of
             None \<Rightarrow> (Panic, s)
           | Some G \<Rightarrow>
               (case Next (seNow (haSvc h)) (acNode s) (acWorld s) of
                  None \<Rightarrow> (Hang, s)
                | Some (gid, n, w) \<Rightarrow>
                    (let (_, s1) = ask (seNow (haSvc h)) (s\<lparr>acNode := n, acWorld := w\<rparr>);
                         rows = \<lparr>mrUID = uid, mrRole = roleOwner\<rparr> # map (\<lambda>m. \<lparr>mrUID = m, mrRole = roleMember\<rparr>) members
                     in case ask (gsCreateGroup (grStore G) gid name uid rows) s1 of
                          (Inl e, s2) \<Rightarrow> (Ret (writeBizError (wrapStorage e)), s2)
                        | (Inr _, s2) \<Rightarrow>
                            (Ret (writeJSON 200 AccountOK (DGid gid)), fold (emitGroupEvent G ''join'' gid) members s2)))))"

definition handleListMembers :: "'w Handler \<Rightarrow> int \<Rightarrow> 'w hfun" where
  "handleListMembers h uid r s =
     (case pathID r ''gid'' of
        Inl resp \<Rightarrow> (Ret resp, s)
      | Inr gid \<Rightarrow>
          (case haGroups h of
             None \<Rightarrow> (Panic, s)
           | Some G \<Rightarrow>
               (case ask (gsGetGroup (grStore G) gid) s of
                  (Inl e, s1) \<Rightarrow> (Ret (writeGroupErr e), s1)
                | (Inr _, s1) \<Rightarrow>
                    (case ask (gsListMembers (grStore G) gid) s1 of
                       (Inl e, s2) \<Rightarrow> (Ret (writeBizError (wrapStorage e)), s2)
                     | (Inr members, s2) \<Rightarrow> (Ret (writeJSON 200 AccountOK (DMembers members)), s2)))))"

definition handleAddMember :: "'w Handler \<Rightarrow> int \<Rightarrow> 'w hfun" where
  "handleAddMember h uid r s =
     (case pathID r ''gid'' of
        Inl resp \<Rightarrow> (Ret resp, s)
      | Inr gid \<Rightarrow>
          (case decodeBody (jiAdd (haJson h)) r of
             Inl resp \<Rightarrow> (Ret (resp @ writeJSON 400 AccountBadParam NoData), s)
           | Inr target \<Rightarrow>
               if target \<le> 0 then (Ret (writeJSON 400 AccountBadParam NoData), s)
               else case haGroups h of
                 None \<Rightarrow> (Panic, s)
               | Some G \<Rightarrow>
                   (case ask (gsGetGroup (grStore G) gid) s of
                      (Inl e, s1) \<Rightarrow> (Ret (writeGroupErr e), s1)
                    | (Inr _, s1) \<Rightarrow>
                        (case ask (gsMemberRole (grStore G) gid uid) s1 of
                           (Inl e, s2) \<Rightarrow> (Ret (writeBizError (wrapStorage e)), s2)
                         | (Inr role, s2) \<Rightarrow>
                             if role < roleAdmin then (Ret (writeJSON 403 CodeGroupForbidden NoData), s2)
                             else case ask (gsAddMember (grStore G) gid target) s2 of
                               (Inl e, s3) \<Rightarrow> (Ret (writeBizError (wrapStorage e)), s3)
                             | (Inr _, s3) \<Rightarrow>
                                 (Ret (writeJSON 200 AccountOK NoData), emitGroupEvent G ''join'' gid target s3)))))"

definition handleRemoveMember :: "'w Handler \<Rightarrow> int \<Rightarrow> 'w hfun" where
  "handleRemoveMember h uid r s =
     (case pathID r ''gid'' of
        Inl resp \<Rightarrow> (Ret resp, s)
      | Inr gid \<Rightarrow>
          (case pathID r ''uid'' of
             Inl resp \<Rightarrow> (Ret resp, s)
           | Inr target \<Rightarrow>
               (case haGroups h of
                  None \<Rightarrow> (Panic, s)
                | Some G \<Rightarrow>
                    (case ask (gsMemberRole (grStore G) gid uid) s of
                       (Inl e, s1) \<Rightarrow> (Ret (writeBizError (wrapStorage e)), s1)
                     | (Inr role, s1) \<Rightarrow>
                         if role < roleAdmin \<and> uid \<noteq> target then (Ret (writeJSON 403 CodeGroupForbidden NoData), s1)
                         else case ask (gsRemoveMember (grStore G) gid target) s1 of
                           (Inl e, s2) \<Rightarrow> (Ret (writeBizError (wrapStorage e)), s2)
                         | (Inr _, s2) \<Rightarrow>
                             (Ret (writeJSON 200 AccountOK NoData),
                              emitGroupEvent G (if uid = target then ''quit'' else ''leave'') gid target s2)))))"

section \<open>Routing\<close>

text \<open>A segment \<open>{x}\<close> of a pattern matches any one non-empty segment of the path and names it.\<close>

fun match_path :: "string list \<Rightarrow> string list \<Rightarrow> (string \<times> string) list option" where
  "match_path [] [] = Some []"
| "match_path (p # ps) (x # xs) =
     (if p \<noteq> [] \<and> hd p = CHR ''{'' then
        (if x = [] then None else map_option ((#) (butlast (tl p), x)) (match_path ps xs))
      else if p = x then match_path ps xs else None)"
| "match_path _ _ = None"

definition NewRouter :: "'w Handler \<Rightarrow> (string \<times> string list \<times> 'w hfun) list" where
  "NewRouter h =
    [(''POST'', [''api'', ''v1'', ''register''], handleRegister h),
     (''POST'', [''api'', ''v1'', ''login''], handleLogin h),
     (''POST'', [''internal'', ''v1'', ''verify''], handleVerify h),
     (''POST'', [''api'', ''v1'', ''groups''], jwtAuth h (handleCreateGroup h)),
     (''GET'', [''api'', ''v1'', ''groups'', ''{gid}'', ''members''], jwtAuth h (handleListMembers h)),
     (''POST'', [''api'', ''v1'', ''groups'', ''{gid}'', ''members''], jwtAuth h (handleAddMember h)),
     (''DELETE'', [''api'', ''v1'', ''groups'', ''{gid}'', ''members'', ''{uid}''], jwtAuth h (handleRemoveMember h))]"

text \<open>The mux: GET patterns also serve HEAD; a known path with another method is 405, any other 404.\<close>

fun mux_serve :: "(string \<times> string list \<times> 'w hfun) list \<Rightarrow> bool \<Rightarrow> 'w hfun" where
  "mux_serve [] known r s = (Ret [Text (if known then 405 else 404)], s)"
| "mux_serve ((m, p, f) # routes) known r s =
     (case match_path p (hqPath r) of
        None \<Rightarrow> mux_serve routes known r s
      | Some vs \<Rightarrow>
          if hqMethod r = m \<or> m = ''GET'' \<and> hqMethod r = ''HEAD'' then f (r\<lparr>hqValues := vs\<rparr>) s
          else mux_serve routes True r s)"

definition recoverMiddleware :: "'w hfun \<Rightarrow> 'w hfun" where
  "recoverMiddleware nxt r s =
     (case nxt r s of
        (Panic, s1) \<Rightarrow> (Ret (writeJSON 500 CodeStorageError NoData), s1)
      | res \<Rightarrow> res)"

definition serve :: "'w Handler \<Rightarrow> 'w hfun" where
  "serve h = recoverMiddleware (mux_serve (NewRouter h) False)"

end
