(* ===== verification/Startup.thy ===== *)
theory Startup
  imports AccountHttp
begin

text \<open>
  What the processes do before they serve: \<open>conf.Load\<close> of \<^verbatim>\<open>pkg/conf\<close> with its structs and defaults, the
  connection loop of \<^verbatim>\<open>pkg/mysqlx\<close>, the options of \<^verbatim>\<open>pkg/redisx\<close> and the choices of \<^verbatim>\<open>pkg/logx\<close>. The
  packages viper, sqlx and zap are parameters; what viper documents of precedence is the locale
  \<open>viper_laws\<close>. Shown: every field of the configuration has a default, so each can be set from the
  environment, the file or neither; connecting tries at most five times.
\<close>

section \<open>Structs\<close>

text \<open>Durations are nanoseconds.\<close>

record ServerConfig =
  gsName :: string
  gsHTTPPort :: int
  gsGRPCPort :: int
  gsWSPort :: int
  gsNodeID :: int
  gsAdvertiseAddr :: string
  gsMetricsPort :: int

record MySQLConfig =
  gmDSN :: string
  gmMaxOpenConns :: int
  gmMaxIdleConns :: int
  gmConnMaxLifetime :: int

record RedisConfig =
  grAddr :: string
  grPassword :: string
  grDB :: int

record KafkaConfig =
  gkBrokers :: "string list"
  gkClientID :: string

record LogConfig =
  glLevel :: string
  glFormat :: string

record JWTConfig =
  gjSecret :: string
  gjAccessTTL :: int
  gjRefreshTTL :: int

record AccountConfig =
  gaAddr :: string
  gaVerifyTimeout :: int

record LogicConfig =
  goAddr :: string
  goCallTimeout :: int

record ConsumerConfig =
  gcPushGroup :: string
  gcStoreGroup :: string
  gcMinBytes :: int
  gcMaxBytes :: int
  gcReadBackoffMax :: int

record Config =
  cServer :: ServerConfig
  cMySQL :: MySQLConfig
  cRedis :: RedisConfig
  cKafka :: KafkaConfig
  cLog :: LogConfig
  cJWT :: JWTConfig
  cAccount :: AccountConfig
  cLogic :: LogicConfig
  cConsumer :: ConsumerConfig

section \<open>Loading\<close>

datatype setting = Str string | Num int | Strs "string list"

definition Second :: int where "Second = 1000000000"
definition Minute :: int where "Minute = 60 * Second"
definition Hour :: int where "Hour = 60 * Minute"

definition setDefaults :: "(string \<times> setting) list" where
  "setDefaults =
    [(''server.name'', Str ''''), (''server.http_port'', Num 0), (''server.grpc_port'', Num 0), (''server.ws_port'', Num 0),
     (''server.node_id'', Num 0), (''server.advertise_addr'', Str ''''), (''server.metrics_port'', Num 0),
     (''mysql.dsn'', Str ''''), (''mysql.max_open_conns'', Num 64), (''mysql.max_idle_conns'', Num 16),
     (''mysql.conn_max_lifetime'', Num (5 * Minute)),
     (''redis.addr'', Str ''127.0.0.1:16379''), (''redis.password'', Str ''''), (''redis.db'', Num 0),
     (''kafka.brokers'', Strs [''127.0.0.1:9092'']), (''kafka.client_id'', Str ''''),
     (''log.level'', Str ''info''), (''log.format'', Str ''console''),
     (''jwt.secret'', Str ''''), (''jwt.access_ttl'', Num (2 * Hour)), (''jwt.refresh_ttl'', Num (720 * Hour)),
     (''account.addr'', Str ''http://127.0.0.1:8080''), (''account.verify_timeout'', Num Second),
     (''logic.addr'', Str ''127.0.0.1:9001''), (''logic.call_timeout'', Num (2 * Second)),
     (''consumer.push_group'', Str ''job-push''), (''consumer.store_group'', Str ''job-store''),
     (''consumer.min_bytes'', Num 1), (''consumer.max_bytes'', Num (2 ^ 20)), (''consumer.read_backoff_max'', Num (2 * Second))]"

text \<open>The fields of the structs under the keys of their \<open>mapstructure\<close> tags.\<close>

definition config_fields :: "Config \<Rightarrow> (string \<times> setting) list" where
  "config_fields c =
    [(''server.name'', Str (gsName (cServer c))), (''server.http_port'', Num (gsHTTPPort (cServer c))),
     (''server.grpc_port'', Num (gsGRPCPort (cServer c))), (''server.ws_port'', Num (gsWSPort (cServer c))),
     (''server.node_id'', Num (gsNodeID (cServer c))), (''server.advertise_addr'', Str (gsAdvertiseAddr (cServer c))),
     (''server.metrics_port'', Num (gsMetricsPort (cServer c))),
     (''mysql.dsn'', Str (gmDSN (cMySQL c))), (''mysql.max_open_conns'', Num (gmMaxOpenConns (cMySQL c))),
     (''mysql.max_idle_conns'', Num (gmMaxIdleConns (cMySQL c))), (''mysql.conn_max_lifetime'', Num (gmConnMaxLifetime (cMySQL c))),
     (''redis.addr'', Str (grAddr (cRedis c))), (''redis.password'', Str (grPassword (cRedis c))), (''redis.db'', Num (grDB (cRedis c))),
     (''kafka.brokers'', Strs (gkBrokers (cKafka c))), (''kafka.client_id'', Str (gkClientID (cKafka c))),
     (''log.level'', Str (glLevel (cLog c))), (''log.format'', Str (glFormat (cLog c))),
     (''jwt.secret'', Str (gjSecret (cJWT c))), (''jwt.access_ttl'', Num (gjAccessTTL (cJWT c))),
     (''jwt.refresh_ttl'', Num (gjRefreshTTL (cJWT c))),
     (''account.addr'', Str (gaAddr (cAccount c))), (''account.verify_timeout'', Num (gaVerifyTimeout (cAccount c))),
     (''logic.addr'', Str (goAddr (cLogic c))), (''logic.call_timeout'', Num (goCallTimeout (cLogic c))),
     (''consumer.push_group'', Str (gcPushGroup (cConsumer c))), (''consumer.store_group'', Str (gcStoreGroup (cConsumer c))),
     (''consumer.min_bytes'', Num (gcMinBytes (cConsumer c))), (''consumer.max_bytes'', Num (gcMaxBytes (cConsumer c))),
     (''consumer.read_backoff_max'', Num (gcReadBackoffMax (cConsumer c)))]"

text \<open>
  What \<open>Load\<close> tells viper, and the two calls in which viper does something: reading the file (of some
  type \<open>'f\<close>) and filling the structs.
\<close>

record viper =
  vpFile :: string
  vpEnvPrefix :: string
  vpReplacer :: "(string \<times> string) list"
  vpAutomaticEnv :: bool
  vpDefaults :: "(string \<times> setting) list"

record 'f viper_calls =
  vcReadInConfig :: "viper \<Rightarrow> 'f result"
  vcUnmarshal :: "viper \<Rightarrow> 'f \<Rightarrow> Config result"

definition EnvPrefix :: string where "EnvPrefix = ''LINKIM''"

definition conf_viper :: "string \<Rightarrow> viper" where
  "conf_viper path = \<lparr>vpFile = path, vpEnvPrefix = EnvPrefix, vpReplacer = [(''.'', ''_'')], vpAutomaticEnv = True, vpDefaults = setDefaults\<rparr>"

definition Load :: "'f viper_calls \<Rightarrow> string \<Rightarrow> Config result" where
  "Load V path =
     (if path = [] then Inl (Err ''conf: config path is empty'')
      else case vcReadInConfig V (conf_viper path) of
        Inl e \<Rightarrow> Inl (errorf (''conf: read '' @ path) e)
      | Inr f \<Rightarrow>
          (case vcUnmarshal V (conf_viper path) f of
             Inl e \<Rightarrow> Inl (errorf (''conf: unmarshal '' @ path) e)
           | Inr cfg \<Rightarrow> Inr cfg))"

section \<open>Connecting\<close>

definition connectAttempts :: nat where "connectAttempts = 5"

text \<open>The loop of \<open>mysqlx.New\<close> from one attempt on: the last result and the number of sleeps of a second.\<close>

function connect_from :: "('w, 'd) call \<Rightarrow> nat \<Rightarrow> nat \<Rightarrow> 'w \<Rightarrow> ('d result \<times> nat) \<times> 'w" where
  "connect_from connect attempt slept w =
     (case connect w of
        (Inr db, w1) \<Rightarrow> ((Inr db, slept), w1)
      | (Inl e, w1) \<Rightarrow>
          if attempt < connectAttempts then connect_from connect (attempt + 1) (slept + 1) w1 else ((Inl e, slept), w1))"
  by pat_completeness auto
termination
  by (relation "measure (\<lambda>(c, attempt, s, w). connectAttempts - attempt)") auto

text \<open>\<open>pool\<close> is the three settings of the connection pool.\<close>

definition mysqlx_New :: "(string \<Rightarrow> ('w, 'd) call) \<Rightarrow> (int \<Rightarrow> int \<Rightarrow> int \<Rightarrow> 'd \<Rightarrow> 'd) \<Rightarrow> MySQLConfig \<Rightarrow> ('w, 'd) call" where
  "mysqlx_New connect pool cfg w =
     (case connect_from (connect (gmDSN cfg)) 1 0 w of
        ((Inl e, _), w1) \<Rightarrow> (Inl (errorf ''mysqlx: connect'' e), w1)
      | ((Inr db, _), w1) \<Rightarrow> (Inr (pool (gmMaxOpenConns cfg) (gmMaxIdleConns cfg) (gmConnMaxLifetime cfg) db), w1))"

definition redisx_New :: "(string \<Rightarrow> string \<Rightarrow> int \<Rightarrow> 'r) \<Rightarrow> RedisConfig \<Rightarrow> 'r" where
  "redisx_New client cfg = client (grAddr cfg) (grPassword cfg) (grDB cfg)"

section \<open>Logger\<close>

datatype encoder = ConsoleEncoder | JSONEncoder

text \<open>
  \<open>strings.ToLower\<close> on ASCII letters; the other letters it changes do not turn into one of the two names.
\<close>

definition lower :: "string \<Rightarrow> string" where
  "lower = map (\<lambda>c. if 65 \<le> (of_char c :: nat) \<and> of_char c \<le> (90 :: nat) then char_of (of_char c + 32 :: nat) else c)"

text \<open>\<open>UnmarshalText\<close> of zap's levels is a parameter; the logger is the level and the encoder.\<close>

definition NewWithWriter :: "(string \<Rightarrow> 'l result) \<Rightarrow> 'l \<Rightarrow> LogConfig \<Rightarrow> ('l \<times> encoder) result" where
  "NewWithWriter unmarshal info cfg =
     (case (if glLevel cfg \<noteq> [] then unmarshal (glLevel cfg) else Inr info) of
        Inl e \<Rightarrow> Inl (errorf (''logx: invalid log level '' @ glLevel cfg) e)
      | Inr level \<Rightarrow>
          (let format = lower (TrimSpace (glFormat cfg)); format = (if format = [] then ''console'' else format) in
           if format = ''console'' then Inr (level, ConsoleEncoder)
           else if format = ''json'' then Inr (level, JSONEncoder)
           else Inl (Err (''logx: unknown log format '' @ glFormat cfg))))"

section \<open>Precedence\<close>

text \<open>
  What viper documents: a key with a default takes its value from the environment variable of its
  name, else from the file, else it is the default. \<open>env\<close> is the environment, \<open>keys\<close> the keys of the file,
  \<open>dec\<close> the decoding of a text to the kind of a setting.
\<close>

definition env_name :: "viper \<Rightarrow> string \<Rightarrow> string" where
  "env_name v k = vpEnvPrefix v @ ''_'' @
     map (\<lambda>c. if 97 \<le> (of_char c :: nat) \<and> of_char c \<le> (122 :: nat) then char_of (of_char c - 32 :: nat) else c)
       (concat (map (\<lambda>c. case map_of (vpReplacer v) [c] of Some r \<Rightarrow> r | None \<Rightarrow> [c]) k))"

definition resolve ::
  "(string \<rightharpoonup> string) \<Rightarrow> ('f \<Rightarrow> string \<rightharpoonup> setting) \<Rightarrow> (setting \<Rightarrow> string \<Rightarrow> setting) \<Rightarrow> viper \<Rightarrow> 'f \<Rightarrow> string \<Rightarrow> setting \<Rightarrow> setting" where
  "resolve env keys dec v f k d =
     (case (if vpAutomaticEnv v then env (env_name v k) else None) of
        Some s \<Rightarrow> dec d s
      | None \<Rightarrow> (case keys f k of Some x \<Rightarrow> x | None \<Rightarrow> d))"

locale viper_laws =
  fixes V :: "'f viper_calls" and env :: "string \<rightharpoonup> string" and keys :: "'f \<Rightarrow> string \<rightharpoonup> setting"
    and dec :: "setting \<Rightarrow> string \<Rightarrow> setting"
  assumes unmarshal_known: "vcUnmarshal V v f = Inr cfg \<Longrightarrow> map_of (vpDefaults v) k = Some d \<Longrightarrow>
    map_of (config_fields cfg) k = Some x \<Longrightarrow> x = resolve env keys dec v f k d"
begin

lemma Load_resolves:
  assumes "Load V path = Inr cfg" and "map_of setDefaults k = Some d" and "map_of (config_fields cfg) k = Some x"
  shows "\<exists>f. vcReadInConfig V (conf_viper path) = Inr f \<and> x = resolve env keys dec (conf_viper path) f k d"
  using assms unmarshal_known [of "conf_viper path" _ cfg k d x]
  by (auto simp: Load_def conf_viper_def split: if_splits sum.splits)

end

lemma config_keys: "map fst (config_fields cfg) = map fst setDefaults"
  by (simp add: config_fields_def setDefaults_def)

lemma config_keys_distinct: "distinct (map fst setDefaults)"
  by (simp add: setDefaults_def)

lemma env_name_example: "env_name (conf_viper p) ''server.http_port'' = ''LINKIM_SERVER_HTTP_PORT''"
  by code_simp

text \<open>
  Loading. Every field of the configuration has a default under its key, so none is unknown to viper: in
  a loaded configuration each field is the value of its environment variable, else of the file, else
  its default. A loaded configuration comes from a readable file with a name.
\<close>

theorem config_loaded:
  assumes "viper_laws V env keys dec" and "Load V path = Inr cfg"
  shows "\<exists>f. path \<noteq> [] \<and> vcReadInConfig V (conf_viper path) = Inr f \<and>
    (\<forall>(k, x) \<in> set (config_fields cfg). \<exists>d. (k, d) \<in> set setDefaults \<and> x = resolve env keys dec (conf_viper path) f k d)"
proof -
  obtain f where f: "path \<noteq> []" "vcReadInConfig V (conf_viper path) = Inr f"
    using assms(2) by (auto simp: Load_def split: if_splits sum.splits)
  have "\<exists>d. (k, d) \<in> set setDefaults \<and> x = resolve env keys dec (conf_viper path) f k d" if "(k, x) \<in> set (config_fields cfg)" for k x
  proof -
    have x: "map_of (config_fields cfg) k = Some x"
      using that config_keys_distinct by (simp add: map_of_eq_Some_iff config_keys)
    have "k \<in> fst ` set (config_fields cfg)" using that by force
    then have "k \<in> set (map fst setDefaults)" using config_keys [of cfg] by (metis set_map)
    then obtain d where d: "map_of setDefaults k = Some d" by (metis map_of_eq_None_iff not_None_eq set_map)
    from viper_laws.Load_resolves [OF assms d x] f(2) show ?thesis using map_of_SomeD [OF d] by auto
  qed
  with f show ?thesis by blast
qed

text \<open>An executable viper for any environment, with one key in the file.\<close>

fun demo_dec :: "setting \<Rightarrow> string \<Rightarrow> setting" where
  "demo_dec (Num n) s = Num (case parse_int s of Inr i \<Rightarrow> i | Inl e \<Rightarrow> n)"
| "demo_dec (Str t) s = Str s"
| "demo_dec (Strs ts) s = Strs [s]"

definition demo_config :: "(string \<Rightarrow> setting) \<Rightarrow> Config" where
  "demo_config val =
     (let s = \<lambda>k. case val k of Str v \<Rightarrow> v | _ \<Rightarrow> []; n = \<lambda>k. case val k of Num v \<Rightarrow> v | _ \<Rightarrow> 0; l = \<lambda>k. case val k of Strs v \<Rightarrow> v | _ \<Rightarrow> []
      in \<lparr>cServer = \<lparr>gsName = s ''server.name'', gsHTTPPort = n ''server.http_port'', gsGRPCPort = n ''server.grpc_port'',
             gsWSPort = n ''server.ws_port'', gsNodeID = n ''server.node_id'', gsAdvertiseAddr = s ''server.advertise_addr'',
             gsMetricsPort = n ''server.metrics_port''\<rparr>,
          cMySQL = \<lparr>gmDSN = s ''mysql.dsn'', gmMaxOpenConns = n ''mysql.max_open_conns'', gmMaxIdleConns = n ''mysql.max_idle_conns'',
             gmConnMaxLifetime = n ''mysql.conn_max_lifetime''\<rparr>,
          cRedis = \<lparr>grAddr = s ''redis.addr'', grPassword = s ''redis.password'', grDB = n ''redis.db''\<rparr>,
          cKafka = \<lparr>gkBrokers = l ''kafka.brokers'', gkClientID = s ''kafka.client_id''\<rparr>,
          cLog = \<lparr>glLevel = s ''log.level'', glFormat = s ''log.format''\<rparr>,
          cJWT = \<lparr>gjSecret = s ''jwt.secret'', gjAccessTTL = n ''jwt.access_ttl'', gjRefreshTTL = n ''jwt.refresh_ttl''\<rparr>,
          cAccount = \<lparr>gaAddr = s ''account.addr'', gaVerifyTimeout = n ''account.verify_timeout''\<rparr>,
          cLogic = \<lparr>goAddr = s ''logic.addr'', goCallTimeout = n ''logic.call_timeout''\<rparr>,
          cConsumer = \<lparr>gcPushGroup = s ''consumer.push_group'', gcStoreGroup = s ''consumer.store_group'',
             gcMinBytes = n ''consumer.min_bytes'', gcMaxBytes = n ''consumer.max_bytes'',
             gcReadBackoffMax = n ''consumer.read_backoff_max''\<rparr>\<rparr>)"

definition demo_value :: "(string \<rightharpoonup> string) \<Rightarrow> viper \<Rightarrow> (string \<times> setting) list \<Rightarrow> string \<Rightarrow> setting" where
  "demo_value env v f k = (case map_of (vpDefaults v) k of Some d \<Rightarrow> resolve env map_of demo_dec v f k d | None \<Rightarrow> Num 0)"

definition demo_viper :: "(string \<rightharpoonup> string) \<Rightarrow> (string \<times> setting) list viper_calls" where
  "demo_viper env =
     \<lparr>vcReadInConfig = \<lambda>v. Inr [(''redis.db'', Num 3)],
      vcUnmarshal = \<lambda>v f. let cfg = demo_config (demo_value env v f) in
        if \<forall>(k, x) \<in> set (config_fields cfg). x = demo_value env v f k then Inr cfg else Inl (Err ''type mismatch'')\<rparr>"

interpretation demov: viper_laws "demo_viper env" env map_of demo_dec for env
proof unfold_locales
  fix v f cfg k d x
  assume u: "vcUnmarshal (demo_viper env) v f = Inr cfg" and d: "map_of (vpDefaults v) k = Some d" and x: "map_of (config_fields cfg) k = Some x"
  from u have "\<forall>(k, x) \<in> set (config_fields cfg). x = demo_value env v f k" by (auto simp: demo_viper_def Let_def split: if_splits)
  with map_of_SomeD [OF x] d show "x = resolve env map_of demo_dec v f k d" by (auto simp: demo_value_def)
qed

lemma demo_loads:
  "\<exists>cfg. Load (demo_viper (\<lambda>_. None)) ''c.yaml'' = Inr cfg \<and> grDB (cRedis cfg) = 3 \<and> gjAccessTTL (cJWT cfg) = 2 * Hour"
proof -
  define val where "val = demo_value (\<lambda>_. None) (conf_viper ''c.yaml'') [(''redis.db'', Num 3)]"
  have "\<forall>(k, d) \<in> set setDefaults. val k = (if k = ''redis.db'' then Num 3 else d)"
    using config_keys_distinct by (auto simp: val_def demo_value_def resolve_def conf_viper_def)
  note facts = this [unfolded setDefaults_def, simplified]
  have "\<forall>(k, x) \<in> set (config_fields (demo_config val)). x = val k"
    unfolding config_fields_def demo_config_def Let_def by (simp add: facts)
  then have "Load (demo_viper (\<lambda>_. None)) ''c.yaml'' = Inr (demo_config val)" by (simp add: Load_def demo_viper_def val_def Let_def)
  moreover have "grDB (cRedis (demo_config val)) = 3" "gjAccessTTL (cJWT (demo_config val)) = 2 * Hour"
    unfolding demo_config_def Let_def by (simp_all add: facts)
  ultimately show ?thesis by blast
qed

text \<open>Connecting to MySQL tries at most five times, with a pause between two tries and none after the last.\<close>

theorem connect_bounded:
  assumes "connect_from connect attempt slept w = ((r, slept'), w')" and "attempt \<le> connectAttempts"
  shows "slept \<le> slept' \<and> slept' \<le> slept + (connectAttempts - attempt) \<and> (isl r \<longrightarrow> slept' = slept + (connectAttempts - attempt))"
  using assms
proof (induction connect attempt slept w rule: connect_from.induct)
  case (1 connect attempt slept w)
  obtain r1 w1 where c: "connect w = (r1, w1)" by (cases "connect w")
  show ?case
  proof (cases "isl r1 \<and> attempt < connectAttempts")
    case True
    then obtain e where e: "r1 = Inl e" by (cases r1) auto
    with True 1(2) c have "connect_from connect (attempt + 1) (slept + 1) w1 = ((r, slept'), w')" by simp
    from 1(1) [OF c [symmetric] e _ this] True show ?thesis by auto
  next
    case False
    with 1(2,3) c show ?thesis by (cases r1) (auto split: if_splits)
  qed
qed

theorem connect_bounded_run:
  "connect_from (\<lambda>w. (Inl (Err ''refused''), w + 1)) 1 0 (0 :: nat) = ((Inl (Err ''refused'') :: unit result, 4), 5)"
  by code_simp

end
