(* ===== verification/LogicRpc.thy ===== *)
theory LogicRpc
  imports SendMsg
begin

text \<open>
  The gRPC surface of the logic server around its handlers: \<open>SendMsg\<close> of \<^verbatim>\<open>internal/logic/sendmsg.go\<close> and
  the interceptor of \<^verbatim>\<open>internal/logic/server.go\<close>, which turns a panic into an internal error. Shown: every
  send is answered; the one panic of the handler reaches the client as an error although the message
  was stored.
\<close>

section \<open>Operations\<close>

definition err_internal :: error where
  "err_internal = Err ''internal error''"

text \<open>A unary handler with a state \<open>'s\<close>; the access log is left out.\<close>

definition UnaryInterceptor :: "('q \<Rightarrow> 's \<Rightarrow> 'a result outcome \<times> 's) \<Rightarrow> 'q \<Rightarrow> 's \<Rightarrow> 'a result outcome \<times> 's" where
  "UnaryInterceptor handler req s =
     (case handler req s of
        (Panic, s1) \<Rightarrow> (Ret (Inl err_internal), s1)
      | (Hang, s1) \<Rightarrow> (Hang, s1)
      | (Ret r, s1) \<Rightarrow> (Ret r, s1))"

text \<open>\<open>Server.SendMsg\<close>, with the metrics left out: the error of \<open>sendMsg\<close> is always nil.\<close>

definition rpc_SendMsg ::
  "'w Server \<Rightarrow> codec \<Rightarrow> SendMsgReq \<Rightarrow> Node \<times> 'w \<Rightarrow> SendMsgAck result outcome \<times> Node \<times> 'w" where
  "rpc_SendMsg S C req = (\<lambda>(n, w).
     case sendMsg S C req n w of
       (Ret ack, s) \<Rightarrow> (Ret (Inr ack), s)
     | (Panic, s) \<Rightarrow> (Panic, s)
     | (Hang, s) \<Rightarrow> (Hang, s))"

definition serve_SendMsg ::
  "'w Server \<Rightarrow> codec \<Rightarrow> SendMsgReq \<Rightarrow> Node \<times> 'w \<Rightarrow> SendMsgAck result outcome \<times> Node \<times> 'w" where
  "serve_SendMsg S C = UnaryInterceptor (rpc_SendMsg S C)"

section \<open>Lemmas\<close>

lemma interceptor_no_panic: "fst (UnaryInterceptor h req s) \<noteq> Panic"
  by (auto simp: UnaryInterceptor_def split: prod.splits outcome.splits)

lemma serve_SendMsg_cases:
  assumes "serve_SendMsg S C req (n, w) = (r, n', w')"
  obtains (Ack) ack where "sendMsg S C req n w = (Ret ack, n', w')" "r = Ret (Inr ack)"
  | (Recovered) "sendMsg S C req n w = (Panic, n', w')" "r = Ret (Inl err_internal)"
  | (Stuck) "sendMsg S C req n w = (Hang, n', w')" "r = Hang"
  using assms by (auto simp: serve_SendMsg_def UnaryInterceptor_def rpc_SendMsg_def split: prod.splits outcome.splits)

section \<open>Properties\<close>

text \<open>
  C28: every send over gRPC is answered. With a clock that goes forward and whatever the stores answer,
  the call returns; it returns the acknowledgement of the handler, or, when that panics, an internal
  error: then the sender is the only member of the group, and the message is already on the store topic.
\<close>

theorem send_rpc_answered:
  assumes "timed_services R M P now st" and "logic_ok (st w)" and "node_ok n" and "nLastMs n \<le> sLast (st w)"
    and "serve_SendMsg (NewServer R M E P V Y now) C req (n, w) = (r, n', w')"
  shows "(\<exists>ack. r = Ret (Inr ack) \<and> sendMsg (NewServer R M E P V Y now) C req n w = (Ret ack, n', w')) \<or>
    r = Ret (Inl err_internal) \<and>
      (\<exists>conv gid i ts. normalise req = Some (conv, gid) \<and> group_view (st w) gid = {srSenderId req} \<and>
        sLog (st w') = sLog (st w) @ [store_record C req (build_msg req conv i (seq_view (st w) conv + 1) ts)])"
  using assms(5)
proof (cases rule: serve_SendMsg_cases)
  case (Ack ack)
  then show ?thesis by blast
next
  case Recovered
  with send_deps.panic_spec [OF send_deps_wired [OF assms(1)] assms(2-4) Recovered(1)] show ?thesis by blast
next
  case Stuck
  with send_deps.sendMsg_mono [OF send_deps_wired [OF assms(1)] assms(2-4) Stuck(1)] show ?thesis by blast
qed

theorem send_rpc_answered_witness:
  "\<exists>n' w' m. serve_SendMsg demo_server text_codec (demo_req ''m3'' ''g:8'' 2) (demo_node, demo_world []) = (Ret (Inl err_internal), n', w') \<and>
    sLog (mem_st w') = sLog (mem_st (demo_world [])) @ [m]"
proof -
  from demo_lonely obtain n' w' where
    "sendMsg demo_server text_codec (demo_req ''m3'' ''g:8'' 2) demo_node (demo_world []) = (Panic, n', w')" by blast
  then have s: "serve_SendMsg demo_server text_codec (demo_req ''m3'' ''g:8'' 2) (demo_node, demo_world []) = (Ret (Inl err_internal), n', w')"
    by (simp add: serve_SendMsg_def UnaryInterceptor_def rpc_SendMsg_def)
  from send_rpc_answered [OF memt.timed_services_axioms demo_ok demo_node_ok s [unfolded demo_server_def]] s show ?thesis by blast
qed

end
