(* ===== verification/LogicProcess.thy ===== *)
theory LogicProcess
  imports LogicRpc Sync
begin

text \<open>
  The server \<^verbatim>\<open>cmd/logic\<close> registers: its RPCs, each behind the interceptor. Shown: every call is answered and
  keeps what the theorems about single handlers assume (coherent caches, a valid identifier node, a clock
  reading not before the node's); \<open>Processes\<close> concludes that they apply to every call of a process.
\<close>

section \<open>Operations\<close>

datatype rpc =
    RpcVerifyToken VerifyTokenReq
  | RpcSendMsg SendMsgReq
  | RpcSyncPull SyncPullReq
  | RpcGetPendingConvs PendingReq
  | RpcMarkRead MarkReadReq
  | RpcOnlineEvent OnlineEventReq
  | RpcReportDelivered ReportDeliveredReq

datatype rpc_answer =
    AnsVerifyToken VerifyTokenResp
  | AnsSendMsg SendMsgAck
  | AnsSyncPull SyncPullResp
  | AnsPending PendingResp
  | AnsEmpty

definition logic_handler :: "'w Server \<Rightarrow> codec \<Rightarrow> rpc \<Rightarrow> Node \<times> 'w \<Rightarrow> rpc_answer result outcome \<times> Node \<times> 'w" where
  "logic_handler S C q = (\<lambda>(n, w).
     case q of
       RpcVerifyToken req \<Rightarrow> (case VerifyToken S req w of (resp, w1) \<Rightarrow> (Ret (Inr (AnsVerifyToken resp)), n, w1))
     | RpcSendMsg req \<Rightarrow>
         (case rpc_SendMsg S C req (n, w) of
            (Ret (Inr ack), s) \<Rightarrow> (Ret (Inr (AnsSendMsg ack)), s)
          | (Ret (Inl e), s) \<Rightarrow> (Ret (Inl e), s)
          | (Panic, s) \<Rightarrow> (Panic, s)
          | (Hang, s) \<Rightarrow> (Hang, s))
     | RpcSyncPull req \<Rightarrow> (case SyncPull S req w of (resp, w1) \<Rightarrow> (Ret (Inr (AnsSyncPull resp)), n, w1))
     | RpcGetPendingConvs req \<Rightarrow> (case GetPendingConvs S req w of (resp, w1) \<Rightarrow> (Ret (Inr (AnsPending resp)), n, w1))
     | RpcMarkRead req \<Rightarrow> (Ret (Inr AnsEmpty), n, MarkRead S req w)
     | RpcOnlineEvent req \<Rightarrow> (case OnlineEvent S req w of (resp, w1) \<Rightarrow> (Ret (Inr (AnsPending resp)), n, w1))
     | RpcReportDelivered req \<Rightarrow> (Ret (Inr AnsEmpty), n, ReportDelivered S req w))"

definition serve_rpc :: "'w Server \<Rightarrow> codec \<Rightarrow> rpc \<Rightarrow> Node \<times> 'w \<Rightarrow> rpc_answer result outcome \<times> Node \<times> 'w" where
  "serve_rpc S C = UnaryInterceptor (logic_handler S C)"

section \<open>What a call keeps\<close>

text \<open>Nothing that sending depends on has changed, and nothing was written to the topics.\<close>

definition harmless :: "svc \<Rightarrow> svc \<Rightarrow> bool" where
  "harmless s s' \<longleftrightarrow> (logic_ok s \<longrightarrow> logic_ok s') \<and> sLog s' = sLog s \<and> sLast s' = sLast s \<and> friend_view s' = friend_view s \<and>
     group_view s' = group_view s \<and> idem_view s' = idem_view s \<and> seq_view s' = seq_view s"

lemma harmless_refl [simp, intro]: "harmless s s"
  by (simp add: harmless_def)

lemma harmless_trans [trans]: "harmless s s' \<Longrightarrow> harmless s' s'' \<Longrightarrow> harmless s s''"
  by (simp add: harmless_def)

lemma harmless_keys:
  assumes "sTabs s' = sTabs s" and "sLog s' = sLog s" and "sLast s' = sLast s"
    and "\<And>k. family_of k \<in> {Some KSeq, Some KIdem, Some KFriend, Some KMembers} \<Longrightarrow> sKeys s' k = sKeys s k"
  shows "harmless s s'"
proof -
  have k: "sKeys s' (IdemKey u m) = sKeys s (IdemKey u m)" "sKeys s' (SeqKey c) = sKeys s (SeqKey c)"
      "sKeys s' (FriendKey u) = sKeys s (FriendKey u)" "sKeys s' (ConvMembersKey g) = sKeys s (ConvMembersKey g)" for u m c g
    by (rule assms(4), simp)+
  have "logic_ok s'" if "logic_ok s"
    using that k by (intro logic_ok_frame [OF that assms(1)]) (simp_all add: logic_ok_def idem_strings_def)
  with assms(2,3) show ?thesis
    using view_frame(1,2) [OF assms(1)] view_frame(3) [OF k(1)] view_frame(5) [OF k(2)] by (simp add: harmless_def)
qed

lemma harmless_tables:
  assumes "s' = s\<lparr>sTabs := T\<rparr>" and "tFriend T = tFriend (sTabs s)" and "tMember T = tMember (sTabs s)"
  shows "harmless s s'"
  using assms by (auto simp: harmless_def logic_ok_def friends_coherent_def members_coherent_def members_wf_def idem_strings_def
      friend_view_def group_view_def idem_view_def seq_view_def select_friends_def select_members_def fun_eq_iff)

lemma family_TokenCacheKey: "family_of (TokenCacheKey u t) = None"
  by (simp add: TokenCacheKey_def family_of_def)

context services
begin

lemma harmless_write:
  assumes "wrote_key st w res w' k post" and "family_of k \<notin> {Some KSeq, Some KIdem, Some KFriend, Some KMembers}"
  shows "harmless (st w) (st w')"
  using wrote_key_other [OF assms(1)] assms(2) by (intro harmless_keys) auto

lemma harmless_write_after: "st w1 = st w \<Longrightarrow> wrote_key st w1 res w' k post \<Longrightarrow>
    family_of k \<notin> {Some KSeq, Some KIdem, Some KFriend, Some KMembers} \<Longrightarrow> harmless (st w) (st w')"
  using harmless_write [of w1 res w' k post] by simp

lemma VerifyToken_harmless:
  assumes "\<And>u t w r w'. V u t w = (r, w') \<Longrightarrow> st w' = st w" and "VerifyToken (NewServer R M E P V Y now) req w = (resp, w')"
  shows "harmless (st w) (st w')"
proof -
  let ?S = "NewServer R M E P V Y now"
  have c: "vCache ?S = redisCache R" "vVerifier ?S = V" by (simp_all add: NewServer_def)
  have origin: "harmless (st w) (st w')" if "verify_origin ?S u t w = (x, w')" for u t x w w'
    using that unfolding verify_origin_def c
    by (auto simp: redisCache_def Let_def family_TokenCacheKey dest!: assms(1) Set intro: harmless_write_after split: sum.splits prod.splits)
  have get: "st w' = st w" if "redis_get R k w = (x, w')" for k x w w'
    using that by (auto simp: redis_get_def dest!: Get split: sum.splits if_splits prod.splits)
  show ?thesis
    using assms(2) unfolding VerifyToken_def verifyTokenFlow_def c
    by (auto simp: redisCache_def Let_def dest!: get origin split: if_splits sum.splits prod.splits)
qed

lemma ReportDelivered_harmless: "harmless (st w) (st (ReportDelivered (NewServer R M E P V Y now) req w))"
proof -
  obtain r w1 where "rSet R (DeliveredKey (rdUid req) (rdMsgId req)) ''1'' deliveredTTL w = (r, w1)"
    by (cases "rSet R (DeliveredKey (rdUid req) (rdMsgId req)) ''1'' deliveredTTL w")
  with harmless_write [OF Set [OF this]] show ?thesis by (simp add: ReportDelivered_def NewServer_def redisCache_def)
qed

lemma MarkRead_harmless: "harmless (st w) (st (MarkRead (NewServer R M E P V (MySQLSyncStore M) now) req w))"
proof -
  let ?u = "update_read (mrUid req) (mrConvId req) (mrSeq req)"
  obtain r w1 where x: "mExec M (\<lambda>T. Inr (?u T)) w = (r, w1)" by (cases "mExec M (\<lambda>T. Inr (?u T)) w")
  have "harmless (st w) ((st w)\<lparr>sTabs := ?u (sTabs (st w))\<rparr>)" by (rule harmless_tables [OF refl]) (simp_all add: update_read_def)
  then have "harmless (st w) (st w1)" using Exec [OF x] by (auto simp: wrote_def)
  with x show ?thesis by (auto simp: MarkRead_def NewServer_def MySQLSyncStore_def Sync_MarkRead_def split: sum.splits)
qed

lemma pending_reads: "PendingConvs M uid w = (r, w') \<Longrightarrow> st w' = st w"
  by (auto simp: PendingConvs_def dest!: Query split: sum.splits prod.splits)

lemma GetPendingConvs_harmless:
  "GetPendingConvs (NewServer R M E P V (MySQLSyncStore M) now) req w = (resp, w') \<Longrightarrow> st w' = st w"
  by (auto simp: GetPendingConvs_def NewServer_def MySQLSyncStore_def dest!: pending_reads split: if_splits sum.splits prod.splits)

lemma OnlineEvent_harmless:
  assumes "OnlineEvent (NewServer R M E P V (MySQLSyncStore M) now) req w = (resp, w')"
  shows "harmless (st w) (st w')"
proof -
  let ?k = "PresenceKey (oeUid req)"
  obtain e w1 where e: "rExists R ?k w = (e, w1)" by (cases "rExists R ?k w")
  obtain r w2 where r: "rSet R ?k ''online'' presenceTTLOnEvent w1 = (r, w2)" by (cases "rSet R ?k ''online'' presenceTTLOnEvent w1")
  have 1: "st w1 = st w" using Exists [OF e] by simp
  have 2: "harmless (st w) (st w2)" using harmless_write_after [OF 1 Set [OF r]] by simp
  obtain v where v: "v \<in> {w, w1, w2}" "st w' = st v"
    using assms e r by (auto simp: OnlineEvent_def NewServer_def MySQLSyncStore_def Let_def dest!: pending_reads split: if_splits sum.splits prod.splits)
  with 1 2 show ?thesis by auto
qed

lemma IsMember_harmless:
  assumes "logic_ok (st w)" and "IsMember R M g u w = (r, w')"
  shows "harmless (st w) (st w')"
proof -
  from assms(1) have "members_coherent g (st w)" "members_wf (sTabs (st w))" by (simp_all add: logic_ok_def)
  note spec = IsMember_spec [OF assms(2) this]
  then have fam: "\<And>k. k \<noteq> ConvMembersKey g \<Longrightarrow> sKeys (st w') k = sKeys (st w) k" by blast
  have k: "sKeys (st w') (IdemKey u m) = sKeys (st w) (IdemKey u m)" "sKeys (st w') (SeqKey c) = sKeys (st w) (SeqKey c)"
      "sKeys (st w') (FriendKey u) = sKeys (st w) (FriendKey u)" for u m c
    by (rule fam, rule keys_differ, simp)+
  have "members_coherent h (st w')" for h
  proof (cases "h = g")
    case False
    then have "sKeys (st w') (ConvMembersKey h) = sKeys (st w) (ConvMembersKey h)" by (intro fam) simp
    with assms(1) spec show ?thesis by (simp add: logic_ok_def members_coherent_def)
  qed (use spec in simp)
  with assms(1) spec k have "logic_ok (st w')" by (simp add: logic_ok_def friends_coherent_def zset_at_def idem_strings_def)
  with spec show ?thesis
    using view_frame(1,2) [of "st w'" "st w"] view_frame(3) [OF k(1)] view_frame(5) [OF k(2)] by (simp add: harmless_def)
qed

lemma SyncPull_harmless:
  assumes "logic_ok (st w)" and "SyncPull (NewServer R M E P V (MySQLSyncStore M) now) req w = (resp, w')"
  shows "harmless (st w) (st w')"
proof -
  let ?S = "NewServer R M E P V (MySQLSyncStore M) now"
  obtain k w1 where k: "checkSyncMember ?S (yqUid req) (yqConvId req) w = (k, w1)" by (cases "checkSyncMember ?S (yqUid req) (yqConvId req) w")
  have 1: "harmless (st w) (st w1)"
    using k by (auto simp: checkSyncMember_def NewServer_def GroupMembers_def dest!: IsMember_harmless [OF assms(1)] split: sum.splits if_splits prod.splits)
  obtain p w2 where p: "PullMessages M (yqUid req) (yqConvId req) (yqLocalMaxSeq req) (clampLimit (yqLimit req)) w1 = (p, w2)"
    by (cases "PullMessages M (yqUid req) (yqConvId req) (yqLocalMaxSeq req) (clampLimit (yqLimit req)) w1")
  have "w' \<in> {w, w1, w2}"
    using assms(2) k p by (auto simp: SyncPull_def NewServer_def MySQLSyncStore_def Let_def split: if_splits sum.splits prod.splits)
  with 1 PullMessages_page [OF p] show ?thesis by auto
qed

end

section \<open>Steps\<close>

text \<open>What holds of the process between calls, and how its world may have moved.\<close>

definition logic_inv :: "('w \<Rightarrow> svc) \<Rightarrow> Node \<times> 'w \<Rightarrow> bool" where
  "logic_inv st = (\<lambda>(n, w). logic_ok (st w) \<and> node_ok n \<and> nLastMs n \<le> sLast (st w))"

definition moved :: "svc \<Rightarrow> svc \<Rightarrow> bool" where
  "moved s s' \<longleftrightarrow> friend_view s' = friend_view s \<and> group_view s' = group_view s \<and>
     (\<forall>u m. idem_view s u m \<noteq> None \<longrightarrow> idem_view s' u m \<noteq> None) \<and> (\<forall>c. seq_view s c \<le> seq_view s' c) \<and>
     (\<exists>recs. sLog s' = sLog s @ recs)"

lemma moved_refl [simp, intro]: "moved s s"
  by (simp add: moved_def)

lemma moved_trans [trans]: "moved s s' \<Longrightarrow> moved s' s'' \<Longrightarrow> moved s s''"
  unfolding moved_def by (auto intro: order_trans)

lemma harmless_moved: "harmless s s' \<Longrightarrow> moved s s'"
  by (simp add: harmless_def moved_def)

lemma harmless_inv: "harmless (st w) (st w') \<Longrightarrow> logic_inv st (n, w) \<Longrightarrow> logic_inv st (n, w')"
  by (simp add: harmless_def logic_inv_def)

context send_deps
begin

lemma sendMsg_log:
  assumes "good w" and "node_ok n" "nLastMs n \<le> at_least w" and "sendMsg S C req n w = (out, n', w')"
  shows "\<exists>recs. log w' = log w @ recs"
proof (cases "normalise req")
  case None
  with assms(4) show ?thesis by (simp add: sendMsg_def)
next
  case (Some p)
  then obtain conv target where p: "normalise req = Some (conv, target)" by (cases p) auto
  from sendMsg_effect [OF assms(1-3) p assms(4)] show ?thesis
    by (auto simp: refused_def replayed_def failed_def accepted_def)
qed

end

lemma rpc_SendMsg_outcome: "rpc_SendMsg S C req (n, w) = (r, s) \<Longrightarrow> \<exists>out. sendMsg S C req n w = (out, s) \<and> (r = Hang \<longrightarrow> out = Hang)"
  by (auto simp: rpc_SendMsg_def split: prod.splits outcome.splits)

lemma send_step:
  assumes "timed_services R M P now st" and "logic_inv st (n, w)" and "sendMsg (NewServer R M E P V Y now) C req n w = (out, n', w')"
  shows "logic_inv st (n', w') \<and> moved (st w) (st w') \<and> out \<noteq> Hang"
proof -
  note D = send_deps_wired [OF assms(1)]
  from assms(2) have g: "logic_ok (st w)" "node_ok n" "nLastMs n \<le> sLast (st w)" by (simp_all add: logic_inv_def)
  note S = send_deps.sendMsg_mono [OF D g assms(3)] and L = send_deps.sendMsg_log [OF D g assms(3)]
  from S have "logic_inv st (n', w')" "out \<noteq> Hang" by (auto simp: logic_inv_def stable_def)
  moreover have "moved (st w) (st w')" using S L by (auto simp: moved_def stable_def)
  ultimately show ?thesis by blast
qed

lemma serve_rpc_step:
  assumes "timed_services R M P now st" and "\<And>u t w r w'. V u t w = (r, w') \<Longrightarrow> st w' = st w"
    and "logic_inv st (n, w)" and "serve_rpc (NewServer R M E P V (MySQLSyncStore M) now) C q (n, w) = (out, n', w')"
  shows "logic_inv st (n', w') \<and> moved (st w) (st w') \<and> (\<exists>r. out = Ret r) \<and> (\<not> (\<exists>req. q = RpcSendMsg req) \<longrightarrow> sLog (st w') = sLog (st w))"
proof -
  let ?S = "NewServer R M E P V (MySQLSyncStore M) now"
  have sv: "services R M P now st" using assms(1) by (simp add: timed_services_def)
  obtain h n1 w1 where h: "logic_handler ?S C q (n, w) = (h, n1, w1)" by (cases "logic_handler ?S C q (n, w)") auto
  have o: "n' = n1" "w' = w1" "h \<noteq> Hang \<Longrightarrow> \<exists>r. out = Ret r"
    using assms(4) h by (auto simp: serve_rpc_def UnaryInterceptor_def split: outcome.splits)
  show ?thesis
  proof (cases "\<exists>req. q = RpcSendMsg req")
    case True
    then obtain req where q: "q = RpcSendMsg req" by blast
    obtain r s where r: "rpc_SendMsg ?S C req (n, w) = (r, s)" by (cases "rpc_SendMsg ?S C req (n, w)")
    obtain x where x: "sendMsg ?S C req n w = (x, s)" "r = Hang \<longrightarrow> x = Hang" using rpc_SendMsg_outcome [OF r] by blast
    from h q r have "s = (n1, w1)" "h = Hang \<longrightarrow> r = Hang" by (auto simp: logic_handler_def split: outcome.splits sum.splits)
    with send_step [OF assms(1,3)] x o q show ?thesis by auto
  next
    case False
    have "n1 = n \<and> h \<noteq> Hang \<and> harmless (st w) (st w1)"
    proof (cases q)
      case (RpcVerifyToken req)
      with h services.VerifyToken_harmless [OF sv assms(2)] show ?thesis by (auto simp: logic_handler_def split: prod.splits)
    next
      case (RpcSyncPull req)
      with h services.SyncPull_harmless [OF sv] assms(3) show ?thesis by (auto simp: logic_handler_def logic_inv_def split: prod.splits)
    next
      case (RpcGetPendingConvs req)
      with h show ?thesis by (auto simp: logic_handler_def dest!: services.GetPendingConvs_harmless [OF sv] split: prod.splits)
    next
      case (RpcMarkRead req)
      with h services.MarkRead_harmless [OF sv] show ?thesis by (auto simp: logic_handler_def)
    next
      case (RpcOnlineEvent req)
      with h services.OnlineEvent_harmless [OF sv] show ?thesis by (auto simp: logic_handler_def split: prod.splits)
    next
      case (RpcReportDelivered req)
      with h services.ReportDelivered_harmless [OF sv] show ?thesis by (auto simp: logic_handler_def)
    qed (use False in simp)
    with o harmless_moved harmless_inv [OF _ assms(3)] show ?thesis by (auto simp: harmless_def)
  qed
qed

end
