(* ===== verification/AccountRun.thy ===== *)
theory AccountRun
  imports AccountHttp
begin

text \<open>
  What the account service guarantees. Every request changes the tables only in one of the ways of the
  relation \<open>allowed\<close>, which carries the authorisation rules of the groups; from it follows that the
  tables stay well formed. Registration, login and verification fit together: the name and password of
  a registration log in as the new user, the access token of a login verifies as its user until it
  expires or is displaced, a refresh token never does.
\<close>

section \<open>Allowed changes\<close>

inductive allowed :: "(string \<Rightarrow> string) \<Rightarrow> int option \<Rightarrow> tables \<Rightarrow> tables \<Rightarrow> bool" for C :: "string \<Rightarrow> string" where
  same: "allowed C who T T"
| user: "validateRegister q = None \<Longrightarrow>
    insert_user C \<lparr>uId = uid, uName = rqUsername q, uHash = hash, uNick = rqNickname q\<rparr> T = Inr T' \<Longrightarrow> allowed C who T T'"
| create: "1 \<le> length name \<Longrightarrow> length name \<le> 64 \<Longrightarrow> distinct (uid # ms) \<Longrightarrow> int (length (uid # ms)) \<le> groupMaxMembers \<Longrightarrow>
    create_group gid name uid (\<lparr>mrUID = uid, mrRole = roleOwner\<rparr> # map (\<lambda>m. \<lparr>mrUID = m, mrRole = roleMember\<rparr>) ms) T = Inr T' \<Longrightarrow>
    allowed C (Some uid) T T'"
| add: "select_role gid uid T = Some role \<Longrightarrow> roleAdmin \<le> role \<Longrightarrow> select_owner gid T \<noteq> None \<Longrightarrow>
    allowed C (Some uid) T (add_member gid target T)"
| remove: "uid = target \<or> (\<exists>role. select_role gid uid T = Some role \<and> roleAdmin \<le> role) \<Longrightarrow>
    allowed C (Some uid) T (remove_member gid target T)"

section \<open>Well-formed tables\<close>

definition account_typed :: "(string \<Rightarrow> string) \<Rightarrow> tables \<Rightarrow> bool" where
  "account_typed C T \<longleftrightarrow>
     distinct (map uId (tUser T)) \<and> distinct (map (\<lambda>u. C (uName u)) (tUser T)) \<and>
     (\<forall>u \<in> set (tUser T). usernamePattern (uName u) \<and> length (uName u) \<in> {4..32} \<and> length (uNick u) \<le> 64) \<and>
     distinct (map gId (tGroup T)) \<and> (\<forall>g \<in> set (tGroup T). length (gName g) \<in> {1..64}) \<and>
     distinct (map member_key (tMember T)) \<and> (\<forall>r \<in> set (tMember T). gmRole r \<in> {roleMember, roleAdmin, roleOwner})"

lemma insert_members_Inr:
  "insert_members gid ms rows = Inr rows' \<Longrightarrow> distinct (map member_key rows) \<Longrightarrow>
   rows' = rows @ map (\<lambda>m. \<lparr>gmGroup = gid, gmUid = mrUID m, gmRole = mrRole m\<rparr>) ms \<and> distinct (map member_key rows')"
proof (induction gid ms rows rule: insert_members.induct)
  case (2 gid m ms rows)
  let ?row = "\<lparr>gmGroup = gid, gmUid = mrUID m, gmRole = mrRole m\<rparr>"
  from 2(2) have new: "(gid, mrUID m) \<notin> member_key ` set rows" and rec: "insert_members gid ms (rows @ [?row]) = Inr rows'"
    by (simp_all split: if_splits)
  have "member_key ?row = (gid, mrUID m)" by (simp add: member_key_def)
  with new 2(3) have "distinct (map member_key (rows @ [?row]))" by simp
  note IH = 2(1) [OF new rec this]
  have "rows' = rows @ map (\<lambda>m. \<lparr>gmGroup = gid, gmUid = mrUID m, gmRole = mrRole m\<rparr>) (m # ms)" using conjunct1 [OF IH] by simp
  then show ?case by (rule conjI [OF _ conjunct2 [OF IH]])
qed simp

lemma allowed_typed:
  assumes "allowed C who T T'" and "account_typed C T"
  shows "account_typed C T'"
  using assms
proof (induction rule: allowed.induct)
  case (user q uid hash T T' who)
  then show ?case
    by (auto simp: account_typed_def insert_user_def validateRegister_def image_iff split: if_splits) blast
next
  case (create name uid ms gid T T' )
  then obtain rows where rows: "insert_members gid (\<lparr>mrUID = uid, mrRole = roleOwner\<rparr> # map (\<lambda>m. \<lparr>mrUID = m, mrRole = roleMember\<rparr>) ms) (tMember T) = Inr rows"
      "gid \<notin> gId ` set (tGroup T)" "T' = T\<lparr>tGroup := tGroup T @ [\<lparr>gId = gid, gName = name, gOwner = uid\<rparr>], tMember := rows\<rparr>"
    by (auto simp: create_group_def split: if_splits sum.splits)
  have "distinct (map member_key (tMember T))" using create.prems by (simp add: account_typed_def)
  note ins = insert_members_Inr [OF rows(1) this]
  have "\<forall>r \<in> set rows. gmRole r \<in> {roleMember, roleAdmin, roleOwner}"
    using create.prems unfolding conjunct1 [OF ins] by (auto simp: account_typed_def)
  with conjunct2 [OF ins] create(1,2) create.prems rows(2) show ?case
    unfolding rows(3) account_typed_def by simp
next
  case (add gid uid T role target)
  then show ?case by (auto simp: account_typed_def add_member_def member_key_def roleMember_def)
next
  case (remove uid target gid T)
  have "distinct (map member_key (filter (\<lambda>r. member_key r \<noteq> (gid, target)) (tMember T)))"
    using remove.prems by (simp add: account_typed_def distinct_map_filter)
  with remove.prems show ?case by (auto simp: account_typed_def remove_member_def)
qed simp

lemma distinct_dedup: "distinct (dedup_members seen ms) \<and> set (dedup_members seen ms) \<inter> set seen = {}"
  by (induction seen ms rule: dedup_members.induct) auto

section \<open>What the service relies on\<close>

lemma askD: "ask f s = (r, s') \<Longrightarrow> f (acWorld s) = (r, acWorld s') \<and> acNode s' = acNode s \<and> acEvents s' = acEvents s"
  by (auto simp: ask_def split: prod.splits)

locale account_deps = services R M P now st
  for R :: "'w redis" and M :: "'w mysql" and P :: "'w kwriter" and now :: "'w \<Rightarrow> int \<times> 'w" and st :: "'w \<Rightarrow> svc" +
  fixes B :: "'w bcrypt" and J :: jwt
  assumes generate: "\<And>p c w r w'. bcGenerate B p c w = (r, w') \<Longrightarrow> st w' = st w \<and> (\<forall>hash. r = Inr hash \<longrightarrow> bcCompare B hash p = None)"
    and signed: "\<And>secret c t n. jwSign J secret c = Inr t \<Longrightarrow>
      (if n < clExp c then jwParse J [''HS256''] (hmac_key secret) n t = Inr c else isl (jwParse J [''HS256''] (hmac_key secret) n t))"
begin

lemma Parse_frame:
  assumes "Parse (NewService store cache tm J B now) token s = (r, s')"
  shows "sTabs (st (acWorld s')) = sTabs (st (acWorld s)) \<and> sKeys (st (acWorld s')) = sKeys (st (acWorld s)) \<and> acNode s' = acNode s \<and>
    (\<forall>c. r = Inr c \<longrightarrow> (\<exists>n. jwParse J [''HS256''] (hmac_key (tmSecret tm)) n token = Inr c))"
proof -
  obtain t s1 where t: "ask now s = (t, s1)" by (cases "ask now s")
  from Now [OF conjunct1 [OF askD [OF t]]] askD [OF t] assms t show ?thesis
    by (auto simp: Parse_def NewService_def split: sum.splits)
qed

lemma GetDigest_frame:
  assumes "tcGetDigest (redisTokenCache R) uid w = (r, w')"
  shows "st w' = st w \<and> (\<forall>v. r = Inr v \<longrightarrow> (sKeys (st w) (TokenKey uid) = None \<and> v = [] \<or> sKeys (st w) (TokenKey uid) = Some (VStr v)))"
proof -
  obtain q w1 where q: "rGet R (TokenKey uid) w = (q, w1)" by (cases "rGet R (TokenKey uid) w")
  from Get [OF q] q assms show ?thesis by (auto simp: redisTokenCache_def split: sum.splits if_splits)
qed

lemma exec_tabs:
  assumes "mExec M q w = (r, w')"
  shows "sTabs (st w') = sTabs (st w) \<or> q (sTabs (st w)) = Inr (sTabs (st w'))"
  using Exec [OF assms] by (auto simp: wrote_def split: sum.splits)

lemma GetUser_frame:
  "usGetUserByUsername (mysqlStore M C) name w = (r, w') \<Longrightarrow> st w' = st w \<and>
     (\<forall>u. r = Inr u \<longrightarrow> select_user C name (sTabs (st w)) = Some u) \<and>
     (r = Inl ErrUserNotFound \<longrightarrow> select_user C name (sTabs (st w)) = None)"
proof -
  assume a: "usGetUserByUsername (mysqlStore M C) name w = (r, w')"
  obtain q w1 where q: "mQuery M w = (q, w1)" by (cases "mQuery M w")
  from Query [OF q] q a show ?thesis
    by (auto simp: mysqlStore_def ErrUserNotFound_def errorf_def split: sum.splits option.splits)
qed

lemma CreateUser_frame:
  "usCreateUser (mysqlStore M C) u w = (r, w') \<Longrightarrow>
     sTabs (st w') = sTabs (st w) \<and> isl r \<or> insert_user C u (sTabs (st w)) = Inr (sTabs (st w'))"
proof -
  assume a: "usCreateUser (mysqlStore M C) u w = (r, w')"
  obtain q w1 where q: "mExec M (insert_user C u) w = (q, w1)" by (cases "mExec M (insert_user C u) w")
  from Exec [OF q] q a show ?thesis by (auto simp: mysqlStore_def wrote_def split: sum.splits)
qed

lemma Next_tabs: "Next now n w = Some (i, n', w') \<Longrightarrow> sTabs (st w') = sTabs (st w) \<and> sKeys (st w') = sKeys (st w)"
  by (erule Next_keeps [where I = "\<lambda>v. sTabs (st v) = sTabs (st w) \<and> sKeys (st v) = sKeys (st w)"]) (auto dest: Now)

lemma Register_cases:
  assumes "Register (NewService (mysqlStore M C) cache tm J B now) q s = (out, s')"
  shows "sTabs (st (acWorld s')) = sTabs (st (acWorld s)) \<and> (\<forall>uid. out \<noteq> Ret (Inr uid)) \<or>
    validateRegister q = None \<and> (\<exists>uid hash. bcCompare B hash (rqPassword q) = None \<and> (\<forall>u. out = Ret (Inr u) \<longrightarrow> u = uid) \<and>
      insert_user C \<lparr>uId = uid, uName = rqUsername q, uHash = hash, uNick = rqNickname q\<rparr> (sTabs (st (acWorld s))) =
        Inr (sTabs (st (acWorld s'))))"
proof -
  let ?S = "NewService (mysqlStore M C) cache tm J B now"
  obtain r1 s1 where g: "ask (usGetUserByUsername (mysqlStore M C) (rqUsername q)) s = (r1, s1)"
    by (cases "ask (usGetUserByUsername (mysqlStore M C) (rqUsername q)) s")
  obtain r2 s2 where b: "ask (bcGenerate B (rqPassword q) bcryptCost) s1 = (r2, s2)" by (cases "ask (bcGenerate B (rqPassword q) bcryptCost) s1")
  have st1: "st (acWorld s1) = st (acWorld s)" using GetUser_frame askD [OF g] by blast
  have st2: "st (acWorld s2) = st (acWorld s1)" using generate askD [OF b] by blast
  note S = Register_def NewService_def
  show ?thesis
  proof (cases "validateRegister q = None \<and> r1 = Inl ErrUserNotFound \<and> (\<exists>hash uid n w. r2 = Inr hash \<and> Next now (acNode s2) (acWorld s2) = Some (uid, n, w))")
    case True
    then obtain hash uid n w where r: "validateRegister q = None" "r1 = Inl ErrUserNotFound" "r2 = Inr hash"
        and nx: "Next now (acNode s2) (acWorld s2) = Some (uid, n, w)" by blast
    obtain t s3 where t: "ask now (s2\<lparr>acNode := n, acWorld := w\<rparr>) = (t, s3)" by (cases "ask now (s2\<lparr>acNode := n, acWorld := w\<rparr>)")
    let ?u = "\<lparr>uId = uid, uName = rqUsername q, uHash = hash, uNick = rqNickname q\<rparr>"
    obtain r4 s4 where c: "ask (usCreateUser (mysqlStore M C) ?u) s3 = (r4, s4)" by (cases "ask (usCreateUser (mysqlStore M C) ?u) s3")
    have tabs: "sTabs (st (acWorld s3)) = sTabs (st (acWorld s))"
      using Now [of w] askD [OF t] Next_tabs [OF nx] st1 st2 by auto
    have out: "s' = s4" "\<forall>u. out = Ret (Inr u) \<longrightarrow> u = uid \<and> \<not> isl r4"
      using assms r g b nx t c by (auto simp: S split: sum.splits if_splits)
    have "bcCompare B hash (rqPassword q) = None" using generate askD [OF b] r(3) by blast
    with CreateUser_frame [OF conjunct1 [OF askD [OF c]]] tabs out r(1) show ?thesis by auto
  next
    case False
    with assms g b have "s' \<in> {s, s1, s2} \<and> (\<forall>uid. out \<noteq> Ret (Inr uid))"
      by (auto simp: S split: sum.splits if_splits option.splits)
    with st1 st2 show ?thesis by auto
  qed
qed

end

context account_deps
begin

text \<open>Login and verification leave the tables alone.\<close>

lemma Issue_frame:
  assumes "Issue (NewService store cache tm J B now) uid a s = (r, s')"
  shows "sTabs (st (acWorld s')) = sTabs (st (acWorld s)) \<and> sKeys (st (acWorld s')) = sKeys (st (acWorld s)) \<and>
    (\<forall>t expire. r = Inr (t, expire) \<longrightarrow> (\<exists>c. jwSign J (tmSecret tm) c = Inr t \<and> clUID c = uid \<and> clExp c = expire div 1000 \<and>
      clType c = (if a then TokenTypeAccess else TokenTypeRefresh)))"
proof -
  obtain t s1 where t: "ask now s = (t, s1)" by (cases "ask now s")
  from Now [OF conjunct1 [OF askD [OF t]]] assms t show ?thesis
    by (auto simp: Issue_def NewService_def Let_def split: sum.splits)
qed

lemma SetDigest_frame:
  assumes "tcSetDigest (redisTokenCache R) uid d ttl w = (r, w')"
  shows "sTabs (st w') = sTabs (st w) \<and> (\<not> isl r \<longrightarrow> sKeys (st w') (TokenKey uid) = Some (VStr d))"
proof -
  obtain q w1 where q: "rSet R (TokenKey uid) d ttl w = (q, w1)" by (cases "rSet R (TokenKey uid) d ttl w")
  from Set [OF q] q assms show ?thesis by (auto simp: redisTokenCache_def wrote_key_def split: sum.splits)
qed

lemma Login_issues:
  assumes "Login (NewService (mysqlStore M C) (redisTokenCache R) tm J B now) q s = (r, s')" and "lqUsername q \<noteq> []" "lqPassword q \<noteq> []"
    and "ask (usGetUserByUsername (mysqlStore M C) (lqUsername q)) s = (Inr u, s1)" and "bcCompare B (uHash u) (lqPassword q) = None"
  shows "sTabs (st (acWorld s')) = sTabs (st (acWorld s1)) \<and> r \<noteq> Inl (BizError CodeUnauthorized) \<and>
    (\<forall>res. r = Inr res \<longrightarrow> (\<exists>ca cr. uId u = lrUID res \<and>
      jwSign J (tmSecret tm) ca = Inr (lrAccessToken res) \<and> clUID ca = lrUID res \<and> clType ca = TokenTypeAccess \<and> clExp ca = lrExpireAt res \<and>
      jwSign J (tmSecret tm) cr = Inr (lrRefreshToken res) \<and> clUID cr = lrUID res \<and> clType cr = TokenTypeRefresh \<and>
      sKeys (st (acWorld s')) (TokenKey (lrUID res)) = Some (VStr (Digest (lrAccessToken res)))))"
proof -
  let ?S = "NewService (mysqlStore M C) (redisTokenCache R) tm J B now"
  have S: "seStore ?S = mysqlStore M C" "seCache ?S = redisTokenCache R" "seTM ?S = tm" "seBcrypt ?S = B" by (simp_all add: NewService_def)
  obtain r2 s2 where i: "Issue ?S (uId u) True s1 = (r2, s2)" by (cases "Issue ?S (uId u) True s1")
  obtain r3 s3 where j: "Issue ?S (uId u) False s2 = (r3, s3)" by (cases "Issue ?S (uId u) False s2")
  note I = Issue_frame [OF i] and K = Issue_frame [OF j]
  show ?thesis
  proof (cases "isl r2 \<or> isl r3")
    case True
    then have "s' \<in> {s2, s3}" "r = Inl (BizError CodeStorageError)"
      using assms S i j by (auto simp: Login_def wrapStorage_def split: sum.splits)
    with I K show ?thesis by (auto simp: account_codes)
  next
    case False
    then obtain access expire refresh e2 where r: "r2 = Inr (access, expire)" "r3 = Inr (refresh, e2)"
      by (cases r2; cases r3) auto
    obtain r4 s4 where c: "ask (tcSetDigest (redisTokenCache R) (uId u) (Digest access) (tmAccessTTL tm)) s3 = (r4, s4)"
      by (cases "ask (tcSetDigest (redisTokenCache R) (uId u) (Digest access) (tmAccessTTL tm)) s3")
    note W = SetDigest_frame [OF conjunct1 [OF askD [OF c]]]
    have res: "s' = s4" "r = (if isl r4 then Inl (BizError CodeRedisError)
        else Inr \<lparr>lrUID = uId u, lrAccessToken = access, lrRefreshToken = refresh, lrExpireAt = expire div 1000\<rparr>)"
      using assms S i j r c by (auto simp: Login_def split: sum.splits)
    from I K r obtain ca cr where cs: "jwSign J (tmSecret tm) ca = Inr access" "clUID ca = uId u" "clExp ca = expire div 1000" "clType ca = TokenTypeAccess"
        "jwSign J (tmSecret tm) cr = Inr refresh" "clUID cr = uId u" "clType cr = TokenTypeRefresh" by auto
    have tabs: "sTabs (st (acWorld s4)) = sTabs (st (acWorld s1))" using W K I by simp
    show ?thesis
    proof (cases "isl r4")
      case True
      with res tabs show ?thesis by (simp add: account_codes)
    next
      case False
      with res tabs cs W show ?thesis by auto
    qed
  qed
qed

lemma Login_spec:
  assumes "Login (NewService (mysqlStore M C) (redisTokenCache R) tm J B now) q s = (r, s')"
  shows "sTabs (st (acWorld s')) = sTabs (st (acWorld s)) \<and>
    (\<forall>res. r = Inr res \<longrightarrow> (\<exists>u ca cr. select_user C (lqUsername q) (sTabs (st (acWorld s))) = Some u \<and> uId u = lrUID res \<and>
      bcCompare B (uHash u) (lqPassword q) = None \<and>
      jwSign J (tmSecret tm) ca = Inr (lrAccessToken res) \<and> clUID ca = lrUID res \<and> clType ca = TokenTypeAccess \<and> clExp ca = lrExpireAt res \<and>
      jwSign J (tmSecret tm) cr = Inr (lrRefreshToken res) \<and> clUID cr = lrUID res \<and> clType cr = TokenTypeRefresh \<and>
      sKeys (st (acWorld s')) (TokenKey (lrUID res)) = Some (VStr (Digest (lrAccessToken res))))) \<and>
    (r = Inl (BizError CodeUnauthorized) \<longrightarrow> (case select_user C (lqUsername q) (sTabs (st (acWorld s))) of None \<Rightarrow> True
       | Some u \<Rightarrow> bcCompare B (uHash u) (lqPassword q) \<noteq> None))"
proof -
  let ?S = "NewService (mysqlStore M C) (redisTokenCache R) tm J B now"
  note D = Login_def wrapStorage_def account_codes
  have S: "seStore ?S = mysqlStore M C" "seCache ?S = redisTokenCache R" "seTM ?S = tm" "seBcrypt ?S = B" by (simp_all add: NewService_def)
  show ?thesis
  proof (cases "lqUsername q = [] \<or> lqPassword q = []")
    case True
    then show ?thesis using assms by (auto simp: D)
  next
    case nonempty: False
    obtain r1 s1 where g: "ask (usGetUserByUsername (mysqlStore M C) (lqUsername q)) s = (r1, s1)"
      by (cases "ask (usGetUserByUsername (mysqlStore M C) (lqUsername q)) s")
    note G = GetUser_frame [OF conjunct1 [OF askD [OF g]]]
    show ?thesis
    proof (cases r1)
      case (Inl e)
      with assms nonempty g G S show ?thesis by (auto simp: D split: if_splits option.splits)
    next
      case (Inr u)
      then have sel: "select_user C (lqUsername q) (sTabs (st (acWorld s))) = Some u" using G by blast
      show ?thesis
      proof (cases "bcCompare B (uHash u) (lqPassword q)")
        case (Some e)
        with assms nonempty g G S Inr sel show ?thesis by (auto simp: D)
      next
        case pw: None
        with Login_issues [OF assms _ _ g [unfolded Inr]] nonempty G sel show ?thesis by (auto simp: Inr)
      qed
    qed
  qed
qed

lemma Verify_spec:
  assumes "Verify (NewService store (redisTokenCache R) tm J B now) token s = ((res, err), s')"
  shows "sTabs (st (acWorld s')) = sTabs (st (acWorld s)) \<and> sKeys (st (acWorld s')) = sKeys (st (acWorld s)) \<and> (vrValid res \<longleftrightarrow> err = None) \<and>
    (vrValid res \<longrightarrow> (\<exists>n c. jwParse J [''HS256''] (hmac_key (tmSecret tm)) n token = Inr c \<and> clUID c = vrUID res \<and> clType c = TokenTypeAccess \<and>
      (sKeys (st (acWorld s)) (TokenKey (vrUID res)) = None \<or> sKeys (st (acWorld s)) (TokenKey (vrUID res)) = Some (VStr []) \<or>
       sKeys (st (acWorld s)) (TokenKey (vrUID res)) = Some (VStr (Digest token)))))"
proof -
  let ?S = "NewService store (redisTokenCache R) tm J B now"
  have S: "seCache ?S = redisTokenCache R" by (simp add: NewService_def)
  obtain r1 s1 where p: "Parse ?S token s = (r1, s1)" by (cases "Parse ?S token s")
  note P = Parse_frame [OF p]
  show ?thesis
  proof (cases "\<exists>c. r1 = Inr c \<and> clType c = TokenTypeAccess")
    case False
    with assms p P show ?thesis by (auto simp: Verify_def split: sum.splits if_splits)
  next
    case True
    then obtain c where c: "r1 = Inr c" "clType c = TokenTypeAccess" by blast
    obtain r2 s2 where d: "ask (tcGetDigest (redisTokenCache R) (clUID c)) s1 = (r2, s2)" by (cases "ask (tcGetDigest (redisTokenCache R) (clUID c)) s1")
    note D = GetDigest_frame [OF conjunct1 [OF askD [OF d]]]
    from assms p c d S P D show ?thesis by (auto simp: Verify_def split: sum.splits if_splits) blast+
  qed
qed

end

context account_deps
begin

lemma Verify_signed:
  assumes "Verify (NewService store (redisTokenCache R) tm J B now) token s = ((res, err), s')"
    and "jwSign J (tmSecret tm) c = Inr token" and "sKeys (st (acWorld s)) (TokenKey (clUID c)) = Some (VStr (Digest token))"
  shows "if sLast (st (acWorld s')) div 1000 < clExp c \<and> clType c = TokenTypeAccess
    then res = \<lparr>vrUID = clUID c, vrValid = True\<rparr> \<or> err = Some (BizError CodeRedisError) else \<not> vrValid res"
proof -
  let ?S = "NewService store (redisTokenCache R) tm J B now"
  have S: "seCache ?S = redisTokenCache R" "seNow ?S = now" "seJwt ?S = J" "seTM ?S = tm" by (simp_all add: NewService_def)
  obtain t s1 where t: "ask now s = (t, s1)" by (cases "ask now s")
  note T = Now [OF conjunct1 [OF askD [OF t]]]
  obtain r2 s2 where d: "ask (tcGetDigest (redisTokenCache R) (clUID c)) s1 = (r2, s2)" by (cases "ask (tcGetDigest (redisTokenCache R) (clUID c)) s1")
  note D = GetDigest_frame [OF conjunct1 [OF askD [OF d]]]
  have k: "sKeys (st (acWorld s1)) (TokenKey (clUID c)) = Some (VStr (Digest token))" using T assms(3) by simp
  show ?thesis
  proof (cases "t div 1000 < clExp c")
    case False
    then have "isl (jwParse J [''HS256''] (hmac_key (tmSecret tm)) (t div 1000) token)" using signed [OF assms(2), of "t div 1000"] by simp
    with assms(1) t S T False show ?thesis by (auto simp: Verify_def Parse_def split: sum.splits)
  next
    case True
    then have p: "Parse ?S token s = (Inr c, s1)" using signed [OF assms(2), of "t div 1000"] t S by (simp add: Parse_def)
    have "st (acWorld s2) = st (acWorld s1)" using D by simp
    with assms(1) p d S T True D k show ?thesis by (auto simp: Verify_def split: sum.splits if_splits)
  qed
qed

lemma signed_claims:
  assumes "jwSign J secret c = Inr t" and "jwParse J [''HS256''] (hmac_key secret) n t = Inr c'"
  shows "c' = c \<and> n < clExp c"
  using signed [OF assms(1), of n] assms(2) by (auto split: if_splits)

end

section \<open>Requests\<close>

text \<open>The requester of a request: the user of an access token that the library accepts under the service's key.\<close>

definition authenticated :: "jwt \<Rightarrow> TokenManager \<Rightarrow> request \<Rightarrow> int \<Rightarrow> bool" where
  "authenticated J tm r uid \<longleftrightarrow> (\<exists>n c. jwParse J [''HS256''] (hmac_key (tmSecret tm)) n (bearerToken r) = Inr c \<and>
     clType c = TokenTypeAccess \<and> clUID c = uid)"

lemma emit_world [simp]: "acWorld (emitGroupEvent G e g u s) = acWorld s" "acWorld (fold (emitGroupEvent G e g) us s) = acWorld s"
proof -
  show *: "acWorld (emitGroupEvent G e g u s) = acWorld s" for u s by (simp add: emitGroupEvent_def split: option.splits)
  show "acWorld (fold (emitGroupEvent G e g) us s) = acWorld s" by (induction us arbitrary: s) (simp_all add: *)
qed

lemma wrap_exec_eq: "wrap_exec msg p = (r, w) \<Longrightarrow> snd p = w \<and> isl r = isl (fst p)"
  by (auto simp: wrap_exec_def split: prod.splits sum.splits)

context account_deps
begin

lemma GetGroup_frame:
  "gsGetGroup (mysqlGroupStore M) gid w = (r, w') \<Longrightarrow> st w' = st w \<and> (\<forall>u. r = Inr u \<longrightarrow> select_owner gid (sTabs (st w)) = Some u)"
  using Query [of w] by (auto simp: mysqlGroupStore_def split: prod.splits sum.splits option.splits)

lemma MemberRole_frame:
  "gsMemberRole (mysqlGroupStore M) gid uid w = (r, w') \<Longrightarrow> st w' = st w \<and>
     (\<forall>role. r = Inr role \<longrightarrow> select_role gid uid (sTabs (st w)) = Some role \<or> role = - 1)"
  using Query [of w] by (auto simp: mysqlGroupStore_def split: prod.splits sum.splits option.splits)

lemma ListMembers_frame: "gsListMembers (mysqlGroupStore M) gid w = (r, w') \<Longrightarrow> st w' = st w"
  using Query [of w] by (auto simp: mysqlGroupStore_def split: prod.splits sum.splits)

lemma Group_exec:
  assumes "wrap_exec msg (mExec M q w) = (r, w')"
  shows "sTabs (st w') = sTabs (st w) \<and> isl r \<or> q (sTabs (st w)) = Inr (sTabs (st w'))"
proof -
  obtain r1 w1 where e: "mExec M q w = (r1, w1)" by (cases "mExec M q w")
  from Exec [OF e] wrap_exec_eq [OF assms] e show ?thesis by (auto simp: wrote_def split: sum.splits)
qed

lemma create_allowed:
  assumes "handleCreateGroup (NewHandler (NewService store cache tm J B now) (Some (NewGroupService (mysqlGroupStore M) producer)) j) uid r s = (out, s')"
  shows "allowed C (Some uid) (sTabs (st (acWorld s))) (sTabs (st (acWorld s')))"
proof -
  let ?h = "NewHandler (NewService store cache tm J B now) (Some (NewGroupService (mysqlGroupStore M) producer)) j"
  have H: "haGroups ?h = Some (NewGroupService (mysqlGroupStore M) producer)" "seNow (haSvc ?h) = now" "haJson ?h = j"
    "grStore (NewGroupService (mysqlGroupStore M) producer) = mysqlGroupStore M"
    by (simp_all add: NewHandler_def NewService_def NewGroupService_def)
  show ?thesis
  proof (cases "\<exists>req gid n w. decodeBody (jiCreate j) r = Inr req \<and> TrimSpace (cgName req) \<noteq> [] \<and> length (TrimSpace (cgName req)) \<le> 64 \<and>
      int (length (dedup_members [uid] (cgMemberUIDs req))) + 1 \<le> groupMaxMembers \<and> Next now (acNode s) (acWorld s) = Some (gid, n, w)")
    case False
    then have "s' = s" using assms H by (auto simp: handleCreateGroup_def Let_def not_less split: sum.splits if_splits option.splits)
    then show ?thesis by (simp add: allowed.same)
  next
    case True
    then obtain req gid n w where c: "decodeBody (jiCreate j) r = Inr req" "TrimSpace (cgName req) \<noteq> []" "length (TrimSpace (cgName req)) \<le> 64"
        "int (length (dedup_members [uid] (cgMemberUIDs req))) + 1 \<le> groupMaxMembers" "Next now (acNode s) (acWorld s) = Some (gid, n, w)" by blast
    let ?name = "TrimSpace (cgName req)" and ?ms = "dedup_members [uid] (cgMemberUIDs req)"
    let ?rows = "\<lparr>mrUID = uid, mrRole = roleOwner\<rparr> # map (\<lambda>m. \<lparr>mrUID = m, mrRole = roleMember\<rparr>) ?ms"
    obtain t s1 where t: "ask now (s\<lparr>acNode := n, acWorld := w\<rparr>) = (t, s1)" by (cases "ask now (s\<lparr>acNode := n, acWorld := w\<rparr>)")
    obtain r2 s2 where x: "ask (gsCreateGroup (mysqlGroupStore M) gid ?name uid ?rows) s1 = (r2, s2)"
      by (cases "ask (gsCreateGroup (mysqlGroupStore M) gid ?name uid ?rows) s1")
    have w': "acWorld s' = acWorld s2" using assms H c t x by (auto simp: handleCreateGroup_def Let_def split: sum.splits)
    have tabs: "sTabs (st (acWorld s1)) = sTabs (st (acWorld s))" using Now askD [OF t] Next_tabs [OF c(5)] by fastforce
    have "wrap_exec ''account: create group'' (mExec M (create_group gid ?name uid ?rows) (acWorld s1)) = (r2, acWorld s2)"
      using askD [OF x] by (simp add: mysqlGroupStore_def)
    from Group_exec [OF this] show ?thesis
    proof
      assume "create_group gid ?name uid ?rows (sTabs (st (acWorld s1))) = Inr (sTabs (st (acWorld s2)))"
      then show ?thesis unfolding w' tabs [symmetric]
        by (rule allowed.create [rotated -1]) (use c(2,3,4) distinct_dedup [of "[uid]" "cgMemberUIDs req"] in \<open>auto simp: Suc_le_eq\<close>)
    next
      assume "sTabs (st (acWorld s2)) = sTabs (st (acWorld s1)) \<and> isl r2"
      then show ?thesis by (simp add: w' tabs allowed.same)
    qed
  qed
qed

lemma list_allowed:
  assumes "handleListMembers (NewHandler S (Some (NewGroupService (mysqlGroupStore M) producer)) j) uid r s = (out, s')"
  shows "allowed C (Some uid) (sTabs (st (acWorld s))) (sTabs (st (acWorld s')))"
proof -
  have "st (acWorld s') = st (acWorld s)"
    using assms by (auto simp: handleListMembers_def NewHandler_def NewGroupService_def dest!: askD GetGroup_frame ListMembers_frame
        split: sum.splits prod.splits)
  then show ?thesis by (simp add: allowed.same)
qed

lemma add_allowed:
  assumes "handleAddMember (NewHandler S (Some (NewGroupService (mysqlGroupStore M) producer)) j) uid r s = (out, s')"
  shows "allowed C (Some uid) (sTabs (st (acWorld s))) (sTabs (st (acWorld s')))"
proof -
  let ?h = "NewHandler S (Some (NewGroupService (mysqlGroupStore M) producer)) j"
  have H: "haGroups ?h = Some (NewGroupService (mysqlGroupStore M) producer)" "haJson ?h = j"
    "grStore (NewGroupService (mysqlGroupStore M) producer) = mysqlGroupStore M"
    by (simp_all add: NewHandler_def NewGroupService_def)
  show ?thesis
  proof (cases "\<exists>gid target. pathID r ''gid'' = Inr gid \<and> decodeBody (jiAdd j) r = Inr target \<and> 0 < target")
    case False
    then have "s' = s" using assms H by (auto simp: handleAddMember_def not_le split: sum.splits if_splits)
    then show ?thesis by (simp add: allowed.same)
  next
    case True
    then obtain gid target where c: "pathID r ''gid'' = Inr gid" "decodeBody (jiAdd j) r = Inr target" "0 < target" by blast
    obtain r1 s1 where g: "ask (gsGetGroup (mysqlGroupStore M) gid) s = (r1, s1)" by (cases "ask (gsGetGroup (mysqlGroupStore M) gid) s")
    obtain r2 s2 where m: "ask (gsMemberRole (mysqlGroupStore M) gid uid) s1 = (r2, s2)" by (cases "ask (gsMemberRole (mysqlGroupStore M) gid uid) s1")
    obtain r3 s3 where x: "ask (gsAddMember (mysqlGroupStore M) gid target) s2 = (r3, s3)" by (cases "ask (gsAddMember (mysqlGroupStore M) gid target) s2")
    note G = GetGroup_frame [OF conjunct1 [OF askD [OF g]]] and R = MemberRole_frame [OF conjunct1 [OF askD [OF m]]]
    show ?thesis
    proof (cases "\<exists>u role. r1 = Inr u \<and> r2 = Inr role \<and> roleAdmin \<le> role")
      case False
      then have "s' = s1 \<or> s' = s2" using assms H c g m by (auto simp: handleAddMember_def not_less split: sum.splits if_splits)
      with G R show ?thesis by (auto simp: allowed.same)
    next
      case True
      then obtain u role where r: "r1 = Inr u" "r2 = Inr role" "roleAdmin \<le> role" by blast
      have w': "acWorld s' = acWorld s3" using assms H c g m r x by (auto simp: handleAddMember_def split: sum.splits)
      have "wrap_exec ''account: add group member'' (mExec M (\<lambda>T. Inr (add_member gid target T)) (acWorld s2)) = (r3, acWorld s3)"
        using askD [OF x] by (simp add: mysqlGroupStore_def)
      from Group_exec [OF this] have "sTabs (st (acWorld s')) = sTabs (st (acWorld s)) \<or>
          sTabs (st (acWorld s')) = add_member gid target (sTabs (st (acWorld s)))" using G R w' by auto
      moreover have "select_role gid uid (sTabs (st (acWorld s))) = Some role" "select_owner gid (sTabs (st (acWorld s))) \<noteq> None"
        using G R r by (auto simp: roleAdmin_def)
      ultimately show ?thesis using allowed.same allowed.add r(3) by metis
    qed
  qed
qed

lemma remove_allowed:
  assumes "handleRemoveMember (NewHandler S (Some (NewGroupService (mysqlGroupStore M) producer)) j) uid r s = (out, s')"
  shows "allowed C (Some uid) (sTabs (st (acWorld s))) (sTabs (st (acWorld s')))"
proof -
  let ?h = "NewHandler S (Some (NewGroupService (mysqlGroupStore M) producer)) j"
  have H: "haGroups ?h = Some (NewGroupService (mysqlGroupStore M) producer)"
    "grStore (NewGroupService (mysqlGroupStore M) producer) = mysqlGroupStore M"
    by (simp_all add: NewHandler_def NewGroupService_def)
  show ?thesis
  proof (cases "\<exists>gid target. pathID r ''gid'' = Inr gid \<and> pathID r ''uid'' = Inr target")
    case False
    then have "s' = s" using assms H by (auto simp: handleRemoveMember_def split: sum.splits)
    then show ?thesis by (simp add: allowed.same)
  next
    case True
    then obtain gid target where c: "pathID r ''gid'' = Inr gid" "pathID r ''uid'' = Inr target" by blast
    obtain r2 s2 where m: "ask (gsMemberRole (mysqlGroupStore M) gid uid) s = (r2, s2)" by (cases "ask (gsMemberRole (mysqlGroupStore M) gid uid) s")
    obtain r3 s3 where x: "ask (gsRemoveMember (mysqlGroupStore M) gid target) s2 = (r3, s3)" by (cases "ask (gsRemoveMember (mysqlGroupStore M) gid target) s2")
    note R = MemberRole_frame [OF conjunct1 [OF askD [OF m]]]
    show ?thesis
    proof (cases "\<exists>role. r2 = Inr role \<and> (roleAdmin \<le> role \<or> uid = target)")
      case False
      then have "s' = s2" using assms H c m by (auto simp: handleRemoveMember_def not_less split: sum.splits if_splits)
      with R show ?thesis by (simp add: allowed.same)
    next
      case True
      then obtain role where r: "r2 = Inr role" "roleAdmin \<le> role \<or> uid = target" by blast
      have w': "acWorld s' = acWorld s3" using assms H c m r x by (auto simp: handleRemoveMember_def split: sum.splits if_splits)
      have "wrap_exec ''account: remove group member'' (mExec M (\<lambda>T. Inr (remove_member gid target T)) (acWorld s2)) = (r3, acWorld s3)"
        using askD [OF x] by (simp add: mysqlGroupStore_def)
      from Group_exec [OF this] have "sTabs (st (acWorld s')) = sTabs (st (acWorld s)) \<or>
          sTabs (st (acWorld s')) = remove_member gid target (sTabs (st (acWorld s)))" using R w' by auto
      moreover have "uid = target \<or> (\<exists>role. select_role gid uid (sTabs (st (acWorld s))) = Some role \<and> roleAdmin \<le> role)"
        using R r by (auto simp: roleAdmin_def)
      ultimately show ?thesis using allowed.same allowed.remove by metis
    qed
  qed
qed

end

text \<open>A change of the tables that some request may make, by nobody or by its authenticated requester.\<close>

definition authorised :: "(string \<Rightarrow> string) \<Rightarrow> jwt \<Rightarrow> TokenManager \<Rightarrow> request \<Rightarrow> tables \<Rightarrow> tables \<Rightarrow> bool" where
  "authorised C J tm r T T' \<longleftrightarrow> (\<exists>who. allowed C who T T' \<and> (\<forall>uid. who = Some uid \<longrightarrow> authenticated J tm r uid))"

lemma authorised_same [simp, intro]: "authorised C J tm r T T"
  unfolding authorised_def using allowed.same by blast

lemma authorised_values [simp]: "authorised C J tm (r\<lparr>hqValues := vs\<rparr>) T T' = authorised C J tm r T T'"
  by (simp add: authorised_def authenticated_def bearerToken_def)

text \<open>The handler as \<^verbatim>\<open>cmd/account\<close> builds it.\<close>

definition account_handler ::
  "'w redis \<Rightarrow> 'w mysql \<Rightarrow> ('w \<Rightarrow> int \<times> 'w) \<Rightarrow> 'w Producer option \<Rightarrow> TokenManager \<Rightarrow> jwt \<Rightarrow> 'w bcrypt \<Rightarrow> (string \<Rightarrow> string) \<Rightarrow> json_in \<Rightarrow> 'w Handler" where
  "account_handler R M now producer tm J B C j =
     NewHandler (NewService (mysqlStore M C) (redisTokenCache R) tm J B now) (Some (NewGroupService (mysqlGroupStore M) producer)) j"

context account_deps
begin

lemma jwtAuth_authorised:
  assumes "jwtAuth (account_handler R M now producer tm J B C j) f r s = (out, s')"
    and "\<And>uid r s out s'. f uid r s = (out, s') \<Longrightarrow> allowed C (Some uid) (sTabs (st (acWorld s))) (sTabs (st (acWorld s')))"
  shows "authorised C J tm r (sTabs (st (acWorld s))) (sTabs (st (acWorld s')))"
proof -
  let ?S = "NewService (mysqlStore M C) (redisTokenCache R) tm J B now"
  have H: "haSvc (account_handler R M now producer tm J B C j) = ?S" by (simp add: account_handler_def NewHandler_def)
  have S: "seCache ?S = redisTokenCache R" by (simp add: NewService_def)
  obtain r1 s1 where p: "Parse ?S (bearerToken r) s = (r1, s1)" by (cases "Parse ?S (bearerToken r) s")
  note P = Parse_frame [OF p]
  show ?thesis
  proof (cases "bearerToken r \<noteq> [] \<and> (\<exists>c. r1 = Inr c \<and> clType c = TokenTypeAccess)")
    case False
    then have "s' = s \<or> s' = s1" using assms(1) p H by (auto simp: jwtAuth_def Let_def split: sum.splits if_splits)
    with P show ?thesis by auto
  next
    case True
    then obtain c where c: "bearerToken r \<noteq> []" "r1 = Inr c" "clType c = TokenTypeAccess" by blast
    obtain r2 s2 where d: "ask (tcGetDigest (redisTokenCache R) (clUID c)) s1 = (r2, s2)" by (cases "ask (tcGetDigest (redisTokenCache R) (clUID c)) s1")
    note D = GetDigest_frame [OF conjunct1 [OF askD [OF d]]]
    have "s' = s2 \<or> f (clUID c) r s2 = (out, s')" using assms(1) p c d H S by (auto simp: jwtAuth_def Let_def split: sum.splits if_splits)
    moreover have "authenticated J tm r (clUID c)" using P c by (auto simp: authenticated_def)
    moreover have "sTabs (st (acWorld s2)) = sTabs (st (acWorld s))" using P D by simp
    ultimately show ?thesis using assms(2) [of "clUID c" r s2 out s'] unfolding authorised_def by (metis allowed.same option.inject)
  qed
qed

lemma account_authorised:
  "handleRegister (account_handler R M now producer tm J B C j) r s = (out, s') \<Longrightarrow> authorised C J tm r (sTabs (st (acWorld s))) (sTabs (st (acWorld s')))"
  "handleLogin (account_handler R M now producer tm J B C j) r s = (out, s') \<Longrightarrow> authorised C J tm r (sTabs (st (acWorld s))) (sTabs (st (acWorld s')))"
  "handleVerify (account_handler R M now producer tm J B C j) r s = (out, s') \<Longrightarrow> authorised C J tm r (sTabs (st (acWorld s))) (sTabs (st (acWorld s')))"
proof -
  let ?h = "account_handler R M now producer tm J B C j" and ?S = "NewService (mysqlStore M C) (redisTokenCache R) tm J B now"
  have H: "haSvc ?h = ?S" by (simp add: account_handler_def NewHandler_def)
  show "authorised C J tm r (sTabs (st (acWorld s))) (sTabs (st (acWorld s')))" if "handleRegister ?h r s = (out, s')"
  proof (cases "decodeBody (jiRegister (haJson ?h)) r")
    case (Inr q)
    obtain o1 s1 where reg: "Register ?S q s = (o1, s1)" by (cases "Register ?S q s")
    have "s' = s1" using that Inr reg H by (auto simp: handleRegister_def split: outcome.splits sum.splits)
    with Register_cases [OF reg] show ?thesis
      unfolding authorised_def by (metis allowed.same allowed.user option.distinct(1))
  qed (use that in \<open>simp add: handleRegister_def\<close>)
  show "authorised C J tm r (sTabs (st (acWorld s))) (sTabs (st (acWorld s')))" if "handleLogin ?h r s = (out, s')"
  proof (cases "decodeBody (jiLogin (haJson ?h)) r")
    case (Inr q)
    obtain r1 s1 where l: "Login ?S q s = (r1, s1)" by (cases "Login ?S q s")
    have "s' = s1" using that Inr l H by (auto simp: handleLogin_def split: sum.splits)
    with Login_spec [OF l] show ?thesis by simp
  qed (use that in \<open>simp add: handleLogin_def\<close>)
  show "authorised C J tm r (sTabs (st (acWorld s))) (sTabs (st (acWorld s')))" if "handleVerify ?h r s = (out, s')"
  proof (cases "decodeBody (jiVerify (haJson ?h)) r")
    case (Inr q)
    obtain v err s1 where l: "Verify ?S q s = ((v, err), s1)" by (metis prod.exhaust)
    have "s' = s1" using that Inr l H by (auto simp: handleVerify_def split: option.splits if_splits)
    with Verify_spec [OF l] show ?thesis by simp
  qed (use that in \<open>simp add: handleVerify_def\<close>)
qed

lemma mux_authorised:
  assumes "mux_serve routes known r s = (out, s')"
    and "\<forall>(m, p, f) \<in> set routes. \<forall>r s out s'. f r s = (out, s') \<longrightarrow> authorised C J tm r (sTabs (st (acWorld s))) (sTabs (st (acWorld s')))"
  shows "authorised C J tm r (sTabs (st (acWorld s))) (sTabs (st (acWorld s')))"
  using assms
proof (induction routes known r s rule: mux_serve.induct)
  case (2 m p f routes known r s)
  show ?case
  proof (cases "match_path p (hqPath r)")
    case None
    with 2 show ?thesis by simp
  next
    case (Some vs)
    show ?thesis
    proof (cases "hqMethod r = m \<or> m = ''GET'' \<and> hqMethod r = ''HEAD''")
      case True
      then have "f (r\<lparr>hqValues := vs\<rparr>) s = (out, s')" using 2(3) Some by auto
      moreover have "\<forall>r s out s'. f r s = (out, s') \<longrightarrow> authorised C J tm r (sTabs (st (acWorld s))) (sTabs (st (acWorld s')))"
        using 2(4) by simp
      ultimately have "authorised C J tm (r\<lparr>hqValues := vs\<rparr>) (sTabs (st (acWorld s))) (sTabs (st (acWorld s')))" by blast
      then show ?thesis by simp
    next
      case False
      with 2 Some show ?thesis by auto
    qed
  qed
qed simp

lemma serve_authorised:
  assumes "serve (account_handler R M now producer tm J B C j) r s = (out, s')"
  shows "authorised C J tm r (sTabs (st (acWorld s))) (sTabs (st (acWorld s')))"
proof -
  let ?h = "account_handler R M now producer tm J B C j"
  obtain o1 s1 where m: "mux_serve (NewRouter ?h) False r s = (o1, s1)" by (cases "mux_serve (NewRouter ?h) False r s")
  have grp: "allowed C (Some uid) (sTabs (st (acWorld s))) (sTabs (st (acWorld s')))"
    if "g uid r s = (out, s')" "g \<in> {handleCreateGroup ?h, handleListMembers ?h, handleAddMember ?h, handleRemoveMember ?h}" for g uid r s out s'
    using that create_allowed list_allowed add_allowed remove_allowed unfolding account_handler_def by auto
  have jwt: "authorised C J tm r (sTabs (st (acWorld s))) (sTabs (st (acWorld s')))"
    if "jwtAuth ?h g r s = (out, s')" "g \<in> {handleCreateGroup ?h, handleListMembers ?h, handleAddMember ?h, handleRemoveMember ?h}" for g r s out s'
    by (rule jwtAuth_authorised [OF that(1)]) (rule grp [OF _ that(2)])
  have "s' = s1" using assms m by (auto simp: serve_def recoverMiddleware_def split: outcome.splits)
  with mux_authorised [OF m, of C tm] account_authorised jwt show ?thesis
    by (auto simp: NewRouter_def)
qed

end

section \<open>A service to run\<close>

definition demo_bcrypt :: "mem bcrypt" where
  "demo_bcrypt = \<lparr>bcGenerate = \<lambda>p c m. (Inr (''#'' @ p), m), bcCompare = \<lambda>h p. if h = ''#'' @ p then None else Some (Err ''mismatch'')\<rparr>"

text \<open>Tokens that show their claims, \<open>a1:2:3\<close> for an access token of user 1.\<close>

definition demo_jwt :: jwt where
  "demo_jwt =
    \<lparr>jwSign = \<lambda>secret c.
       if clType c \<in> {TokenTypeAccess, TokenTypeRefresh} \<and> clIss c = ''linkim-account'' \<and> int64 (clUID c) \<and> int64 (clExp c) \<and> int64 (clIat c)
       then Inr (hd (clType c) # format_int (clUID c) @ '':'' @ format_int (clExp c) @ '':'' @ format_int (clIat c))
       else Inl (Err ''sign''),
     jwParse = \<lambda>ms key n t.
       (case key ''HS256'' of
          Inl e \<Rightarrow> Inl e
        | Inr k \<Rightarrow>
            (case map parse_int (split_on CHR '':'' (tl t)) of
               [Inr u, Inr e, Inr i] \<Rightarrow>
                 if n < e then Inr \<lparr>clUID = u, clType = (if hd t = CHR ''a'' then TokenTypeAccess else TokenTypeRefresh), clExp = e, clIat = i,
                     clIss = ''linkim-account''\<rparr>
                 else Inl (Err ''expired'')
             | _ \<Rightarrow> Inl (Err ''token'')))\<rparr>"

lemma demo_jwt_signed:
  assumes "jwSign demo_jwt secret c = Inr t"
  shows "if n < clExp c then jwParse demo_jwt [''HS256''] (hmac_key secret) n t = Inr c
    else isl (jwParse demo_jwt [''HS256''] (hmac_key secret) n t)"
proof -
  from assms have t: "t = hd (clType c) # format_int (clUID c) @ '':'' @ format_int (clExp c) @ '':'' @ format_int (clIat c)"
      and c: "clType c \<in> {TokenTypeAccess, TokenTypeRefresh}" "clIss c = ''linkim-account''" "int64 (clUID c)" "int64 (clExp c)" "int64 (clIat c)"
    by (auto simp: demo_jwt_def split: if_splits)
  have "split_on CHR '':'' (tl t) = [format_int (clUID c), format_int (clExp c), format_int (clIat c)]"
    by (simp add: t split_on_format_int)
  with c show ?thesis
    by (cases c) (auto simp: demo_jwt_def t hmac_key_def parse_int_format TokenTypeAccess_def TokenTypeRefresh_def)
qed

interpretation mema: account_deps mem_redis mem_mysql mem_kafka mem_now mem_st demo_bcrypt demo_jwt
  by (intro account_deps.intro account_deps_axioms.intro mem.services_axioms demo_jwt_signed)
    (auto simp: demo_bcrypt_def)

text \<open>Requests one after the other; what they answer and where they leave the service.\<close>

fun serve_all :: "'w Handler \<Rightarrow> request list \<Rightarrow> 'w acct \<Rightarrow> response outcome list \<times> 'w acct" where
  "serve_all h [] s = ([], s)"
| "serve_all h (r # rs) s = (let (out, s1) = serve h r s; (outs, s2) = serve_all h rs s1 in (out # outs, s2))"

lemma Login_errors:
  "Login S q s = (Inl e, s') \<Longrightarrow> e \<in> {BizError AccountBadParam, BizError CodeUnauthorized, BizError CodeStorageError, BizError CodeRedisError} \<and>
     (e = BizError AccountBadParam \<longrightarrow> lqUsername q = [] \<or> lqPassword q = [])"
  by (auto simp: Login_def wrapStorage_def account_codes split: if_splits sum.splits prod.splits)

lemma select_inserted:
  assumes "insert_user C u T = Inr T'" and "C (uName u) = C name"
  shows "select_user C name T = None \<and> select_user C name T' = Some u"
proof -
  have "List.find (\<lambda>v. C (uName v) = C name) (tUser T) = None" "T' = T\<lparr>tUser := tUser T @ [u]\<rparr>"
    using assms by (auto simp: insert_user_def find_None_iff split: if_splits)
  with assms(2) show ?thesis by (simp add: select_user_def find_append)
qed

definition demo_json :: json_in where
  "demo_json =
    \<lparr>jiRegister = \<lambda>b big. Inr \<lparr>rqUsername = ''alice'', rqPassword = ''password'', rqNickname = ''Al''\<rparr>,
     jiLogin = \<lambda>b big. Inr \<lparr>lqUsername = ''alice'', lqPassword = ''password''\<rparr>, jiVerify = \<lambda>b big. Inl (Err ''json''),
     jiCreate = \<lambda>b big. Inr \<lparr>cgName = ''team'', cgMemberUIDs = [2, 3]\<rparr>, jiAdd = \<lambda>b big. Inr 5\<rparr>"

definition demo_tm :: TokenManager where
  "demo_tm = NewTokenManager ''secret'' 7200000 604800000"

definition demo_acct :: "mem acct" where
  "demo_acct = \<lparr>acNode = demo_node, acEvents = [], acWorld = demo_world []\<rparr>"

definition demo_service :: "mem Service" where
  "demo_service = NewService (mysqlStore mem_mysql (map lower_char)) (redisTokenCache mem_redis) demo_tm demo_jwt demo_bcrypt mem_now"

definition demo_handler :: "mem Handler" where
  "demo_handler = account_handler mem_redis mem_mysql mem_now (Some (Send demo_entropy mem_kafka)) demo_tm demo_jwt demo_bcrypt (map lower_char) demo_json"

definition demo_request :: "string \<Rightarrow> string list \<Rightarrow> request" where
  "demo_request m p = \<lparr>hqMethod = m, hqPath = p, hqAuth = ''Bearer a1:1893456000:0'', hqBody = [], hqValues = []\<rparr>"

lemma demo_register:
  "\<exists>uid s1. Register demo_service \<lparr>rqUsername = ''alice'', rqPassword = ''password'', rqNickname = ''Al''\<rparr> demo_acct = (Ret (Inr uid), s1) \<and>
     mmFaults (acWorld s1) = []"
  by (simp add: Register_def demo_service_def NewService_def validateRegister_def usernamePattern_def mysqlStore_def mem_mysql_def mem_call_def
      ask_def demo_acct_def demo_world_def demo_tables_def select_user_def insert_user_def demo_bcrypt_def demo_node_def Next_def mem_now_def)

lemma demo_typed: "account_typed C (sTabs (mem_st (acWorld demo_acct)))"
  by (simp add: account_typed_def demo_acct_def demo_world_def mem_st_def demo_tables_def member_key_def roleMember_def roleOwner_def)

lemma Digest_nonempty: "Digest t \<noteq> []"
proof -
  have "length (Digest t) = 64" by (simp add: Digest_def EncodeToString_length length_Sum256)
  then show ?thesis by auto
qed

section \<open>Properties\<close>

text \<open>
  C7: authorisation. Whatever request arrives and however the stores fail, the tables change only as the
  relation \<open>allowed\<close> permits: a valid new user is added, a user creates a group of at most 500 with
  themselves as owner, an administrator of an existing group adds a member, an administrator removes
  a member or a member leaves; and for the group changes the user is the one of an access token the JWT
  library accepts under the service's key.
\<close>

theorem account_requests_authorised:
  assumes "account_deps R M P now st B J"
    and "serve (account_handler R M now producer tm J B C j) r s = (out, s')"
  shows "\<exists>who. allowed C who (sTabs (st (acWorld s))) (sTabs (st (acWorld s'))) \<and> (\<forall>uid. who = Some uid \<longrightarrow> authenticated J tm r uid)"
  using account_deps.serve_authorised [OF assms] by (simp add: authorised_def)

theorem account_requests_authorised_witness:
  "\<exists>out s' who. serve demo_handler (demo_request ''DELETE'' [''api'', ''v1'', ''groups'', ''7'', ''members'', ''2'']) demo_acct = (out, s') \<and>
    allowed (map lower_char) who (sTabs (mem_st (acWorld demo_acct))) (sTabs (mem_st (acWorld s')))"
proof -
  let ?r = "demo_request ''DELETE'' [''api'', ''v1'', ''groups'', ''7'', ''members'', ''2'']"
  obtain out s' where s: "serve demo_handler ?r demo_acct = (out, s')" by (cases "serve demo_handler ?r demo_acct")
  from account_requests_authorised [OF mema.account_deps_axioms s [unfolded demo_handler_def]] s show ?thesis by blast
qed

text \<open>
  The types of the account tables. Over any sequence of requests user ids, user names (up to the
  collation), group ids and memberships stay unique, names keep their lengths and character set, and
  every role is one of the three.
\<close>

theorem account_tables_typed:
  assumes "account_deps R M P now st B J" and "account_typed C (sTabs (st (acWorld s)))"
    and "serve_all (account_handler R M now producer tm J B C j) rs s = (outs, s')"
  shows "account_typed C (sTabs (st (acWorld s')))"
  using assms(2,3)
proof (induction rs arbitrary: s outs)
  case (Cons r rs)
  let ?h = "account_handler R M now producer tm J B C j"
  obtain out s1 where r: "serve ?h r s = (out, s1)" by (cases "serve ?h r s")
  obtain outs2 s2 where rs: "serve_all ?h rs s1 = (outs2, s2)" by (cases "serve_all ?h rs s1")
  from account_deps.serve_authorised [OF assms(1) r] Cons.prems(1) have "account_typed C (sTabs (st (acWorld s1)))"
    unfolding authorised_def using allowed_typed by blast
  with Cons.IH rs Cons.prems(2) r show ?case by simp
qed simp

theorem account_tables_typed_witness:
  "\<exists>outs s'. serve_all demo_handler [demo_request ''POST'' [''api'', ''v1'', ''register''], demo_request ''POST'' [''api'', ''v1'', ''groups'']] demo_acct = (outs, s') \<and>
    account_typed (map lower_char) (sTabs (mem_st (acWorld s')))"
proof -
  let ?rs = "[demo_request ''POST'' [''api'', ''v1'', ''register''], demo_request ''POST'' [''api'', ''v1'', ''groups'']]"
  obtain outs s' where s: "serve_all demo_handler ?rs demo_acct = (outs, s')" by (cases "serve_all demo_handler ?rs demo_acct")
  from account_tables_typed [OF mema.account_deps_axioms demo_typed s [unfolded demo_handler_def]] s show ?thesis by blast
qed

text \<open>
  C21: registration and login fit together. A registration that succeeds takes a name nobody had, and as
  long as the tables stay, a login with its name and password is answered with the new user and
  otherwise only with a storage or Redis error, never with a refusal.
\<close>

theorem register_then_login:
  assumes "account_deps R M P now st B J"
    and "Register (NewService (mysqlStore M C) (redisTokenCache R) tm J B now) q s = (Ret (Inr uid), s1)"
    and "sTabs (st (acWorld s2)) = sTabs (st (acWorld s1))"
    and "Login (NewService (mysqlStore M C) (redisTokenCache R) tm J B now) \<lparr>lqUsername = rqUsername q, lqPassword = rqPassword q\<rparr> s2 = (r, s3)"
  shows "select_user C (rqUsername q) (sTabs (st (acWorld s))) = None \<and>
    ((\<exists>res. r = Inr res \<and> lrUID res = uid) \<or> r = Inl (BizError CodeStorageError) \<or> r = Inl (BizError CodeRedisError))"
proof -
  let ?q = "\<lparr>lqUsername = rqUsername q, lqPassword = rqPassword q\<rparr>"
  from account_deps.Register_cases [OF assms(1,2)] obtain hash where v: "validateRegister q = None"
      and pw: "bcCompare B hash (rqPassword q) = None"
      and ins: "insert_user C \<lparr>uId = uid, uName = rqUsername q, uHash = hash, uNick = rqNickname q\<rparr> (sTabs (st (acWorld s))) = Inr (sTabs (st (acWorld s1)))"
    by auto
  have sel: "select_user C (rqUsername q) (sTabs (st (acWorld s))) = None"
      "select_user C (rqUsername q) (sTabs (st (acWorld s2))) = Some \<lparr>uId = uid, uName = rqUsername q, uHash = hash, uNick = rqNickname q\<rparr>"
    using select_inserted [OF ins] assms(3) by auto
  have ne: "rqUsername q \<noteq> []" "rqPassword q \<noteq> []" using v by (auto simp: validateRegister_def split: if_splits)
  note L = account_deps.Login_spec [OF assms(1,4)]
  show ?thesis
  proof (cases r)
    case (Inl e)
    with Login_errors [of _ ?q] assms(4) ne have "e \<in> {BizError CodeUnauthorized, BizError CodeStorageError, BizError CodeRedisError}" by fastforce
    moreover have "e \<noteq> BizError CodeUnauthorized" using L Inl sel(2) pw by auto
    ultimately show ?thesis using Inl sel(1) by auto
  next
    case (Inr res)
    with L sel show ?thesis by auto
  qed
qed

theorem register_then_login_witness:
  "\<exists>uid s1 r s3. Register demo_service \<lparr>rqUsername = ''alice'', rqPassword = ''password'', rqNickname = ''Al''\<rparr> demo_acct = (Ret (Inr uid), s1) \<and>
    Login demo_service \<lparr>lqUsername = ''alice'', lqPassword = ''password''\<rparr> s1 = (r, s3) \<and> r \<noteq> Inl (BizError CodeUnauthorized)"
proof -
  let ?q = "\<lparr>rqUsername = ''alice'', rqPassword = ''password'', rqNickname = ''Al''\<rparr>"
  obtain uid s1 where reg: "Register demo_service ?q demo_acct = (Ret (Inr uid), s1)" using demo_register by blast
  obtain r s3 where l: "Login demo_service \<lparr>lqUsername = ''alice'', lqPassword = ''password''\<rparr> s1 = (r, s3)"
    by (cases "Login demo_service \<lparr>lqUsername = ''alice'', lqPassword = ''password''\<rparr> s1")
  have "r \<noteq> Inl (BizError CodeUnauthorized)"
    using register_then_login [OF mema.account_deps_axioms reg [unfolded demo_service_def] refl, of r s3] l [unfolded demo_service_def]
    by (auto simp: account_codes)
  with reg l show ?thesis by blast
qed

text \<open>
  C20: the life of a token. After a login, while its digest is in place, the access token verifies as the
  user until the second it expires (or Redis fails) and not later; the refresh token never does; and a
  token with another digest does not verify as that user.
\<close>

theorem login_token_verifies:
  assumes "account_deps R M P now st B J"
    and "Login (NewService (mysqlStore M C) (redisTokenCache R) tm J B now) q s = (Inr res, s1)"
    and "sKeys (st (acWorld s2)) (TokenKey (lrUID res)) = sKeys (st (acWorld s1)) (TokenKey (lrUID res))"
    and "Verify (NewService (mysqlStore M C) (redisTokenCache R) tm J B now) token s2 = ((v, err), s3)"
  shows "(token = lrAccessToken res \<longrightarrow> (if sLast (st (acWorld s3)) div 1000 < lrExpireAt res
      then v = \<lparr>vrUID = lrUID res, vrValid = True\<rparr> \<or> err = Some (BizError CodeRedisError) else \<not> vrValid v)) \<and>
    (token = lrRefreshToken res \<longrightarrow> \<not> vrValid v) \<and>
    (Digest token \<noteq> Digest (lrAccessToken res) \<longrightarrow> \<not> (vrValid v \<and> vrUID v = lrUID res))"
proof -
  from account_deps.Login_spec [OF assms(1,2)] obtain ca cr where
      ca: "jwSign J (tmSecret tm) ca = Inr (lrAccessToken res)" "clUID ca = lrUID res" "clType ca = TokenTypeAccess" "clExp ca = lrExpireAt res"
      and cr: "jwSign J (tmSecret tm) cr = Inr (lrRefreshToken res)" "clType cr = TokenTypeRefresh"
      and key: "sKeys (st (acWorld s1)) (TokenKey (lrUID res)) = Some (VStr (Digest (lrAccessToken res)))" by blast
  have k2: "sKeys (st (acWorld s2)) (TokenKey (clUID ca)) = Some (VStr (Digest (lrAccessToken res)))" using assms(3) key ca(2) by simp
  note V = account_deps.Verify_spec [OF assms(1,4)]
  have "if sLast (st (acWorld s3)) div 1000 < lrExpireAt res
      then v = \<lparr>vrUID = lrUID res, vrValid = True\<rparr> \<or> err = Some (BizError CodeRedisError) else \<not> vrValid v" if "token = lrAccessToken res"
    using account_deps.Verify_signed [OF assms(1,4), of ca] that ca k2 by (auto split: if_splits)
  moreover have "\<not> vrValid v" if "token = lrRefreshToken res"
    using V account_deps.signed_claims [OF assms(1) cr(1)] that cr(2) by (auto simp: TokenTypeAccess_def TokenTypeRefresh_def)
  moreover have "\<not> (vrValid v \<and> vrUID v = lrUID res)" if "Digest token \<noteq> Digest (lrAccessToken res)"
    using V key assms(3) that Digest_nonempty by auto
  ultimately show ?thesis by blast
qed

definition demo_user_acct :: "mem acct" where
  "demo_user_acct = \<lparr>acNode = demo_node, acEvents = [],
     acWorld = (demo_world [])\<lparr>mmTabs := demo_tables\<lparr>tUser := [\<lparr>uId = 1, uName = ''alice'', uHash = ''#password'', uNick = ''Al''\<rparr>]\<rparr>\<rparr>\<rparr>"

lemma demo_login_ok:
  "\<exists>res s1. Login demo_service \<lparr>lqUsername = ''alice'', lqPassword = ''password''\<rparr> demo_user_acct = (Inr res, s1)"
  by (simp add: Login_def demo_service_def NewService_def mysqlStore_def mem_mysql_def mem_call_def ask_def demo_user_acct_def demo_world_def
      demo_tables_def select_user_def demo_bcrypt_def Issue_def mem_now_def demo_jwt_def demo_tm_def NewTokenManager_def redisTokenCache_def
      mem_redis_def int64_iff TokenTypeAccess_def TokenTypeRefresh_def lower_char_def)

theorem login_token_verifies_witness:
  "\<exists>res s1 v err s3. Login demo_service \<lparr>lqUsername = ''alice'', lqPassword = ''password''\<rparr> demo_user_acct = (Inr res, s1) \<and>
    Verify demo_service (lrRefreshToken res) s1 = ((v, err), s3) \<and> \<not> vrValid v"
proof -
  obtain res s1 where l: "Login demo_service \<lparr>lqUsername = ''alice'', lqPassword = ''password''\<rparr> demo_user_acct = (Inr res, s1)"
    using demo_login_ok by blast
  obtain v err s3 where v: "Verify demo_service (lrRefreshToken res) s1 = ((v, err), s3)" by (metis prod.exhaust)
  from login_token_verifies [OF mema.account_deps_axioms l [unfolded demo_service_def] refl v [unfolded demo_service_def]] l v show ?thesis by blast
qed

end
