(* ===== verification/Processes.thy ===== *)
theory Processes
  imports Startup LogicProcess AccountRun JobStore
begin

text \<open>
  The mains of \<^verbatim>\<open>cmd/account\<close> and \<^verbatim>\<open>cmd/logic\<close>: what is built from the configuration and in which order,
  which failure ends the process before it serves, the calls it serves until a signal or a failure of
  its listener, and what it closes. \<open>Fatal\<close> ends a Go process without running its deferred calls. The
  libraries behind the packages are the record \<open>host\<close>, with what is relied on in the locale \<open>hosting\<close>.
  Shown: the invariants proved of single calls hold over the whole life of a process, from any start.
\<close>

section \<open>Building blocks\<close>

datatype fatal =
    ConfigFailed error
  | LoggerFailed error
  | SecretEmpty
  | AdvertiseAddrEmpty
  | MySQLFailed error
  | RedisUnreachable error
  | NodeFailed error
  | LogicClientFailed error
  | AliveFailed error
  | ListenFailed error
  | ServingFailed error
  | WorkerFailed error

datatype exit = Fatal fatal | Bye | Running

text \<open>What the deferred calls and the last lines of a main release.\<close>

datatype resource = Logger | MySQL | Redis | LogicConn | KafkaWriter | KafkaReader string

text \<open>The writer \<open>NewProducer\<close> configures; a balancer, the number of acknowledgements (all is -1), a codec.\<close>

datatype balancer = HashBalancer

datatype compression = Lz4

record writer =
  kwAddr :: "string list"
  kwBalancer :: balancer
  kwRequiredAcks :: int
  kwCompression :: compression
  kwBatchTimeout :: int
  kwAllowAutoTopicCreation :: bool
  kwClientID :: "string option"

definition NewProducer :: "KafkaConfig \<Rightarrow> writer" where
  "NewProducer cfg =
     \<lparr>kwAddr = gkBrokers cfg, kwBalancer = HashBalancer, kwRequiredAcks = -1, kwCompression = Lz4,
      kwBatchTimeout = 5 * (Second div 1000), kwAllowAutoTopicCreation = False,
      kwClientID = (if gkClientID cfg \<noteq> [] then Some (gkClientID cfg) else None)\<rparr>"

record ('w, 'f, 'l) host =
  hoViper :: "'f viper_calls"
  hoLevel :: "string \<Rightarrow> 'l result"
  hoInfo :: 'l
  hoConnect :: "string \<Rightarrow> ('w, 'w mysql) call"
  hoPool :: "int \<Rightarrow> int \<Rightarrow> int \<Rightarrow> 'w mysql \<Rightarrow> 'w mysql"
  hoRedis :: "string \<Rightarrow> string \<Rightarrow> int \<Rightarrow> 'w redis"
  hoPing :: "'w redis \<Rightarrow> ('w, unit) call"
  hoWriter :: "writer \<Rightarrow> 'w kwriter"
  hoEntropy :: "'w entropy"
  hoNow :: "'w \<Rightarrow> int \<times> 'w"
  hoListen :: "int \<Rightarrow> ('w, unit) call"
  hoShutdown :: "('w, unit) call"
  hoClose :: "resource \<Rightarrow> ('w, unit) call"

text \<open>\<open>if err != nil\<close> followed by \<open>Fatal\<close>.\<close>

definition must :: "(error \<Rightarrow> fatal) \<Rightarrow> 'a result \<times> 'w \<Rightarrow> ('a \<Rightarrow> 'w \<Rightarrow> (fatal + 'b) \<times> 'w) \<Rightarrow> (fatal + 'b) \<times> 'w" where
  "must why res k = (case res of (Inl e, w) \<Rightarrow> (Inl (why e), w) | (Inr x, w) \<Rightarrow> k x w)"

text \<open>The first lines of every main: the configuration and the logger.\<close>

definition configured :: "('w, 'f, 'l) host \<Rightarrow> string \<Rightarrow> (Config \<Rightarrow> 'w \<Rightarrow> (fatal + 'b) \<times> 'w) \<Rightarrow> 'w \<Rightarrow> (fatal + 'b) \<times> 'w" where
  "configured H path k w =
     must ConfigFailed (Load (hoViper H) path, w) (\<lambda>cfg w.
     must LoggerFailed (NewWithWriter (hoLevel H) (hoInfo H) (cLog cfg), w) (\<lambda>logger w. k cfg w))"

definition host_redis :: "('w, 'f, 'l) host \<Rightarrow> Config \<Rightarrow> 'w redis" where
  "host_redis H cfg = redisx_New (hoRedis H) (cRedis cfg)"

definition host_writer :: "('w, 'f, 'l) host \<Rightarrow> Config \<Rightarrow> 'w kwriter" where
  "host_writer H cfg = hoWriter H (NewProducer (cKafka cfg))"

text \<open>Errors of closing are logged or ignored.\<close>

definition release :: "('w, 'f, 'l) host \<Rightarrow> resource list \<Rightarrow> 'w \<Rightarrow> 'w" where
  "release H rs w = fold (\<lambda>r w. snd (hoClose H r w)) rs w"

text \<open>
  A server runs calls until its listener fails or a signal arrives; \<open>Signal qs\<close> has the calls under way
  that the graceful stop lets finish. The answers come with the way it ended, \<open>None\<close> while it runs.
\<close>

datatype 'q pevent = Request 'q | ListenerFailed error | Signal "'q list"

fun answer_all :: "('q \<Rightarrow> 's \<Rightarrow> 'a \<times> 's) \<Rightarrow> 'q list \<Rightarrow> 's \<Rightarrow> 'a list \<times> 's" where
  "answer_all step [] s = ([], s)"
| "answer_all step (q # qs) s = (let (a, s1) = step q s; (as, s2) = answer_all step qs s1 in (a # as, s2))"

fun serve_until :: "('q \<Rightarrow> 's \<Rightarrow> 'a \<times> 's) \<Rightarrow> 'q pevent list \<Rightarrow> 's \<Rightarrow> 'a list \<times> exit \<times> 's" where
  "serve_until step [] s = ([], Running, s)"
| "serve_until step (Request q # evs) s =
     (let (a, s1) = step q s; (as, x, s2) = serve_until step evs s1 in (a # as, x, s2))"
| "serve_until step (ListenerFailed e # evs) s = ([], Fatal (ServingFailed e), s)"
| "serve_until step (Signal qs # evs) s = (let (as, s1) = answer_all step qs s in (as, Bye, s1))"

section \<open>The account process\<close>

text \<open>Durations of the configuration are nanoseconds, those of the token manager milliseconds.\<close>

definition millis :: "int \<Rightarrow> int" where
  "millis d = d div 1000000"

definition account_server ::
  "('w, 'f, 'l) host \<Rightarrow> jwt \<Rightarrow> 'w bcrypt \<Rightarrow> (string \<Rightarrow> string) \<Rightarrow> json_in \<Rightarrow> Config \<Rightarrow> 'w mysql \<Rightarrow> 'w Handler" where
  "account_server H J B C j cfg db =
     (let tm = NewTokenManager (gjSecret (cJWT cfg)) (millis (gjAccessTTL (cJWT cfg))) (millis (gjRefreshTTL (cJWT cfg)));
          producer = Send (hoEntropy H) (host_writer H cfg)
      in account_handler (host_redis H cfg) db (hoNow H) (Some producer) tm J B C j)"

definition account_boot ::
  "('w, 'f, 'l) host \<Rightarrow> jwt \<Rightarrow> 'w bcrypt \<Rightarrow> (string \<Rightarrow> string) \<Rightarrow> json_in \<Rightarrow> string \<Rightarrow> 'w \<Rightarrow> (fatal + 'w Handler \<times> 'w acct) \<times> 'w" where
  "account_boot H J B C j path =
     configured H path (\<lambda>cfg w.
       if gjSecret (cJWT cfg) = [] then (Inl SecretEmpty, w)
       else must MySQLFailed (mysqlx_New (hoConnect H) (hoPool H) (cMySQL cfg) w) (\<lambda>db w.
            must RedisUnreachable (hoPing H (host_redis H cfg) w) (\<lambda>_ w.
            must NodeFailed (NewNode (gsNodeID (cServer cfg)), w) (\<lambda>ids w.
              (Inr (account_server H J B C j cfg db, \<lparr>acNode = ids, acEvents = [], acWorld = w\<rparr>), w)))))"

text \<open>A request, or one of the goroutines that send group events.\<close>

datatype account_call = ACall request | AEvent nat

definition account_step :: "'w Handler \<Rightarrow> account_call \<Rightarrow> 'w acct \<Rightarrow> response outcome option \<times> 'w acct" where
  "account_step h q s =
     (case q of
        ACall r \<Rightarrow> (let (out, s1) = serve h r s in (Some out, s1))
      | AEvent i \<Rightarrow>
          (case haGroups h of
             Some G \<Rightarrow>
               if i < length (acEvents s)
               then (None, s\<lparr>acEvents := take i (acEvents s) @ drop (Suc i) (acEvents s), acWorld := run_event G (acEvents s ! i) (acWorld s)\<rparr>)
               else (None, s)
           | None \<Rightarrow> (None, s)))"

text \<open>The producer is not closed, and events still to be sent are dropped.\<close>

definition account_main ::
  "('w, 'f, 'l) host \<Rightarrow> jwt \<Rightarrow> 'w bcrypt \<Rightarrow> (string \<Rightarrow> string) \<Rightarrow> json_in \<Rightarrow> string \<Rightarrow> account_call pevent list \<Rightarrow> 'w \<Rightarrow>
   (exit \<times> response outcome option list) \<times> 'w" where
  "account_main H J B C j path evs w =
     (case account_boot H J B C j path w of
        (Inl f, w1) \<Rightarrow> ((Fatal f, []), w1)
      | (Inr (h, s), w1) \<Rightarrow>
          (case serve_until (account_step h) evs s of
             (outs, Bye, s1) \<Rightarrow> ((Bye, outs), release H [Redis, MySQL, Logger] (snd (hoShutdown H (acWorld s1))))
           | (outs, x, s1) \<Rightarrow> ((x, outs), acWorld s1)))"

section \<open>The logic process\<close>

definition logic_server :: "('w, 'f, 'l) host \<Rightarrow> 'w HTTPVerifier \<Rightarrow> Config \<Rightarrow> 'w mysql \<Rightarrow> 'w Server" where
  "logic_server H v cfg db =
     NewServer (host_redis H cfg) db (hoEntropy H) (host_writer H cfg) (HTTPVerifier_Verify (v\<lparr>hvAddr := gaAddr (cAccount cfg)\<rparr>))
       (MySQLSyncStore db) (hoNow H)"

definition logic_boot ::
  "('w, 'f, 'l) host \<Rightarrow> 'w HTTPVerifier \<Rightarrow> string \<Rightarrow> 'w \<Rightarrow> (fatal + 'w Server \<times> Node) \<times> 'w" where
  "logic_boot H v path =
     configured H path (\<lambda>cfg w.
       must RedisUnreachable (hoPing H (host_redis H cfg) w) (\<lambda>_ w.
       must MySQLFailed (mysqlx_New (hoConnect H) (hoPool H) (cMySQL cfg) w) (\<lambda>db w.
       must NodeFailed (NewNode (gsNodeID (cServer cfg)), w) (\<lambda>ids w.
       must ListenFailed (hoListen H (gsGRPCPort (cServer cfg)) w) (\<lambda>_ w. (Inr (logic_server H v cfg db, ids), w))))))"

definition logic_main ::
  "('w, 'f, 'l) host \<Rightarrow> 'w HTTPVerifier \<Rightarrow> codec \<Rightarrow> string \<Rightarrow> rpc pevent list \<Rightarrow> 'w \<Rightarrow> (exit \<times> rpc_answer result outcome list) \<times> 'w" where
  "logic_main H v C path evs w =
     (case logic_boot H v path w of
        (Inl f, w1) \<Rightarrow> ((Fatal f, []), w1)
      | (Inr (srv, ids), w1) \<Rightarrow>
          (case serve_until (serve_rpc srv C) evs (ids, w1) of
             (outs, Bye, (n, w2)) \<Rightarrow> ((Bye, outs), release H [KafkaWriter, MySQL, Redis, Logger] (snd (hoShutdown H w2)))
           | (outs, x, (n, w2)) \<Rightarrow> ((x, outs), w2)))"

section \<open>Serving\<close>

text \<open>The calls a list of events makes the server answer.\<close>

fun calls_of :: "'q pevent list \<Rightarrow> 'q list" where
  "calls_of [] = []"
| "calls_of (Request q # evs) = q # calls_of evs"
| "calls_of (ListenerFailed e # evs) = []"
| "calls_of (Signal qs # evs) = qs"

text \<open>A call keeps an invariant, moves the state along a relation, and its answer is acceptable.\<close>

definition call_ok :: "('s \<Rightarrow> bool) \<Rightarrow> ('a \<Rightarrow> bool) \<Rightarrow> ('s \<Rightarrow> 's \<Rightarrow> bool) \<Rightarrow> ('q \<Rightarrow> 's \<Rightarrow> 'a \<times> 's) \<Rightarrow> 'q \<Rightarrow> bool" where
  "call_ok I ok rel step q \<longleftrightarrow> (\<forall>s a s'. I s \<longrightarrow> step q s = (a, s') \<longrightarrow> I s' \<and> ok a \<and> rel s s')"

lemma answer_all_ok:
  assumes "reflp rel" and "transp rel" and "list_all (call_ok I ok rel step) qs"
    and "I s" and "answer_all step qs s = (as, s')"
  shows "I s' \<and> list_all ok as \<and> rel s s' \<and> length as = length qs"
  using assms(3-)
proof (induction qs arbitrary: s as)
  case (Cons q qs)
  obtain a s1 where q: "step q s = (a, s1)" by (cases "step q s")
  obtain bs s2 where qs: "answer_all step qs s1 = (bs, s2)" by (cases "answer_all step qs s1")
  from Cons.prems q qs have e: "as = a # bs" "s2 = s'" by simp_all
  from Cons.prems q have 1: "I s1" "ok a" "rel s s1" by (auto simp: call_ok_def)
  from Cons.IH [OF _ 1(1) qs [unfolded e(2)]] Cons.prems have "I s' \<and> list_all ok bs \<and> rel s1 s' \<and> length bs = length qs" by simp
  with 1 e assms(2) show ?case by (auto dest: transpD)
qed (simp add: reflpD [OF assms(1)])

lemma serve_until_ok:
  assumes "reflp rel" and "transp rel" and "list_all (call_ok I ok rel step) (calls_of evs)"
    and "I s" and "serve_until step evs s = (as, x, s')"
  shows "I s' \<and> list_all ok as \<and> rel s s' \<and> length as = length (calls_of evs)"
  using assms(3-)
proof (induction evs arbitrary: s as rule: calls_of.induct)
  case (2 q evs)
  obtain a s1 where q: "step q s = (a, s1)" by (cases "step q s")
  obtain bs y s2 where qs: "serve_until step evs s1 = (bs, y, s2)" by (cases "serve_until step evs s1") auto
  from 2(2-) q qs have e: "as = a # bs" "y = x" "s2 = s'" by simp_all
  from 2(2-) q have 1: "I s1" "ok a" "rel s s1" by (auto simp: call_ok_def)
  from 2(1) [OF _ 1(1) qs [unfolded e(2,3)]] 2(2) have "I s' \<and> list_all ok bs \<and> rel s1 s' \<and> length bs = length (calls_of evs)" by simp
  with 1 e assms(2) show ?case by (auto dest: transpD)
next
  case (4 qs evs)
  obtain bs s2 where qs: "answer_all step qs s = (bs, s2)" by (cases "answer_all step qs s")
  from answer_all_ok [OF assms(1,2) 4(1) [simplified] 4(2) qs] have "I s2 \<and> list_all ok bs \<and> rel s s2 \<and> length bs = length qs" by simp
  with 4(3) qs show ?case by auto
qed (simp_all add: reflpD [OF assms(1)])

section \<open>What a process relies on\<close>

text \<open>
  Connecting, listening, shutting down, closing and reading random bytes change neither tables nor keys
  nor topics, and the clients the libraries construct behave as the locale \<open>timed_services\<close> says.
\<close>

locale hosting =
  fixes H :: "('w, 'f, 'l) host" and st :: "'w \<Rightarrow> svc"
  assumes connect: "\<And>dsn w r w'. hoConnect H dsn w = (r, w') \<Longrightarrow> st w' = st w"
    and ping: "\<And>rdb w r w'. hoPing H rdb w = (r, w') \<Longrightarrow> st w' = st w"
    and listen: "\<And>port w r w'. hoListen H port w = (r, w') \<Longrightarrow> st w' = st w"
    and shutdown: "\<And>w r w'. hoShutdown H w = (r, w') \<Longrightarrow> st w' = st w"
    and closing: "\<And>x w r w'. hoClose H x w = (r, w') \<Longrightarrow> st w' = st w"
    and random: "\<And>w r w'. eRead (hoEntropy H) w = (r, w') \<Longrightarrow> st w' = st w" 
      "\<And>w t w'. eUnixNano (hoEntropy H) w = (t, w') \<Longrightarrow> sTabs (st w') = sTabs (st w) \<and> sLog (st w') = sLog (st w)"
    and clients: "\<And>dsn w db w' addr pw n a b c wr. hoConnect H dsn w = (Inr db, w') \<Longrightarrow>
      timed_services (hoRedis H addr pw n) (hoPool H a b c db) (hoWriter H wr) (hoNow H) st"
begin

lemma release_st [simp]: "st (release H rs w) = st w"
proof (induction rs arbitrary: w)
  case (Cons r rs)
  from closing [of r w] have "st (snd (hoClose H r w)) = st w" by (cases "hoClose H r w") simp
  with Cons show ?case by (simp add: release_def)
qed (simp add: release_def)

lemma shutdown_st [simp]: "st (snd (hoShutdown H w)) = st w"
  using shutdown [of w] by (cases "hoShutdown H w") simp

lemma connect_from_st:
  "connect_from (hoConnect H dsn) attempt slept w = ((r, n), w') \<Longrightarrow>
     st w' = st w \<and> (\<forall>db. r = Inr db \<longrightarrow> (\<exists>u u'. hoConnect H dsn u = (Inr db, u')))"
proof (induction "hoConnect H dsn" attempt slept w rule: connect_from.induct)
  case (1 attempt slept w)
  obtain q w1 where q: "hoConnect H dsn w = (q, w1)" by (cases "hoConnect H dsn w")
  from 1 q connect [OF q] show ?case by (auto split: sum.splits if_splits)
qed

lemma mysqlx_New_st:
  assumes "mysqlx_New (hoConnect H) (hoPool H) cfg w = (r, w')"
  shows "st w' = st w \<and> (\<forall>db. r = Inr db \<longrightarrow> timed_services (hoRedis H a p n) db (hoWriter H wr) (hoNow H) st)"
proof -
  obtain q m w1 where q: "connect_from (hoConnect H (gmDSN cfg)) 1 0 w = ((q, m), w1)"
    by (cases "connect_from (hoConnect H (gmDSN cfg)) 1 0 w") auto
  from connect_from_st [OF q] assms q show ?thesis by (auto simp: mysqlx_New_def dest: clients split: sum.splits)
qed

end

text \<open>What a boot that succeeds has gone through.\<close>

lemma must_InrD: "must why p k = (Inr y, w') \<Longrightarrow> \<exists>x w. p = (Inr x, w) \<and> k x w = (Inr y, w')"
  by (auto simp: must_def split: sum.splits prod.splits)

lemma must_InlD: "must why p k = (Inl f, w') \<Longrightarrow> (\<exists>e. p = (Inl e, w') \<and> f = why e) \<or> (\<exists>x w. p = (Inr x, w) \<and> k x w = (Inl f, w'))"
  by (auto simp: must_def split: sum.splits prod.splits)

lemma must_ends: "must why (r, w) k = (y, w') \<Longrightarrow> (\<exists>e. r = Inl e \<and> y = Inl (why e) \<and> w' = w) \<or> (\<exists>x. r = Inr x \<and> k x w = (y, w'))"
  by (auto simp: must_def split: sum.splits)

lemma configured_ends:
  assumes "configured H path k w = (y, w')"
  shows "(\<exists>f. y = Inl f) \<and> w' = w \<or> (\<exists>cfg. Load (hoViper H) path = Inr cfg \<and> k cfg w = (y, w'))"
  using assms unfolding configured_def by (auto dest!: must_ends)

lemma NewNode_ok: "NewNode n = Inr ids \<Longrightarrow> node_ok ids \<and> nLastMs ids = 0 \<and> 0 \<le> n \<and> n \<le> maxNode"
  by (auto simp: NewNode_def node_ok_def maxSequence_def split: if_splits)

text \<open>A change of the tables that one of the requests is entitled to.\<close>

definition entitled :: "(string \<Rightarrow> string) \<Rightarrow> jwt \<Rightarrow> TokenManager \<Rightarrow> account_call list \<Rightarrow> tables \<Rightarrow> tables \<Rightarrow> bool" where
  "entitled C J tm qs T T' \<longleftrightarrow> (\<exists>r. ACall r \<in> set qs \<and> AccountRun.authorised C J tm r T T')"

context hosting
begin

lemma connected:
  assumes "mysqlx_New (hoConnect H) (hoPool H) (cMySQL cfg) w = (r, w')"
  shows "st w' = st w" "r = Inr db \<Longrightarrow> timed_services (host_redis H cfg) db (host_writer H cfg) (hoNow H) st"
  using mysqlx_New_st [OF assms] by (simp_all add: host_redis_def host_writer_def redisx_New_def)

lemma pinged: "must RedisUnreachable (hoPing H rdb w) k = (y, w') \<Longrightarrow> \<exists>w1. st w1 = st w \<and> ((\<exists>f. y = Inl f) \<and> w' = w1 \<or> k () w1 = (y, w'))"
  using ping [of rdb w] by (cases "hoPing H rdb w") (auto dest!: must_ends)

lemma listened: "must ListenFailed (hoListen H port w) k = (y, w') \<Longrightarrow> \<exists>w1. st w1 = st w \<and> ((\<exists>f. y = Inl f) \<and> w' = w1 \<or> k () w1 = (y, w'))"
  using listen [of port w] by (cases "hoListen H port w") (auto dest!: must_ends)

lemma opened:
  assumes "must MySQLFailed (mysqlx_New (hoConnect H) (hoPool H) (cMySQL cfg) w) k = (y, w')"
  shows "\<exists>w1. st w1 = st w \<and> ((\<exists>f. y = Inl f) \<and> w' = w1 \<or>
    (\<exists>db. timed_services (host_redis H cfg) db (host_writer H cfg) (hoNow H) st \<and> k db w1 = (y, w')))"
proof -
  obtain d w1 where d: "mysqlx_New (hoConnect H) (hoPool H) (cMySQL cfg) w = (d, w1)" by (cases "mysqlx_New (hoConnect H) (hoPool H) (cMySQL cfg) w")
  from must_ends [OF assms [unfolded d]] connected [OF d] show ?thesis by blast
qed

lemma noded: "must NodeFailed (NewNode n, w) k = (y, w') \<Longrightarrow>
    (\<exists>f. y = Inl f) \<and> w' = w \<or> (\<exists>ids. node_ok ids \<and> nLastMs ids = 0 \<and> 0 \<le> n \<and> n \<le> maxNode \<and> k ids w = (y, w'))"
  using NewNode_ok [of n] by (auto dest!: must_ends)

lemma logic_boot_ok:
  assumes "logic_boot H v path w = (y, w')"
  shows "st w' = st w \<and> (\<forall>srv ids. y = Inr (srv, ids) \<longrightarrow> node_ok ids \<and> nLastMs ids = 0 \<and>
    (\<exists>cfg db. timed_services (host_redis H cfg) db (host_writer H cfg) (hoNow H) st \<and> srv = logic_server H v cfg db))"
  using configured_ends [OF assms [unfolded logic_boot_def]] by (auto dest!: pinged opened noded listened)

lemma account_boot_ok:
  assumes "account_boot H J B C j path w = (y, w')"
  shows "st w' = st w \<and> (\<forall>h s. y = Inr (h, s) \<longrightarrow> acWorld s = w' \<and> node_ok (acNode s) \<and> acEvents s = [] \<and>
    (\<exists>cfg db. Load (hoViper H) path = Inr cfg \<and> gjSecret (cJWT cfg) \<noteq> [] \<and> 0 \<le> gsNodeID (cServer cfg) \<and> gsNodeID (cServer cfg) \<le> maxNode \<and>
      timed_services (host_redis H cfg) db (host_writer H cfg) (hoNow H) st \<and> h = account_server H J B C j cfg db))"
  using configured_ends [OF assms [unfolded account_boot_def]] by (auto dest!: pinged opened noded split: if_splits)

lemma logic_call_ok:
  assumes "\<And>url b u r u'. hvDo v url b u = (r, u') \<Longrightarrow> st u' = st u"
    and "timed_services (host_redis H cfg) db (host_writer H cfg) (hoNow H) st"
  shows "call_ok (logic_inv st) (\<lambda>out. \<exists>r. out = Ret r) (\<lambda>s s'. moved (st (snd s)) (st (snd s')))
      (serve_rpc (logic_server H v cfg db) C) q"
    and "\<not> (\<exists>req. q = RpcSendMsg req) \<Longrightarrow> call_ok (logic_inv st) (\<lambda>_. True) (\<lambda>s s'. sLog (st (snd s')) = sLog (st (snd s)))
      (serve_rpc (logic_server H v cfg db) C) q"
proof -
  have V: "st u' = st u" if "HTTPVerifier_Verify (v\<lparr>hvAddr := a\<rparr>) uid t u = (r, u')" for a uid t u r u'
    using that by (auto simp: HTTPVerifier_Verify_def Let_def dest!: assms(1) split: sum.splits option.splits prod.splits if_splits)
  have step: "logic_inv st (n', w') \<and> moved (st w) (st w') \<and> (\<exists>r. out = Ret r) \<and> (\<not> (\<exists>req. q = RpcSendMsg req) \<longrightarrow> sLog (st w') = sLog (st w))"
    if "logic_inv st (n, w)" "serve_rpc (logic_server H v cfg db) C q (n, w) = (out, n', w')" for n w out n' w'
    by (rule serve_rpc_step [OF assms(2) _ that(1) that(2) [unfolded logic_server_def]]) (rule V)
  show "call_ok (logic_inv st) (\<lambda>out. \<exists>r. out = Ret r) (\<lambda>s s'. moved (st (snd s)) (st (snd s'))) (serve_rpc (logic_server H v cfg db) C) q"
    using step by (auto simp: call_ok_def)
  show "call_ok (logic_inv st) (\<lambda>_. True) (\<lambda>s s'. sLog (st (snd s')) = sLog (st (snd s))) (serve_rpc (logic_server H v cfg db) C) q"
    if "\<not> (\<exists>req. q = RpcSendMsg req)" using step that by (auto simp: call_ok_def)
qed

lemma logic_served:
  assumes "\<And>url b u r u'. hvDo v url b u = (r, u') \<Longrightarrow> st u' = st u"
    and "timed_services (host_redis H cfg) db (host_writer H cfg) (hoNow H) st" and "logic_inv st s"
    and "serve_until (serve_rpc (logic_server H v cfg db) C) evs s = (outs, x, s')"
  shows "logic_inv st s' \<and> list_all (\<lambda>out. \<exists>r. out = Ret r) outs \<and> moved (st (snd s)) (st (snd s')) \<and> length outs = length (calls_of evs)"
    and "\<forall>req. RpcSendMsg req \<notin> set (calls_of evs) \<Longrightarrow> sLog (st (snd s')) = sLog (st (snd s))"
proof -
  have 1: "list_all (call_ok (logic_inv st) (\<lambda>out. \<exists>r. out = Ret r) (\<lambda>s s'. moved (st (snd s)) (st (snd s')))
      (serve_rpc (logic_server H v cfg db) C)) (calls_of evs)"
    unfolding list_all_iff using logic_call_ok(1) [OF _ assms(2)] assms(1) by blast
  show "logic_inv st s' \<and> list_all (\<lambda>out. \<exists>r. out = Ret r) outs \<and> moved (st (snd s)) (st (snd s')) \<and> length outs = length (calls_of evs)"
    using serve_until_ok [OF _ _ 1 assms(3,4)] by (auto simp: reflp_def transp_def intro: moved_trans)
  assume "\<forall>req. RpcSendMsg req \<notin> set (calls_of evs)"
  then have 2: "list_all (call_ok (logic_inv st) (\<lambda>_. True) (\<lambda>s s'. sLog (st (snd s')) = sLog (st (snd s)))
      (serve_rpc (logic_server H v cfg db) C)) (calls_of evs)"
    unfolding list_all_iff by (intro ballI logic_call_ok(2) [OF _ assms(2)]) (auto dest: assms(1))
  show "sLog (st (snd s')) = sLog (st (snd s))"
    using serve_until_ok [OF _ _ 2 assms(3,4)] by (auto simp: reflp_def transp_def)
qed

lemma account_call_ok:
  assumes "account_deps_axioms st B J"
    and "timed_services (host_redis H cfg) db (host_writer H cfg) (hoNow H) st" and "q \<in> set qs"
  shows "call_ok (\<lambda>s. account_typed C (sTabs (st (acWorld s)))) (\<lambda>_. True)
      (\<lambda>s s'. (entitled C J (seTM (haSvc (account_server H J B C j cfg db))) qs)\<^sup>*\<^sup>* (sTabs (st (acWorld s))) (sTabs (st (acWorld s'))))
      (account_step (account_server H J B C j cfg db)) q"
proof -
  let ?P = "host_writer H cfg"
  have sv: "services (host_redis H cfg) db ?P (hoNow H) st" using assms(2) by (simp add: timed_services_def)
  note ad = account_deps.intro [OF sv assms(1)]
  obtain h tm where h: "account_server H J B C j cfg db = h" "seTM (haSvc h) = tm" by blast
  then have S: "h = account_handler (host_redis H cfg) db (hoNow H) (Some (Send (hoEntropy H) ?P)) tm J B C j"
    by (auto simp: account_server_def account_handler_def NewHandler_def NewService_def Let_def)
  have serve: "account_typed C (sTabs (st (acWorld s'))) \<and> (entitled C J tm qs)\<^sup>*\<^sup>* (sTabs (st (acWorld s))) (sTabs (st (acWorld s')))"
    if "q = ACall r" "serve h r s = (out, s')" "account_typed C (sTabs (st (acWorld s)))" for r s out s'
  proof -
    note a = account_deps.serve_authorised [OF ad that(2) [unfolded S]]
    moreover have "account_typed C (sTabs (st (acWorld s')))" using a that(3) allowed_typed unfolding AccountRun.authorised_def by blast
    ultimately show ?thesis using that(1) assms(3) by (auto simp: entitled_def intro!: r_into_rtranclp)
  qed
  have send: "sTabs (st (run_event G ev w)) = sTabs (st w)" if "haGroups h = Some G" for G ev w
  proof -
    obtain event gid uid where ev: "ev = (event, gid, uid)" by (cases ev)
    have "grProducer G = Some (Send (hoEntropy H) ?P)" using that by (auto simp: S account_handler_def NewHandler_def NewGroupService_def)
    moreover have "sTabs (st w2) = sTabs (st w)" if "Send (hoEntropy H) ?P t k v hs w = (r, w2)" for t k v hs r w2
      by (rule services.Send_frame [OF sv _ _ that, THEN conjunct1]) (use random in blast)+
    ultimately show ?thesis by (simp add: run_event_def ev) (metis prod.collapse)
  qed
  from serve send show ?thesis
    by (auto simp: h call_ok_def account_step_def split: account_call.splits option.splits if_splits prod.splits)
qed

end

section \<open>An executable host\<close>

definition demo_cfg :: Config where
  "demo_cfg =
    \<lparr>cServer = \<lparr>gsName = ''linkim'', gsHTTPPort = 8080, gsGRPCPort = 9001, gsWSPort = 8081, gsNodeID = 1, gsAdvertiseAddr = ''a:1'', gsMetricsPort = 0\<rparr>,
     cMySQL = \<lparr>gmDSN = ''dsn'', gmMaxOpenConns = 64, gmMaxIdleConns = 16, gmConnMaxLifetime = 5 * Minute\<rparr>,
     cRedis = \<lparr>grAddr = ''127.0.0.1:16379'', grPassword = [], grDB = 0\<rparr>,
     cKafka = \<lparr>gkBrokers = [''127.0.0.1:9092''], gkClientID = []\<rparr>,
     cLog = \<lparr>glLevel = [], glFormat = []\<rparr>,
     cJWT = \<lparr>gjSecret = ''secret'', gjAccessTTL = 2 * Hour, gjRefreshTTL = 720 * Hour\<rparr>,
     cAccount = \<lparr>gaAddr = ''http://127.0.0.1:8080'', gaVerifyTimeout = Second\<rparr>,
     cLogic = \<lparr>goAddr = ''127.0.0.1:9001'', goCallTimeout = 2 * Second\<rparr>,
     cConsumer = \<lparr>gcPushGroup = ''job-push'', gcStoreGroup = ''job-store'', gcMinBytes = 1, gcMaxBytes = 2 ^ 20, gcReadBackoffMax = 2 * Second\<rparr>\<rparr>"

definition demo_host :: "(mem, unit, unit) host" where
  "demo_host =
    \<lparr>hoViper = \<lparr>vcReadInConfig = \<lambda>_. Inr (), vcUnmarshal = \<lambda>_ _. Inr demo_cfg\<rparr>, hoLevel = \<lambda>_. Inr (), hoInfo = (),
     hoConnect = \<lambda>dsn. mem_call (\<lambda>m. (Inr mem_mysql, m)), hoPool = \<lambda>_ _ _ db. db, hoRedis = \<lambda>_ _ _. mem_redis,
     hoPing = \<lambda>rdb. mem_call (\<lambda>m. (Inr (), m)), hoWriter = \<lambda>_. mem_kafka, hoEntropy = demo_entropy, hoNow = mem_now,
     hoListen = \<lambda>port. mem_call (\<lambda>m. (Inr (), m)), hoShutdown = mem_call (\<lambda>m. (Inr (), m)),
     hoClose = \<lambda>x. mem_call (\<lambda>m. (Inr (), m))\<rparr>"

lemma mem_call_idle: "mem_call (Pair (Inr x)) w = (r, w') \<Longrightarrow> mem_st w' = mem_st w \<and> (\<forall>y. r = Inr y \<longrightarrow> y = x)"
  by (auto simp: mem_call_def mem_st_def Let_def split: if_splits)

interpretation memh: hosting demo_host mem_st
proof (rule hosting.intro)
  fix w db w' dsn addr pw n a b c wr
  assume "hoConnect demo_host dsn w = (Inr db, w')"
  then have "db = mem_mysql" by (auto simp: demo_host_def dest!: mem_call_idle)
  with memt.timed_services_axioms
  show "timed_services (hoRedis demo_host addr pw n) (hoPool demo_host a b c db) (hoWriter demo_host wr) (hoNow demo_host) mem_st"
    by (simp add: demo_host_def)
qed (auto simp: demo_host_def demo_entropy_def mem_now_def mem_st_def dest!: mem_call_idle [unfolded mem_st_def])

definition demo_account_http :: "mem HTTPVerifier" where
  "demo_account_http = \<lparr>hvAddr = [], hvMarshal = \<lambda>t. Inr t, hvNewRequest = \<lambda>_. None, hvDo = \<lambda>url b m. (Inl (Err ''refused''), m), hvDecode = \<lambda>_. Inl (Err ''json'')\<rparr>"

lemma demo_Load: "Load (hoViper demo_host) ''c.yaml'' = Inr demo_cfg"
  by (simp add: Load_def demo_host_def)

lemma TrimSpace_Nil: "TrimSpace [] = []"
proof -
  have "trim_left [] = []" "trim_right [] = []" by (subst trim_left.simps trim_right.simps, simp split: option.split)+
  then show ?thesis by (simp add: TrimSpace_def)
qed

lemma demo_logger: "NewWithWriter (hoLevel demo_host) () (cLog demo_cfg) = Inr ((), ConsoleEncoder)"
  by (simp add: NewWithWriter_def demo_host_def demo_cfg_def TrimSpace_Nil lower_def)

lemma demo_boots:
  "\<exists>srv ids w. logic_boot demo_host demo_account_http ''c.yaml'' (demo_world []) = (Inr (srv, ids), w)"
  "\<exists>h s w. account_boot demo_host J B C j ''c.yaml'' (demo_world []) = (Inr (h, s), w)"
  by (simp_all add: logic_boot_def account_boot_def configured_def must_def demo_Load demo_logger)
     (simp_all add: demo_host_def demo_cfg_def mysqlx_New_def mem_call_def NewNode_def connectAttempts_def demo_world_def)

section \<open>Properties\<close>



text \<open>
  C23: the account process from its start to its end. It serves only with a signing secret that is not
  empty and a node number in range; a start that fails has changed nothing. Afterwards, whatever requests
  arrive, however they interleave with the group events sent in the background and however the process
  ends, the tables change only by changes one of its requests was entitled to under tokens of that
  secret, and user ids, user names (up to the collation), group ids and memberships stay unique, names
  keep their lengths and character set, and every role is one of the three.
\<close>

theorem account_process_typed:
  assumes "hosting H st" and "account_deps_axioms st B J" and "account_typed C (sTabs (st w))"
    and "account_main H J B C j path evs w = ((x, outs), w')"
  shows "(case account_boot H J B C j path w of
      (Inl f, w1) \<Rightarrow> x = Fatal f \<and> outs = [] \<and> st w' = st w
    | (Inr (h, s), w1) \<Rightarrow> length outs = length (calls_of evs) \<and>
        (\<exists>cfg. Load (hoViper H) path = Inr cfg \<and> gjSecret (cJWT cfg) \<noteq> [] \<and> 0 \<le> gsNodeID (cServer cfg) \<and> gsNodeID (cServer cfg) \<le> maxNode \<and>
          tmSecret (seTM (haSvc h)) = bytes_of (gjSecret (cJWT cfg))) \<and>
        (entitled C J (seTM (haSvc h)) (calls_of evs))\<^sup>*\<^sup>* (sTabs (st w)) (sTabs (st w'))) \<and>
    account_typed C (sTabs (st w'))"
proof -
  obtain y w1 where y: "account_boot H J B C j path w = (y, w1)" by (cases "account_boot H J B C j path w")
  note b = hosting.account_boot_ok [OF assms(1) y]
  show ?thesis
  proof (cases y)
    case (Inl f)
    with assms(3,4) y b show ?thesis by (simp add: account_main_def)
  next
    case (Inr p)
    then obtain h s where p: "y = Inr (h, s)" by (cases p) auto
    with b obtain cfg db where ok: "Load (hoViper H) path = Inr cfg" "gjSecret (cJWT cfg) \<noteq> []" "0 \<le> gsNodeID (cServer cfg)"
        "gsNodeID (cServer cfg) \<le> maxNode" "timed_services (host_redis H cfg) db (host_writer H cfg) (hoNow H) st"
        "h = account_server H J B C j cfg db" "acWorld s = w1" by blast
    obtain as z s1 where r: "serve_until (account_step h) evs s = (as, z, s1)" by (cases "serve_until (account_step h) evs s") auto
    have e: "outs = as \<and> st w' = st (acWorld s1)"
      using assms(4) y p r hosting.release_st [OF assms(1)] hosting.shutdown_st [OF assms(1)] by (auto simp: account_main_def split: exit.splits)
    have c: "list_all (call_ok (\<lambda>s. account_typed C (sTabs (st (acWorld s)))) (\<lambda>_. True)
      (\<lambda>s s'. (entitled C J (seTM (haSvc h)) (calls_of evs))\<^sup>*\<^sup>* (sTabs (st (acWorld s))) (sTabs (st (acWorld s')))) (account_step h)) (calls_of evs)"
      unfolding list_all_iff ok(6) using hosting.account_call_ok [OF assms(1,2) ok(5)] by blast
    have t: "account_typed C (sTabs (st (acWorld s)))" using assms(3) b ok(7) by simp
    have secret: "tmSecret (seTM (haSvc h)) = bytes_of (gjSecret (cJWT cfg))"
      by (simp add: ok(6) account_server_def account_handler_def NewHandler_def NewService_def NewTokenManager_def Let_def)
    from serve_until_ok [OF _ _ c t r] b ok y p e secret show ?thesis
      by (auto simp: reflp_def transp_def intro: rtranclp_trans)
  qed
qed

theorem account_process_typed_witness:
  "\<exists>x outs w'. account_main demo_host demo_jwt demo_bcrypt (map lower_char) demo_json ''c.yaml''
      [Request (ACall (demo_request ''POST'' [''api'', ''v1'', ''register''])), Request (ACall (demo_request ''POST'' [''api'', ''v1'', ''groups''])),
       Request (AEvent 0), Signal []] (demo_world []) = ((x, outs), w') \<and> length outs = 3 \<and> account_typed (map lower_char) (sTabs (mem_st w'))"
proof -
  let ?evs = "[Request (ACall (demo_request ''POST'' [''api'', ''v1'', ''register''])), Request (ACall (demo_request ''POST'' [''api'', ''v1'', ''groups''])),
       Request (AEvent 0), Signal []]"
  let ?run = "account_main demo_host demo_jwt demo_bcrypt (map lower_char) demo_json ''c.yaml'' ?evs (demo_world [])"
  obtain x outs w' where r: "?run = ((x, outs), w')" by (cases "?run") auto
  obtain h s w1 where b: "account_boot demo_host demo_jwt demo_bcrypt (map lower_char) demo_json ''c.yaml'' (demo_world []) = (Inr (h, s), w1)"
    using demo_boots(2) by blast
  from demo_typed have t: "account_typed (map lower_char) (sTabs (mem_st (demo_world [])))" by (simp add: demo_acct_def)
  from account_process_typed [OF memh.hosting_axioms account_deps.axioms(2) [OF mema.account_deps_axioms] t r] b r show ?thesis by auto
qed

end
