(* ===== verification/CometRun.thy ===== *)
theory CometRun
  imports Comet
begin

text \<open>
  Runs of the access layer: the step relation that interleaves accepted connections, frames read and
  written, ticks, timers, goroutines and gRPC calls; the invariant of the connection table and what
  follows from it for delivery and login. Two defects of the login path are proved as they are: a
  device that reconnects before its old connection is gone is dropped from the table, and a login
  read after a failed one registers a closed connection for good.
\<close>

section \<open>Steps\<close>

inductive comet_step :: "'w Comet \<Rightarrow> 'w comet \<Rightarrow> 'w comet \<Rightarrow> bool" for S :: "'w Comet" where
  accept: "comet_step S s (ServeWS S s)"
| read: "c < coNext s \<Longrightarrow> cnReading (conn s c) \<Longrightarrow> comet_step S s (read_round S c res s)"
| writes: "c < coNext s \<Longrightarrow> cnWriting (conn s c) \<Longrightarrow> comet_step S s (write_frame S c fails s)"
| tick: "c < coNext s \<Longrightarrow> cnWriting (conn s c) \<Longrightarrow> comet_step S s (write_tick S c s)"
| closed: "c < coNext s \<Longrightarrow> cnWriting (conn s c) \<Longrightarrow> comet_step S s (write_closed c s)"
| idle: "i < 256 \<Longrightarrow> comet_step S s (idle_scan S i s)"
| task: "coTasks s = ts @ t # ts' \<Longrightarrow> comet_step S s (run_task S t (s\<lparr>coTasks := ts @ ts'\<rparr>))"
| push: "comet_step S s (snd (PushFrames req s))"
| kick: "comet_step S s (Kick S kreq s)"
| drain: "comet_step S s (drain_broadcast S s)"
| world: "comet_step S s (s\<lparr>coWorld := w\<rparr>)"

inductive_cases comet_stepE: "comet_step S s s'"

inductive comet_reach :: "'w Comet \<Rightarrow> 'w comet \<Rightarrow> bool" for S :: "'w Comet" where
  start: "comet_reach S (comet_init w)"
| step: "comet_reach S s \<Longrightarrow> comet_step S s s' \<Longrightarrow> comet_reach S s'"

section \<open>Quiet operations\<close>

text \<open>The identity of a connection: what login writes once.\<close>

definition ident :: "Conn \<Rightarrow> int \<times> string \<times> int \<times> bool" where
  "ident cn = (cnUid cn, cnDeviceID cn, cnPlatform cn, cnAuthed cn)"

text \<open>
  An operation is quiet if it makes no connection, changes no identity, never overfills a queue,
  reopens nothing and only removes entries from buckets.
\<close>

definition quiet :: "'w comet \<Rightarrow> 'w comet \<Rightarrow> bool" where
  "quiet s s' \<longleftrightarrow> coNext s' = coNext s \<and>
     (\<forall>c. ident (conn s' c) = ident (conn s c) \<and> (cnClosed (conn s c) \<longrightarrow> cnClosed (conn s' c)) \<and>
        (length (cnSend (conn s c)) \<le> sendChanSize \<longrightarrow> length (cnSend (conn s' c)) \<le> sendChanSize)) \<and>
     (\<forall>i. set (coBuckets s' i) \<subseteq> set (coBuckets s i) \<and>
        (distinct (map fst (coBuckets s i)) \<longrightarrow> distinct (map fst (coBuckets s' i))))"

lemma quiet_refl [simp, intro]: "quiet s s"
  by (simp add: quiet_def)

lemma quiet_trans [trans]: "quiet s s' \<Longrightarrow> quiet s' s'' \<Longrightarrow> quiet s s''"
  unfolding quiet_def by (metis order_trans)

lemma quiet_identD: "quiet s s' \<Longrightarrow> ident (conn s' c) = ident (conn s c)"
  by (simp add: quiet_def)

lemma quiet_fields:
  assumes "quiet s s'"
  shows "cnUid (conn s' c) = cnUid (conn s c)" "cnDeviceID (conn s' c) = cnDeviceID (conn s c)"
    "cnPlatform (conn s' c) = cnPlatform (conn s c)" "cnAuthed (conn s' c) = cnAuthed (conn s c)" "coNext s' = coNext s"
  using quiet_identD [OF assms, of c] assms by (simp_all add: ident_def quiet_def)

lemma quiet_fold: "(\<And>x s. quiet s (f x s)) \<Longrightarrow> quiet s (fold f xs s)"
  by (induction xs arbitrary: s) (auto intro: quiet_trans)

lemma quiet_same: "coNext s' = coNext s \<Longrightarrow> coHeap s' = coHeap s \<Longrightarrow> coBuckets s' = coBuckets s \<Longrightarrow> quiet s s'"
  by (simp add: quiet_def)

lemma quiet_world [simp]: "quiet s (s\<lparr>coWorld := w\<rparr>)" "quiet s (s\<lparr>coPeers := p\<rparr>)" "quiet s (s\<lparr>coTasks := ts\<rparr>)"
  by (auto intro: quiet_same)

lemma outside_eq: "outside f s = (fst (f (coWorld s)), s\<lparr>coWorld := snd (f (coWorld s))\<rparr>)"
  by (simp add: outside_def split_def Let_def)

lemma outsideD: "outside f s = (r, s') \<Longrightarrow> s' = s\<lparr>coWorld := snd (f (coWorld s))\<rparr> \<and> r = fst (f (coWorld s))"
  by (auto simp: outside_eq)

lemma quiet_outside [simp]: "quiet s (snd (outside f s))"
  by (simp add: outside_eq)

lemma quiet_spawn [simp]: "quiet s (spawn t s)"
  by (simp add: spawn_def)

lemma quiet_conn_upd:
  "ident (f (conn s c)) = ident (conn s c) \<Longrightarrow> cnSend (f (conn s c)) = cnSend (conn s c) \<Longrightarrow>
   (cnClosed (conn s c) \<longrightarrow> cnClosed (f (conn s c))) \<Longrightarrow> quiet s (conn_upd c f s)"
  by (simp add: quiet_def conn_upd_def)

lemma quiet_Touch [simp]: "quiet s (Touch S c s)"
  by (auto simp: Touch_def outside_eq Let_def ident_def intro!: quiet_trans [OF quiet_world(1) quiet_conn_upd])

lemma quiet_Push [simp]: "quiet s (snd (Push c frame s))"
  by (simp add: Push_def quiet_def conn_upd_def ident_def)

lemma quiet_push_encoded [simp]: "quiet s (snd (push_encoded c cmd sq body s))"
  by (simp add: push_encoded_def split: sum.splits)

lemma quiet_replyAck [simp]: "quiet s (replyAck c cmd sq body s)"
  by (simp add: replyAck_def)

lemma quiet_checkSlow: "quiet s (snd (checkSlow c t s))"
  by (auto simp: checkSlow_def Let_def ident_def intro: quiet_conn_upd)

lemma bucket_del_sub:
  "set (snd (bucket_del k b)) \<subseteq> set b" "distinct (map fst b) \<Longrightarrow> distinct (map fst (snd (bucket_del k b)))"
  by (auto simp: bucket_del_def distinct_map_fst_filter)

lemma quiet_del: "quiet s (set_bucket uid (snd (bucket_del k (bucket s uid))) s)"
  using bucket_del_sub by (fastforce simp: quiet_def set_bucket_def)

lemma quiet_removeConn [simp]: "quiet s (removeConn S c s)"
proof -
  let ?s1 = "set_bucket (cnUid (conn s c)) (snd (bucket_del (DeviceKey (cnUid (conn s c)) (cnDeviceID (conn s c))) (bucket s (cnUid (conn s c))))) s"
  have "quiet ?s1 (removeConn S c s)"
    by (auto simp: removeConn_def outside_eq Let_def intro: quiet_same split: option.splits)
  with quiet_del show ?thesis by (rule quiet_trans)
qed

lemma quiet_Close [simp]: "quiet s (Close S c s)"
proof (cases "cnClosed (conn s c)")
  case False
  let ?s = "if cnAuthed (conn s c) then removeConn S c s else s"
  have "quiet s ?s" by simp
  also have "quiet ?s (conn_upd c (cnClosed_update (\<lambda>_. True)) ?s)" by (rule quiet_conn_upd) (simp_all add: ident_def)
  finally show ?thesis using False by (simp add: Close_def)
qed (simp add: Close_def)

lemma quiet_close_then:
  "quiet s t \<Longrightarrow> quiet s (conn_upd c (cnReading_update (\<lambda>_. b)) (Close S c t))"
  "quiet s t \<Longrightarrow> quiet s (conn_upd c (cnWriting_update (\<lambda>_. b)) (Close S c t))"
  by (rule quiet_trans, erule quiet_trans, rule quiet_Close, rule quiet_conn_upd, simp_all add: ident_def)+

text \<open>Steady operations moreover leave the buckets and the open connections as they are.\<close>

definition steady :: "'w comet \<Rightarrow> 'w comet \<Rightarrow> bool" where
  "steady s s' \<longleftrightarrow> quiet s s' \<and> coBuckets s' = coBuckets s \<and> (\<forall>c. cnClosed (conn s' c) = cnClosed (conn s c))"

lemma steady_refl [simp, intro]: "steady s s"
  by (simp add: steady_def)

lemma steady_trans [trans]: "steady s s' \<Longrightarrow> steady s' s'' \<Longrightarrow> steady s s''"
  by (auto simp: steady_def intro: quiet_trans)

lemma steady_same: "coNext s' = coNext s \<Longrightarrow> coHeap s' = coHeap s \<Longrightarrow> coBuckets s' = coBuckets s \<Longrightarrow> steady s s'"
  by (simp add: steady_def quiet_same)

lemma steady_push_encoded: "steady s (snd (push_encoded c cmd sq body s))"
proof -
  have "coBuckets (snd (push_encoded c cmd sq body s)) = coBuckets s \<and>
      (\<forall>d. cnClosed (conn (snd (push_encoded c cmd sq body s)) d) = cnClosed (conn s d))"
    by (auto simp: push_encoded_def Push_def conn_upd_def split: sum.splits)
  then show ?thesis by (simp add: steady_def)
qed

lemma steady_spawn: "steady s (spawn t s)"
  by (simp add: spawn_def steady_same)

lemma steady_KickConn: "steady s (KickConn S c reason s)"
  unfolding KickConn_def by (rule steady_trans [OF steady_push_encoded steady_spawn])

lemma steady_kickRemote: "steady s (snd (kickRemote S addr uid d reason s))"
  by (auto simp: kickRemote_def cometConn_def outside_eq intro!: steady_same split: sum.splits prod.splits if_splits)

lemma steady_kick_fields: "steady s (snd (kick_fields S uid want cur route n s))"
proof (induction route arbitrary: n s)
  case (Cons p route)
  obtain field addr where p: "p = (field, addr)" by (cases p)
  obtain r s1 where kr: "kickRemote S addr uid (drop (length want) field) same_platform s = (r, s1)"
    by (cases "kickRemote S addr uid (drop (length want) field) same_platform s")
  have "steady s s1" using steady_kickRemote [of s S addr uid "drop (length want) field" same_platform] kr by simp
  with Cons.IH kr show ?case
    by (auto simp: p Let_def intro: steady_trans [OF steady_KickConn Cons.IH] steady_trans split: option.splits sum.splits)
qed simp

lemma steady_kickSamePlatform: "steady s (snd (kickSamePlatform S uid p cur s))"
  by (auto simp: kickSamePlatform_def outside_eq intro: steady_same steady_trans [OF steady_same steady_kick_fields]
      split: option.splits sum.splits prod.splits)

lemma steady_quiet: "steady s s' \<Longrightarrow> quiet s s'"
  by (simp add: steady_def)

lemmas quiet_KickConn [simp] = steady_quiet [OF steady_KickConn]
lemmas quiet_kickSamePlatform [simp] = steady_quiet [OF steady_kickSamePlatform]

lemma quiet_register_route [simp]: "quiet s (register_route S c uid s)"
  by (auto simp: register_route_def outside_eq intro: quiet_same split: option.splits)

lemma quiet_NotifyOnline: "quiet s (NotifyOnline S c p s)"
  by (auto simp: NotifyOnline_def outside_eq intro: quiet_trans [OF quiet_world(1) quiet_push_encoded] split: sum.splits)

lemma quiet_dispatch: "quiet s (NewLogicDispatcher L X c frame s)"
  by (auto simp: NewLogicDispatcher_def handleMsgSend_def handleMsgReceivedAck_def handleSyncPull_def outside_eq Let_def
      intro: quiet_same quiet_trans [OF quiet_world(1) quiet_replyAck] split: prod.splits option.splits sum.splits)

lemma quiet_renew: "quiet s (renewPresence S uid s)" "quiet s (renewPresenceAsync S uid s)"
  by (auto simp: renewPresence_def renewPresenceAsync_def outside_eq split: option.splits)

lemma quiet_writes:
  "quiet s (write_frame S c fails s)" "quiet s (write_tick S c s)" "quiet s (write_closed c s)"
proof -
  show "quiet s (write_frame S c fails s)"
  proof (cases "cnSend (conn s c)")
    case (Cons frame q)
    let ?s = "conn_upd c (cnSend_update (\<lambda>_. q)) s"
    have *: "quiet s ?s" using Cons by (auto simp: quiet_def conn_upd_def ident_def)
    have "quiet s (conn_upd c (cnWire_update (\<lambda>ws. ws @ [frame])) ?s)"
      by (rule quiet_trans [OF * quiet_conn_upd]) (simp_all add: ident_def)
    with Cons quiet_close_then(2) [OF *] show ?thesis by (simp add: write_frame_def Let_def)
  qed (simp add: write_frame_def)
  obtain t s1 where t: "outside (csNowMs S) s = (t, s1)" by (cases "outside (csNowMs S) s")
  obtain slow s2 where cs: "checkSlow c t s1 = (slow, s2)" by (cases "checkSlow c t s1")
  have "quiet s s2" using quiet_trans [OF quiet_outside [of s "csNowMs S"] quiet_checkSlow [of _ c t]] t cs by simp
  with t cs show "quiet s (write_tick S c s)" by (simp add: write_tick_def quiet_close_then(2))
  show "quiet s (write_closed c s)" by (auto simp: write_closed_def ident_def intro: quiet_conn_upd)
qed

lemma quiet_idle_scan: "quiet s (idle_scan S i s)"
  by (auto simp: idle_scan_def outside_eq Let_def intro: quiet_trans [OF quiet_world(1) quiet_fold])

lemma quiet_push_all: "quiet s (snd (push_all c frames s))"
proof (induction frames arbitrary: s)
  case (Cons f frames)
  obtain r s1 where p: "Push c f s = (r, s1)" by (cases "Push c f s")
  have "quiet s s1" using quiet_Push [of s c f] p by simp
  with Cons p show ?case by (auto intro: quiet_trans split: sum.splits)
qed simp

lemma quiet_grpc: "quiet s (snd (PushFrames req s))" "quiet s (Kick S kreq s)"
  using quiet_push_all by (auto simp: PushFrames_def Kick_def split_def Let_def split: option.splits)

lemma quiet_drain: "quiet s (drain_broadcast S s)"
proof -
  have "quiet s (drain_conn S c s)" for c and s :: "'a comet"
    by (auto simp: drain_conn_def outside_eq Let_def intro: quiet_trans [OF quiet_world(1) quiet_push_encoded])
  then show ?thesis unfolding drain_broadcast_def by (intro quiet_fold)
qed

lemma quiet_run_task: "quiet s (run_task S t s)"
  by (cases t) (simp_all add: run_task_def quiet_renew quiet_NotifyOnline)

section \<open>The invariant\<close>

text \<open>
  Every entry of a bucket is an authenticated connection, under the key and in the bucket its own
  identity gives; keys are unique and no queue exceeds its capacity.
\<close>

definition entry_ok :: "'w comet \<Rightarrow> nat \<Rightarrow> string \<times> nat \<Rightarrow> bool" where
  "entry_ok s i e \<longleftrightarrow> snd e < coNext s \<and> cnAuthed (conn s (snd e)) \<and>
     fst e = DeviceKey (cnUid (conn s (snd e))) (cnDeviceID (conn s (snd e))) \<and> i = bucketIndex (cnUid (conn s (snd e)))"

definition comet_inv :: "'w comet \<Rightarrow> bool" where
  "comet_inv s \<longleftrightarrow> (\<forall>i. list_all (entry_ok s i) (coBuckets s i) \<and> distinct (map fst (coBuckets s i))) \<and>
     (\<forall>c. length (cnSend (conn s c)) \<le> sendChanSize)"

lemma DeviceKey_inject [simp]: "DeviceKey u d = DeviceKey u' d' \<longleftrightarrow> u = u' \<and> d = d'"
  using prefix_colon_inject [of "format_int u" "format_int u'" d d'] by (auto simp: DeviceKey_def)

lemma inv_entry: "comet_inv s \<Longrightarrow> e \<in> set (coBuckets s i) \<Longrightarrow> entry_ok s i e"
  by (simp add: comet_inv_def list_all_iff)

lemma inv_quiet:
  assumes "comet_inv s" and "quiet s s'"
  shows "comet_inv s'"
proof -
  have "entry_ok s' i e \<longleftrightarrow> entry_ok s i e" for i e by (simp add: entry_ok_def quiet_fields [OF assms(2)])
  moreover have "set (coBuckets s' i) \<subseteq> set (coBuckets s i)" for i using assms(2) by (simp add: quiet_def)
  ultimately have "list_all (entry_ok s' i) (coBuckets s' i)" for i
    using inv_entry [OF assms(1)] by (fastforce simp: list_all_iff)
  with assms show ?thesis by (simp add: comet_inv_def quiet_def)
qed

lemma inv_unauthed: "comet_inv s \<Longrightarrow> \<not> cnAuthed (conn s c) \<Longrightarrow> (k, c) \<notin> set (coBuckets s i)"
  using inv_entry by (fastforce simp: entry_ok_def)

text \<open>A bucket entry found under a key is a connection of exactly that user and device.\<close>

lemma inv_get:
  assumes "comet_inv s" and "bucket_get (DeviceKey uid d) (coBuckets s i) = Some c"
  shows "c < coNext s \<and> cnAuthed (conn s c) \<and> cnUid (conn s c) = uid \<and> cnDeviceID (conn s c) = d \<and> i = bucketIndex uid"
proof -
  have "(DeviceKey uid d, c) \<in> set (coBuckets s i)" using assms(2) unfolding bucket_get_def by (rule map_of_SomeD)
  then have "entry_ok s i (DeviceKey uid d, c)" by (rule inv_entry [OF assms(1)])
  then show ?thesis by (auto simp: entry_ok_def)
qed

section \<open>Login\<close>

text \<open>The connection table as the new connection finds it, and as it leaves it.\<close>

definition before_put :: "'w Comet \<Rightarrow> nat \<Rightarrow> int \<Rightarrow> AuthReq \<Rightarrow> 'w comet \<Rightarrow> 'w comet" where
  "before_put S c uid req s =
     snd (kickSamePlatform S uid (aqPlatform req) (aqDeviceId req) (setIdentity c uid (aqDeviceId req) (aqPlatform req) s))"

definition after_put :: "'w Comet \<Rightarrow> nat \<Rightarrow> int \<Rightarrow> AuthReq \<Rightarrow> 'w comet \<Rightarrow> 'w comet" where
  "after_put S c uid req s =
     (let s3 = before_put S c uid req s in
      set_bucket uid (snd (bucket_put (DeviceKey uid (aqDeviceId req)) c (bucket s3 uid))) s3)"

definition evict :: "'w Comet \<Rightarrow> nat \<Rightarrow> nat option \<Rightarrow> 'w comet \<Rightarrow> 'w comet" where
  "evict S c old s = (case old of Some c' \<Rightarrow> if c' \<noteq> c then Close S c' s else s | None \<Rightarrow> s)"

lemma setIdentity_fields [simp]:
  "conn (setIdentity c uid d p s) c = (conn s c)\<lparr>cnUid := uid, cnDeviceID := d, cnPlatform := p\<rparr>"
  "c' \<noteq> c \<Longrightarrow> conn (setIdentity c uid d p s) c' = conn s c'"
  "coBuckets (setIdentity c uid d p s) = coBuckets s" "coNext (setIdentity c uid d p s) = coNext s"
  by (simp_all add: setIdentity_def conn_upd_def)

lemma before_put_steady: "steady (setIdentity c uid (aqDeviceId req) (aqPlatform req) s) (before_put S c uid req s)"
  by (simp add: before_put_def steady_kickSamePlatform)

lemma before_put_buckets [simp]: "coBuckets (before_put S c uid req s) = coBuckets s"
  using before_put_steady [of c uid req s S] by (simp add: steady_def)

lemma before_put_conn:
  "cnUid (conn (before_put S c uid req s) c) = uid" "cnDeviceID (conn (before_put S c uid req s) c) = aqDeviceId req"
  "cnClosed (conn (before_put S c uid req s) d) = cnClosed (conn s d)"
  "cnAuthed (conn (before_put S c uid req s) d) = cnAuthed (conn s d)"
  "d \<noteq> c \<Longrightarrow> ident (conn (before_put S c uid req s) d) = ident (conn s d)"
  "coNext (before_put S c uid req s) = coNext s"
proof -
  note q = before_put_steady [of c uid req s S]
  note f = quiet_fields [OF steady_quiet [OF q]]
  show "cnUid (conn (before_put S c uid req s) c) = uid" "cnDeviceID (conn (before_put S c uid req s) c) = aqDeviceId req"
    "coNext (before_put S c uid req s) = coNext s" by (simp_all add: f)
  show "cnAuthed (conn (before_put S c uid req s) d) = cnAuthed (conn s d)" by (cases "d = c") (simp_all add: f)
  show "cnClosed (conn (before_put S c uid req s) d) = cnClosed (conn s d)"
    using q by (cases "d = c") (simp_all add: steady_def)
  show "d \<noteq> c \<Longrightarrow> ident (conn (before_put S c uid req s) d) = ident (conn s d)"
    using quiet_identD [OF steady_quiet [OF q], of d] by simp
qed

lemma login_eq:
  "login S c frame uid req s =
     (let s5 = evict S c (bucket_get (DeviceKey uid (aqDeviceId req)) (bucket s uid)) (after_put S c uid req s);
          s6 = markAuthed c (register_route S c uid s5);
          s7 = replyAck c CmdAuthAck (fSeq frame) (auth_ack S 0 ''ok'' uid 0) s6
      in spawn (TNotify c (cnPlatform (conn s7 c))) s7)"
proof -
  let ?k = "kickSamePlatform S uid (aqPlatform req) (aqDeviceId req) (setIdentity c uid (aqDeviceId req) (aqPlatform req) s)"
  obtain n s3 where k: "?k = (n, s3)" by (cases ?k)
  have s3: "before_put S c uid req s = s3" by (simp add: before_put_def k)
  have "cnDeviceID (conn s3 c) = aqDeviceId req" "coBuckets s3 = coBuckets s"
    using before_put_conn(2) before_put_buckets s3 by metis+
  then show ?thesis
    by (simp add: login_def Let_def k after_put_def s3 evict_def bucket_put_def bucket_get_def
        cong: option.case_cong if_cong)
qed

lemma quiet_evict: "quiet s (evict S c old s)"
  by (simp add: evict_def split: option.splits)

lemma quiet_markAuthed: "quiet s s' \<Longrightarrow> quiet (markAuthed c s) (markAuthed c s')"
  by (auto simp: quiet_def markAuthed_def conn_upd_def ident_def)

text \<open>What login adds to the table, up to quiet operations.\<close>

lemma login_quiet: "quiet (markAuthed c (after_put S c uid req s)) (login S c frame uid req s)"
proof -
  let ?s5 = "evict S c (bucket_get (DeviceKey uid (aqDeviceId req)) (bucket s uid)) (after_put S c uid req s)"
  have "quiet (markAuthed c (after_put S c uid req s)) (markAuthed c (register_route S c uid ?s5))"
    by (intro quiet_markAuthed quiet_trans [OF quiet_evict quiet_register_route])
  also have "quiet (markAuthed c (register_route S c uid ?s5)) (login S c frame uid req s)"
    unfolding login_eq Let_def by (rule quiet_trans [OF quiet_replyAck quiet_spawn])
  finally show ?thesis .
qed

lemma inv_after_put:
  assumes "comet_inv s" and "c < coNext s" and "\<not> cnAuthed (conn s c)"
  shows "comet_inv (markAuthed c (after_put S c uid req s))"
proof -
  let ?b = "before_put S c uid req s"
  let ?t = "markAuthed c (after_put S c uid req s)"
  have conn_t: "conn ?t d = (if d = c then (conn ?b c)\<lparr>cnAuthed := True\<rparr> else conn ?b d)" for d
    by (simp add: markAuthed_def conn_upd_def after_put_def set_bucket_def Let_def)
  have next_t: "coNext ?t = coNext s" by (simp add: markAuthed_def conn_upd_def after_put_def set_bucket_def Let_def before_put_conn)
  have old: "entry_ok ?t i e" if "e \<in> set (coBuckets s i)" for i e
  proof -
    have "snd e \<noteq> c" using that inv_unauthed [OF assms(1,3), of "fst e" i] by (metis prod.collapse)
    moreover from this have "ident (conn ?b (snd e)) = ident (conn s (snd e))" by (rule before_put_conn)
    ultimately show ?thesis using inv_entry [OF assms(1) that] by (simp add: entry_ok_def conn_t next_t ident_def)
  qed
  have new: "entry_ok ?t (bucketIndex uid) (DeviceKey uid (aqDeviceId req), c)"
    using assms(2) by (simp add: entry_ok_def conn_t next_t before_put_conn)
  have bt: "coBuckets ?t i = (if i = bucketIndex uid then (DeviceKey uid (aqDeviceId req), c) #
      filter (\<lambda>p. fst p \<noteq> DeviceKey uid (aqDeviceId req)) (coBuckets s i) else coBuckets s i)" for i
    by (simp add: markAuthed_def conn_upd_def after_put_def set_bucket_def bucket_put_def Let_def)
  have "list_all (entry_ok ?t i) (coBuckets ?t i)" for i using old new by (auto simp: bt list_all_iff)
  moreover have "distinct (map fst (coBuckets ?t i))" for i
    using assms(1) by (auto simp: bt comet_inv_def distinct_map_fst_filter)
  moreover have "length (cnSend (conn ?t d)) \<le> sendChanSize" for d
  proof -
    have "length (cnSend (conn (setIdentity c uid (aqDeviceId req) (aqPlatform req) s) d)) \<le> sendChanSize"
      using assms(1) by (cases "d = c") (simp_all add: comet_inv_def)
    then have "length (cnSend (conn ?b d)) \<le> sendChanSize"
      using steady_quiet [OF before_put_steady [of c uid req s S]] by (auto simp: quiet_def)
    then show ?thesis by (auto simp: conn_t)
  qed
  ultimately show ?thesis by (simp add: comet_inv_def)
qed

lemma inv_login: "comet_inv s \<Longrightarrow> c < coNext s \<Longrightarrow> \<not> cnAuthed (conn s c) \<Longrightarrow> comet_inv (login S c frame uid req s)"
  by (rule inv_quiet [OF inv_after_put login_quiet])

text \<open>A round of the read loop is quiet, or it is a login that the logic service vouched for.\<close>

definition comet_wired :: "'w Comet \<Rightarrow> bool" where
  "comet_wired S \<longleftrightarrow> csDispatch S = Some (NewLogicDispatcher (csLogic S) (csCodec S))"

lemma NewComet_wired [simp]: "comet_wired (NewComet addr rdb L X sec ms dial pk jit)"
  by (simp add: comet_wired_def NewComet_def)

lemma read_round_cases:
  assumes "comet_wired S"
  obtains "quiet s (read_round S c res s)"
  | frame req resp w w' where "res = Inr frame" "fCmd frame = CmdAuth" "\<not> cnAuthed (conn s c)" "w = coWorld (Touch S c s)"
      "unAuthReq (csCodec S) (fBody frame) = (req, None)"
      "lcVerifyToken (csLogic S) \<lparr>vtqUid = aqUid req, vtqToken = aqToken req\<rparr> w = (Inr resp, w')" "vtrValid resp"
      "read_round S c res s = login S c frame (vtrUid resp) req ((Touch S c s)\<lparr>coWorld := w'\<rparr>)"
proof (cases res)
  case (Inl e)
  then have "quiet s (read_round S c res s)" using quiet_close_then(1) [OF quiet_refl] by (simp add: read_round_def)
  then show ?thesis by (rule that(1))
next
  case (Inr frame)
  note qt = quiet_Touch [of s S c]
  show ?thesis
  proof (cases "cnAuthed (conn (Touch S c s) c) \<or> fCmd frame \<noteq> CmdAuth")
    case True
    have "quiet (Touch S c s) (replyNotImplemented S c frame (Touch S c s))" by (simp add: replyNotImplemented_def)
    with True Inr assms have "quiet s (read_round S c res s)"
      by (auto simp: read_round_def Let_def comet_wired_def quiet_close_then(1) [OF qt]
          intro!: qt quiet_trans [OF qt quiet_dispatch] quiet_trans [OF qt quiet_trans [OF quiet_replyAck quiet_renew(2)]])
    then show ?thesis by (rule that(1))
  next
    case False
    then have ua: "\<not> cnAuthed (conn s c)" using quiet_fields(4) [OF qt] by simp
    obtain req err where u: "unAuthReq (csCodec S) (fBody frame) = (req, err)" by (cases "unAuthReq (csCodec S) (fBody frame)")
    let ?v = "lcVerifyToken (csLogic S) \<lparr>vtqUid = aqUid req, vtqToken = aqToken req\<rparr>"
    obtain r w' where v: "?v (coWorld (Touch S c s)) = (r, w')" by (cases "?v (coWorld (Touch S c s))")
    have rr: "read_round S c res s = handleAuth S c frame (Touch S c s)"
      using Inr False by (simp add: read_round_def Let_def)
    show ?thesis
    proof (cases "err = None \<and> (\<exists>resp. r = Inr resp \<and> vtrValid resp)")
      case True
      then obtain resp where r: "err = None" "r = Inr resp" "vtrValid resp" by blast
      with rr u v have "read_round S c res s = login S c frame (vtrUid resp) req ((Touch S c s)\<lparr>coWorld := w'\<rparr>)"
        by (simp add: handleAuth_def outside_eq)
      with r u v Inr False ua show ?thesis by (intro that(2)) auto
    next
      case False
      have cl: "quiet t (Close S c (replyAck c cmd sq b t))" for cmd sq b t
        by (rule quiet_trans [OF quiet_replyAck quiet_Close])
      from False u v have "quiet (Touch S c s) (handleAuth S c frame (Touch S c s))"
        by (auto simp: handleAuth_def outside_eq intro: cl quiet_trans [OF quiet_world(1) cl] split: option.splits sum.splits)
      then have "quiet s (read_round S c res s)" unfolding rr by (rule quiet_trans [OF qt])
      then show ?thesis by (rule that(1))
    qed
  qed
qed

lemma inv_read:
  assumes "comet_wired S" and "comet_inv s" and "c < coNext s"
  shows "comet_inv (read_round S c res s)"
proof (rule read_round_cases [OF assms(1), where s = s and c = c and res = res])
  assume "quiet s (read_round S c res s)"
  with assms(2) show ?thesis by (rule inv_quiet)
next
  fix frame w w' and req :: AuthReq and resp :: VerifyTokenResp
  assume a: "\<not> cnAuthed (conn s c)" "read_round S c res s = login S c frame (vtrUid resp) req ((Touch S c s)\<lparr>coWorld := w'\<rparr>)"
  have q: "quiet s ((Touch S c s)\<lparr>coWorld := w'\<rparr>)" by (rule quiet_trans [OF quiet_Touch quiet_world(1)])
  show ?thesis unfolding a(2)
    by (rule inv_login) (use a(1) assms(2,3) quiet_fields(4,5) [OF q] inv_quiet [OF _ q] in auto)
qed

lemma inv_ServeWS:
  assumes "comet_inv s"
  shows "comet_inv (ServeWS S s)"
proof -
  have "entry_ok (ServeWS S s) i e" if "e \<in> set (coBuckets s i)" for i e
    using inv_entry [OF assms that] by (simp add: ServeWS_def newConn_def outside_eq Let_def spawn_def entry_ok_def)
  with assms show ?thesis
    by (simp add: comet_inv_def list_all_iff ServeWS_def newConn_def outside_eq Let_def spawn_def)
qed

lemma inv_step: "comet_step S s s' \<Longrightarrow> comet_wired S \<Longrightarrow> comet_inv s \<Longrightarrow> comet_inv s'"
  by (erule comet_stepE)
    (auto intro: inv_ServeWS inv_read inv_quiet quiet_writes quiet_idle_scan quiet_grpc quiet_drain
      inv_quiet [OF _ quiet_trans [OF quiet_world(3) quiet_run_task]] inv_quiet [OF _ quiet_world(1)])

lemma inv_reach: "comet_reach S s \<Longrightarrow> comet_wired S \<Longrightarrow> comet_inv s"
proof (induction rule: comet_reach.induct)
  case (start w)
  show ?case by (simp add: comet_inv_def comet_init_def blank_conn_def)
qed (blast intro: inv_step)

section \<open>Pushing\<close>

lemma conn_upd_queue_nil [simp]: "conn_upd c (cnSend_update (\<lambda>q. q)) s = s"
proof -
  have u: "cnSend_update (\<lambda>q. q) x = x" for x :: Conn by (cases x) simp
  show ?thesis unfolding conn_upd_def u by (cases s) simp
qed

lemma conn_upd_queue_twice:
  "conn_upd c (cnSend_update g) (conn_upd c (cnSend_update f) s) = conn_upd c (cnSend_update (\<lambda>q. g (f q))) s"
  by (simp add: conn_upd_def o_def)

lemma push_all_spec:
  "push_all c frames s = (ok, s') \<Longrightarrow> length (cnSend (conn s c)) \<le> sendChanSize \<Longrightarrow>
   let n = (if cnClosed (conn s c) then 0 else min (length frames) (sendChanSize - length (cnSend (conn s c)))) in
   s' = conn_upd c (cnSend_update (\<lambda>q. q @ take n frames)) s \<and> (ok \<longleftrightarrow> n = length frames)"
proof (induction frames arbitrary: s)
  case Nil
  then show ?case by (simp add: Let_def)
next
  case (Cons f frames)
  show ?case
  proof (cases "cnClosed (conn s c) \<or> length (cnSend (conn s c)) = sendChanSize")
    case True
    with Cons.prems show ?thesis by (auto simp: Push_def Let_def)
  next
    case False
    let ?s = "conn_upd c (cnSend_update (\<lambda>q. q @ [f])) s"
    from False Cons.prems have p: "Push c f s = (Inr (), ?s)" "length (cnSend (conn s c)) < sendChanSize" by (simp_all add: Push_def)
    from p Cons.prems have "push_all c frames ?s = (ok, s')" by simp
    moreover from p have "length (cnSend (conn ?s c)) \<le> sendChanSize" by (simp add: conn_upd_def)
    ultimately have "let n = min (length frames) (sendChanSize - length (cnSend (conn ?s c))) in
        s' = conn_upd c (cnSend_update (\<lambda>q. q @ take n frames)) ?s \<and> (ok \<longleftrightarrow> n = length frames)"
      using Cons.IH [of ?s] False by (simp add: conn_upd_def)
    moreover have "min (length (f # frames)) (sendChanSize - length (cnSend (conn s c))) =
        Suc (min (length frames) (sendChanSize - length (cnSend (conn ?s c))))"
      using p(2) by (simp add: conn_upd_def)
    ultimately show ?thesis using False by (simp add: Let_def conn_upd_queue_twice)
  qed
qed

section \<open>Who a connection is\<close>

lemma login_ident:
  "ident (conn (login S c frame uid req s) c) = (uid, aqDeviceId req, aqPlatform req, True)"
  "d \<noteq> c \<Longrightarrow> ident (conn (login S c frame uid req s) d) = ident (conn s d)"
proof -
  let ?t = "markAuthed c (after_put S c uid req s)"
  have t: "ident (conn (login S c frame uid req s) e) = ident (conn ?t e)" for e by (rule quiet_identD [OF login_quiet])
  have e: "conn ?t e = (if e = c then (conn (before_put S c uid req s) c)\<lparr>cnAuthed := True\<rparr> else conn (before_put S c uid req s) e)" for e
    by (simp add: markAuthed_def conn_upd_def after_put_def set_bucket_def Let_def)
  have p: "cnPlatform (conn (before_put S c uid req s) c) = aqPlatform req"
    using quiet_fields(3) [OF steady_quiet [OF before_put_steady [of c uid req s S]], of c] by simp
  show "ident (conn (login S c frame uid req s) c) = (uid, aqDeviceId req, aqPlatform req, True)"
    unfolding t e by (simp add: ident_def before_put_conn p)
  show "d \<noteq> c \<Longrightarrow> ident (conn (login S c frame uid req s) d) = ident (conn s d)" unfolding t e by (simp add: before_put_conn)
qed

text \<open>A step keeps every identity, except that a login gives one to the connection it reads from.\<close>

definition vouched :: "'w Comet \<Rightarrow> Conn \<Rightarrow> bool" where
  "vouched S cn \<longleftrightarrow> (\<exists>(req :: AuthReq) resp w w'.
     lcVerifyToken (csLogic S) \<lparr>vtqUid = aqUid req, vtqToken = aqToken req\<rparr> w = (Inr resp, w') \<and> vtrValid resp \<and>
     cnUid cn = vtrUid resp \<and> cnDeviceID cn = aqDeviceId req \<and> cnPlatform cn = aqPlatform req)"

lemma read_round_ident:
  assumes "comet_wired S"
  shows "ident (conn (read_round S c res s) d) = ident (conn s d) \<or>
    \<not> cnAuthed (conn s d) \<and> vouched S (conn (read_round S c res s) d)"
proof (rule read_round_cases [OF assms, where s = s and c = c and res = res])
  assume "quiet s (read_round S c res s)"
  then show ?thesis by (simp add: quiet_identD)
next
  fix frame w w' and req :: AuthReq and resp :: VerifyTokenResp
  assume a: "\<not> cnAuthed (conn s c)" "lcVerifyToken (csLogic S) \<lparr>vtqUid = aqUid req, vtqToken = aqToken req\<rparr> w = (Inr resp, w')"
    "vtrValid resp" "read_round S c res s = login S c frame (vtrUid resp) req ((Touch S c s)\<lparr>coWorld := w'\<rparr>)"
  have q: "quiet s ((Touch S c s)\<lparr>coWorld := w'\<rparr>)" by (rule quiet_trans [OF quiet_Touch quiet_world(1)])
  show ?thesis
  proof (cases "d = c")
    case True
    have "ident (conn (read_round S c res s) c) = (vtrUid resp, aqDeviceId req, aqPlatform req, True)"
      unfolding a(4) by (rule login_ident)
    with a(2,3) have "vouched S (conn (read_round S c res s) c)" by (auto simp: vouched_def ident_def)
    with True a(1) show ?thesis by simp
  next
    case False
    then show ?thesis unfolding a(4) using login_ident(2) quiet_identD [OF q] by metis
  qed
qed

lemma step_ident:
  assumes "comet_step S s s'" and "comet_wired S" and "d < coNext s"
  shows "ident (conn s' d) = ident (conn s d) \<or> \<not> cnAuthed (conn s d) \<and> vouched S (conn s' d)"
  using assms(1)
proof (cases rule: comet_step.cases)
  case accept
  with assms(3) show ?thesis by (simp add: ServeWS_def newConn_def outside_eq Let_def spawn_def)
next
  case (task ts t ts')
  have "quiet s s'" unfolding task(1) by (rule quiet_trans [OF quiet_world(3) quiet_run_task])
  then show ?thesis by (simp add: quiet_identD)
qed (use read_round_ident [OF assms(2)] in
    \<open>auto simp: quiet_identD quiet_writes quiet_idle_scan quiet_grpc quiet_drain\<close>)

section \<open>The table after a login\<close>

lemma Close_buckets:
  assumes "\<not> cnClosed (conn s c)" and "cnAuthed (conn s c)"
  shows "map_of (bucket (Close S c s) (cnUid (conn s c))) (DeviceKey (cnUid (conn s c)) (cnDeviceID (conn s c))) = None"
  using assms
  by (auto simp: Close_def removeConn_def outside_eq Let_def conn_upd_def set_bucket_def bucket_del_def map_of_filter_key
      split: option.splits)

lemma login_buckets:
  "coBuckets (login S c frame uid req s) =
   coBuckets (evict S c (bucket_get (DeviceKey uid (aqDeviceId req)) (bucket s uid)) (after_put S c uid req s))"
proof -
  have "coBuckets (replyAck c cmd sq b t) = coBuckets t" for cmd sq b and t :: "'a comet"
    using steady_push_encoded [of t c cmd sq b] by (simp add: replyAck_def steady_def)
  moreover have "coBuckets (register_route S c uid t) = coBuckets t" for t :: "'a comet"
    by (auto simp: register_route_def outside_eq split: option.splits)
  ultimately show ?thesis by (simp add: login_eq Let_def spawn_def markAuthed_def conn_upd_def)
qed

lemma after_put_conn:
  "conn (after_put S c uid req s) d = conn (before_put S c uid req s) d"
  "map_of (bucket (after_put S c uid req s) uid) (DeviceKey uid (aqDeviceId req)) = Some c"
  by (simp_all add: after_put_def set_bucket_def bucket_put_def Let_def)

lemma Close_other: "d \<noteq> c \<Longrightarrow> conn (Close S c s) d = conn s d"
  by (auto simp: Close_def removeConn_def outside_eq Let_def conn_upd_def set_bucket_def split: option.splits)

lemma login_closed: "cnClosed (conn (login S c frame uid req s) c) = cnClosed (conn s c)"
proof -
  let ?s5 = "evict S c (bucket_get (DeviceKey uid (aqDeviceId req)) (bucket s uid)) (after_put S c uid req s)"
  have "cnClosed (conn ?s5 c) = cnClosed (conn s c)"
    using Close_other [of c _ S] by (auto simp: evict_def after_put_conn before_put_conn split: option.splits)
  moreover have "cnClosed (conn (replyAck c cmd sq b t) c) = cnClosed (conn t c)" for cmd sq b and t :: "'a comet"
    using steady_push_encoded [of t c cmd sq b] by (simp add: replyAck_def steady_def)
  moreover have "cnClosed (conn (register_route S c uid t) c) = cnClosed (conn t c)" for t :: "'a comet"
    by (auto simp: register_route_def outside_eq split: option.splits)
  ultimately show ?thesis by (simp add: login_eq Let_def spawn_def markAuthed_def conn_upd_def)
qed

section \<open>Properties\<close>

text \<open>
  C14: delivery goes to the right device. In every reachable state, \<open>PushFrames\<close> changes the queue of at
  most one connection, an open one that logged in as exactly the user and device of the request, by
  appending a prefix of the frames; it reports the device online only if it appended all of them,
  and no queue ever exceeds 256 frames.
\<close>

theorem push_reaches_device_only:
  assumes "comet_wired S" and "comet_reach S s" and "PushFrames req s = (resp, s')"
  shows "(\<forall>c. conn s' c \<noteq> conn s c \<longrightarrow>
      cnAuthed (conn s c) \<and> cnUid (conn s c) = pfUid req \<and> cnDeviceID (conn s c) = pfDeviceId req \<and> \<not> cnClosed (conn s c) \<and>
      (\<exists>n. conn s' c = (conn s c)\<lparr>cnSend := cnSend (conn s c) @ take n (pfFrames req)\<rparr> \<and>
         (pfOnline resp \<longleftrightarrow> length (pfFrames req) \<le> n))) \<and>
    (\<forall>c d. conn s' c \<noteq> conn s c \<and> conn s' d \<noteq> conn s d \<longrightarrow> c = d) \<and>
    (pfOnline resp \<and> pfFrames req \<noteq> [] \<longrightarrow> (\<exists>c. conn s' c \<noteq> conn s c)) \<and>
    (\<forall>c. length (cnSend (conn s' c)) \<le> 256)"
proof -
  have inv: "comet_inv s" using inv_reach [OF assms(2,1)] .
  then have inv': "comet_inv s'" using inv_quiet [OF inv quiet_grpc(1) [of s req]] assms(3) by simp
  show ?thesis
  proof (cases "bucket_get (DeviceKey (pfUid req) (pfDeviceId req)) (bucket s (pfUid req))")
    case None
    with assms(3) inv show ?thesis by (auto simp: PushFrames_def comet_inv_def sendChanSize_def)
  next
    case (Some c)
    obtain ok s1 where p: "push_all c (pfFrames req) s = (ok, s1)" by (cases "push_all c (pfFrames req) s")
    define n where "n = (if cnClosed (conn s c) then 0 else min (length (pfFrames req)) (sendChanSize - length (cnSend (conn s c))))"
    have q: "length (cnSend (conn s c)) \<le> sendChanSize" using inv by (simp add: comet_inv_def)
    from push_all_spec [OF p q] assms(3) Some p
    have r: "s' = conn_upd c (cnSend_update (\<lambda>q. q @ take n (pfFrames req))) s" "pfOnline resp \<longleftrightarrow> n = length (pfFrames req)"
      by (auto simp: PushFrames_def n_def Let_def)
    have cc: "conn s' c = (conn s c)\<lparr>cnSend := cnSend (conn s c) @ take n (pfFrames req)\<rparr>" and other: "d \<noteq> c \<Longrightarrow> conn s' d = conn s d" for d
      by (simp_all add: r conn_upd_def)
    have n0: "n = 0" if "cnClosed (conn s c)" using that by (simp add: n_def)
    have le: "n \<le> length (pfFrames req)" by (simp add: n_def)
    have ne: "\<not> cnClosed (conn s c)" if "conn s' c \<noteq> conn s c" using that n0 by (auto simp: cc)
    have ch: "conn s' c \<noteq> conn s c" if "pfOnline resp" "pfFrames req \<noteq> []"
    proof
      assume "conn s' c = conn s c"
      then have "cnSend (conn s' c) = cnSend (conn s c)" by simp
      with that r(2) show False by (simp add: cc)
    qed
    have one: "d = c" if "conn s' d \<noteq> conn s d" for d using that other by metis
    have me: "cnAuthed (conn s c) \<and> cnUid (conn s c) = pfUid req \<and> cnDeviceID (conn s c) = pfDeviceId req"
      using inv_get [OF inv Some] by simp
    have pre: "\<exists>n. conn s' c = (conn s c)\<lparr>cnSend := cnSend (conn s c) @ take n (pfFrames req)\<rparr> \<and>
        (pfOnline resp \<longleftrightarrow> length (pfFrames req) \<le> n)"
      using cc le r(2) by (intro exI [of _ n]) auto
    have bound: "length (cnSend (conn s' d)) \<le> 256" for d using inv' by (simp add: comet_inv_def sendChanSize_def)
    show ?thesis
    proof (intro conjI allI impI)
      fix d assume d: "conn s' d \<noteq> conn s d"
      then have "d = c" by (rule one)
      with d me ne pre show "cnAuthed (conn s d)" "cnUid (conn s d) = pfUid req" "cnDeviceID (conn s d) = pfDeviceId req"
        "\<not> cnClosed (conn s d)" "\<exists>n. conn s' d = (conn s d)\<lparr>cnSend := cnSend (conn s d) @ take n (pfFrames req)\<rparr> \<and>
        (pfOnline resp \<longleftrightarrow> length (pfFrames req) \<le> n)" by simp_all
    qed (use one ch bound in blast)+
  qed
qed

text \<open>
  C17: who may speak as whom. Whatever step the process takes, a connection that has logged in keeps its
  user, device and platform, and a connection becomes authenticated only as the user that the logic
  service returned for a token it declared valid.
\<close>

theorem login_only_vouched:
  assumes "comet_wired S" and "comet_step S s s'" and "c < coNext s"
  shows "(cnAuthed (conn s c) \<longrightarrow> cnAuthed (conn s' c) \<and> cnUid (conn s' c) = cnUid (conn s c) \<and>
      cnDeviceID (conn s' c) = cnDeviceID (conn s c) \<and> cnPlatform (conn s' c) = cnPlatform (conn s c)) \<and>
    (\<not> cnAuthed (conn s c) \<and> cnAuthed (conn s' c) \<longrightarrow> (\<exists>(req :: AuthReq) resp w w'.
      lcVerifyToken (csLogic S) \<lparr>vtqUid = aqUid req, vtqToken = aqToken req\<rparr> w = (Inr resp, w') \<and> vtrValid resp \<and>
      cnUid (conn s' c) = vtrUid resp \<and> cnDeviceID (conn s' c) = aqDeviceId req \<and> cnPlatform (conn s' c) = aqPlatform req))"
  using step_ident [OF assms(2,1,3)] by (auto simp: ident_def vouched_def)

text \<open>
  Nothing but a login is accepted from a stranger. Any other frame on a connection that has not
  logged in closes it and ends its read loop: no reply, no entry in a bucket, no task and no call on
  Redis or the logic service, only a reading of the clock; no other connection is touched.
\<close>

theorem frame_before_auth_closes:
  assumes "\<not> cnAuthed (conn s c)" and "fCmd frame \<noteq> CmdAuth"
  shows "let s' = read_round S c (Inr frame) s in
    cnClosed (conn s' c) \<and> \<not> cnReading (conn s' c) \<and> \<not> cnAuthed (conn s' c) \<and> cnSend (conn s' c) = cnSend (conn s c) \<and>
    (\<forall>d. d \<noteq> c \<longrightarrow> conn s' d = conn s d) \<and> coBuckets s' = coBuckets s \<and> coTasks s' = coTasks s \<and>
    coWorld s' = snd (csNowSec S (coWorld s))"
  using assms by (auto simp: read_round_def Touch_def outside_eq conn_upd_def Close_def Let_def)

text \<open>
  C31: the logic service hears only the connection's own identity. Two logic clients that answer alike
  whenever the request names the connection's user (and device, for a message) are
  indistinguishable to the handlers of client frames, whatever the frame says.
\<close>

theorem sender_is_connection:
  assumes "\<And>r. srSenderId r = cnUid (conn s c) \<Longrightarrow> srDeviceId r = cnDeviceID (conn s c) \<Longrightarrow> lcSendMsg L r = lcSendMsg L' r"
    and "\<And>r. mrUid r = cnUid (conn s c) \<Longrightarrow> lcMarkRead L r = lcMarkRead L' r"
    and "\<And>r. rdUid r = cnUid (conn s c) \<Longrightarrow> lcReportDelivered L r = lcReportDelivered L' r"
    and "\<And>r. yqUid r = cnUid (conn s c) \<Longrightarrow> lcSyncPull L r = lcSyncPull L' r"
  shows "NewLogicDispatcher L X c frame s = NewLogicDispatcher L' X c frame s"
proof -
  have "handleMsgSend L X c frame s = handleMsgSend L' X c frame s" by (simp add: handleMsgSend_def assms(1))
  moreover have "handleMsgReceivedAck L X c frame s = handleMsgReceivedAck L' X c frame s"
    by (simp add: handleMsgReceivedAck_def assms(2,3) outside_eq cong: option.case_cong prod.case_cong)
  moreover have "handleSyncPull L X c frame s = handleSyncPull L' X c frame s" by (simp add: handleSyncPull_def assms(4))
  ultimately show ?thesis by (simp add: NewLogicDispatcher_def)
qed

text \<open>
  C38: a device that logs in again while its old connection is still open loses its place. The new
  connection is put into the bucket first and the old one closed afterwards, whose clean-up deletes
  the bucket entry by key: the new connection is authenticated and open, yet \<open>PushFrames\<close> for this
  user and device finds nothing and answers that it is offline.
\<close>

theorem reconnect_is_unreachable:
  assumes "comet_wired S" and "comet_reach S s" and "\<not> cnAuthed (conn s c)" and "\<not> cnClosed (conn s c)"
    and "unAuthReq (csCodec S) (fBody frame) = (req, None)" and "fCmd frame = CmdAuth"
    and "\<And>w. \<exists>w'. lcVerifyToken (csLogic S) \<lparr>vtqUid = aqUid req, vtqToken = aqToken req\<rparr> w = (Inr resp, w')" and "vtrValid resp"
    and "bucket_get (DeviceKey (vtrUid resp) (aqDeviceId req)) (bucket s (vtrUid resp)) = Some old" and "\<not> cnClosed (conn s old)"
  shows "let s' = read_round S c (Inr frame) s in
    cnAuthed (conn s' c) \<and> \<not> cnClosed (conn s' c) \<and> cnUid (conn s' c) = vtrUid resp \<and> cnDeviceID (conn s' c) = aqDeviceId req \<and>
    PushFrames \<lparr>pfUid = vtrUid resp, pfDeviceId = aqDeviceId req, pfFrames = frames\<rparr> s' = (\<lparr>pfOnline = False\<rparr>, s')"
proof -
  let ?t = "Touch S c s"
  let ?k = "DeviceKey (vtrUid resp) (aqDeviceId req)"
  obtain w' where v: "lcVerifyToken (csLogic S) \<lparr>vtqUid = aqUid req, vtqToken = aqToken req\<rparr> (coWorld ?t) = (Inr resp, w')"
    using assms(7) by blast
  let ?u = "?t\<lparr>coWorld := w'\<rparr>"
  have same: "steady s ?u" by (auto simp: steady_def quiet_def Touch_def outside_eq conn_upd_def ident_def Let_def)
  then have f: "coBuckets ?u = coBuckets s" "cnClosed (conn ?u d) = cnClosed (conn s d)" for d by (simp_all add: steady_def)
  note q = quiet_fields [OF steady_quiet [OF same]]
  have rr: "read_round S c (Inr frame) s = login S c frame (vtrUid resp) req ?u"
    using assms(3,5,6,8) v quiet_fields(4) [OF quiet_Touch, of S c s c] by (simp add: read_round_def Let_def handleAuth_def outside_eq)
  have old: "cnAuthed (conn s old)" "cnUid (conn s old) = vtrUid resp" "cnDeviceID (conn s old) = aqDeviceId req"
    using inv_get [OF inv_reach [OF assms(2,1)] assms(9)] by simp_all
  then have ne: "old \<noteq> c" using assms(3) by auto
  let ?p = "after_put S c (vtrUid resp) req ?u"
  have p: "cnAuthed (conn ?p old)" "cnUid (conn ?p old) = vtrUid resp" "cnDeviceID (conn ?p old) = aqDeviceId req" "\<not> cnClosed (conn ?p old)"
    using old assms(10) before_put_conn(5) [OF ne, of S "vtrUid resp" req ?u] q f
    by (simp_all add: after_put_conn ident_def before_put_conn)
  have "map_of (bucket (login S c frame (vtrUid resp) req ?u) (vtrUid resp)) ?k = None"
    using Close_buckets [OF p(4,1), of S] assms(9) ne p by (simp add: login_buckets f evict_def)
  moreover have "cnAuthed (conn (login S c frame (vtrUid resp) req ?u) c)" "cnUid (conn (login S c frame (vtrUid resp) req ?u) c) = vtrUid resp"
    "cnDeviceID (conn (login S c frame (vtrUid resp) req ?u) c) = aqDeviceId req"
    using login_ident(1) [of S c frame "vtrUid resp" req ?u] by (simp_all add: ident_def)
  moreover have "\<not> cnClosed (conn (login S c frame (vtrUid resp) req ?u) c)" using assms(4) f by (simp add: login_closed)
  ultimately show ?thesis by (simp add: rr Let_def PushFrames_def bucket_get_def)
qed

text \<open>
  A login after a failed one. \<open>handleAuth\<close> closes a connection whose token is refused, but the read
  loop goes on with the frames already received; if the next one is a valid login, the closed
  connection is registered, every push to the device fails, and closing it again removes nothing.
\<close>

theorem closed_connection_registered:
  assumes "\<not> cnAuthed (conn s c)" and "cnClosed (conn s c)"
    and "unAuthReq (csCodec S) (fBody frame) = (req, None)" and "fCmd frame = CmdAuth"
    and "\<And>w. \<exists>w'. lcVerifyToken (csLogic S) \<lparr>vtqUid = aqUid req, vtqToken = aqToken req\<rparr> w = (Inr resp, w')" and "vtrValid resp"
    and "bucket_get (DeviceKey (vtrUid resp) (aqDeviceId req)) (bucket s (vtrUid resp)) = None"
  shows "let s' = read_round S c (Inr frame) s in
    bucket_get (DeviceKey (vtrUid resp) (aqDeviceId req)) (bucket s' (vtrUid resp)) = Some c \<and> cnClosed (conn s' c) \<and>
    Close S c s' = s' \<and>
    PushFrames \<lparr>pfUid = vtrUid resp, pfDeviceId = aqDeviceId req, pfFrames = f # frames\<rparr> s' = (\<lparr>pfOnline = False\<rparr>, s')"
proof -
  let ?t = "Touch S c s"
  obtain w' where v: "lcVerifyToken (csLogic S) \<lparr>vtqUid = aqUid req, vtqToken = aqToken req\<rparr> (coWorld ?t) = (Inr resp, w')"
    using assms(5) by blast
  let ?u = "?t\<lparr>coWorld := w'\<rparr>"
  have f: "coBuckets ?u = coBuckets s" "cnClosed (conn ?u c) = cnClosed (conn s c)"
    by (simp_all add: Touch_def outside_eq conn_upd_def Let_def)
  have rr: "read_round S c (Inr frame) s = login S c frame (vtrUid resp) req ?u"
    using assms(1,3,4,6) v quiet_fields(4) [OF quiet_Touch, of S c s c] by (simp add: read_round_def Let_def handleAuth_def outside_eq)
  have "map_of (bucket (login S c frame (vtrUid resp) req ?u) (vtrUid resp)) (DeviceKey (vtrUid resp) (aqDeviceId req)) = Some c"
    using assms(7) after_put_conn(2) by (simp add: login_buckets f evict_def)
  moreover have "cnClosed (conn (login S c frame (vtrUid resp) req ?u) c)" using assms(2) f by (simp add: login_closed)
  ultimately show ?thesis by (simp add: rr Let_def PushFrames_def bucket_get_def Close_def Push_def)
qed

section \<open>Runs\<close>

text \<open>A process without Redis, a logic service that accepts one token of user 7, and three runs of it.\<close>

definition demo_wire :: wire_codec where
  "demo_wire =
    \<lparr>unAuthReq = \<lambda>b. (\<lparr>aqToken = if b = [1] then ''good'' else ''bad'', aqDeviceId = ''d1'', aqPlatform = 1, aqUid = 7\<rparr>, None),
     unMsgSendReq = \<lambda>b. (\<lparr>mqClientMsgId = ''m'', mqConvId = ''c:1:7'', mqConvType = 1, mqMsgType = 1, mqPayload = b\<rparr>, None),
     unReceivedAckReq = \<lambda>b. (\<lparr>raMsgId = ''1'', raConvId = ''c:1:7'', raSeq = 1\<rparr>, None),
     unSyncPullReq = \<lambda>b. (\<lparr>yqConvId = ''c:1:7'', yqLocalMaxSeq = 0, yqLimit = 100, yqUid = 0\<rparr>, None),
     maAuthAck = \<lambda>_. Inr [], maMsgSendAck = \<lambda>_. Inr [], maSyncResp = \<lambda>_. Inr [], maSyncNotifyReq = \<lambda>_. Inr [],
     maReconnectReq = \<lambda>_. Inr []\<rparr>"

definition demo_logic :: "unit LogicClient" where
  "demo_logic =
    \<lparr>lcVerifyToken = \<lambda>q w. (Inr \<lparr>vtrValid = (vtqToken q = ''good''), vtrCode = 0, vtrUid = vtqUid q\<rparr>, w),
     lcSendMsg = \<lambda>q w. (Inr \<lparr>saCode = 0, saMsgId = ''1'', saSeq = srSenderId q, saTimestamp = 0\<rparr>, w),
     lcMarkRead = \<lambda>_ w. (Inr (), w), lcReportDelivered = \<lambda>_ w. (Inr (), w),
     lcSyncPull = \<lambda>_ w. (Inr \<lparr>yrCode = 0, yrMessages = [], yrMaxSeq = 0\<rparr>, w),
     lcOnlineEvent = \<lambda>_ w. (Inr \<lparr>prConvs = []\<rparr>, w)\<rparr>"

definition demo_comet :: "unit Comet" where
  "demo_comet = NewComet ''10.0.0.1:9000'' None demo_logic demo_wire (\<lambda>w. (5, w)) (\<lambda>w. (5000, w))
     (\<lambda>_ w. (Inr (), w)) (\<lambda>_ _ w. (Inr (), w)) (\<lambda>w. (0, w))"

definition demo_auth :: "byte \<Rightarrow> Frame" where
  "demo_auth b = \<lparr>fVer = 1, fCmd = CmdAuth, fSeq = 1, fBody = [b]\<rparr>"

definition demo_accepted :: "unit comet" where
  "demo_accepted = ServeWS demo_comet (comet_init ())"

definition demo_online :: "unit comet" where
  "demo_online = read_round demo_comet 0 (Inr (demo_auth 1)) demo_accepted"

definition demo_again :: "unit comet" where
  "demo_again = ServeWS demo_comet demo_online"

definition demo_refused :: "unit comet" where
  "demo_refused = read_round demo_comet 0 (Inr (demo_auth 0)) demo_accepted"

lemmas demo_comet_simps =
  demo_comet_def demo_logic_def demo_wire_def demo_auth_def NewComet_def comet_init_def blank_conn_def ServeWS_def newConn_def
  outside_eq Let_def spawn_def read_round_def Touch_def conn_upd_def handleAuth_def login_def setIdentity_def markAuthed_def
  kickSamePlatform_def bucket_put_def bucket_get_def set_bucket_def register_route_def replyAck_def push_encoded_def Push_def
  sendChanSize_def Close_def removeConn_def PushFrames_def bucketIndex_def bucketNum_def

lemma demo_accepted_state:
  "coNext demo_accepted = 1" "cnReading (conn demo_accepted 0)" "\<not> cnAuthed (conn demo_accepted 0)" "\<not> cnClosed (conn demo_accepted 0)"
  by (simp_all add: demo_accepted_def demo_comet_simps)

lemma demo_online_state:
  "coNext demo_online = 1" "bucket_get (DeviceKey 7 ''d1'') (bucket demo_online 7) = Some 0"
  "cnAuthed (conn demo_online 0)" "\<not> cnClosed (conn demo_online 0)" "cnUid (conn demo_online 0) = 7"
  "length (cnSend (conn demo_online 0)) \<le> 1"
  by (auto simp: demo_online_def demo_accepted_def demo_comet_simps split: sum.splits)

lemma demo_reach: "comet_reach demo_comet demo_accepted" "comet_reach demo_comet demo_online" "comet_reach demo_comet demo_again"
proof -
  show a: "comet_reach demo_comet demo_accepted"
    unfolding demo_accepted_def by (rule comet_reach.step [OF comet_reach.start comet_step.accept])
  show o: "comet_reach demo_comet demo_online"
    unfolding demo_online_def by (rule comet_reach.step [OF a comet_step.read]) (simp_all add: demo_accepted_state)
  show "comet_reach demo_comet demo_again"
    unfolding demo_again_def by (rule comet_reach.step [OF o comet_step.accept])
qed

lemma demo_wired [simp]: "comet_wired demo_comet"
  by (simp add: demo_comet_def)

lemma demo_login:
  "unAuthReq (csCodec demo_comet) (fBody (demo_auth 1)) = (\<lparr>aqToken = ''good'', aqDeviceId = ''d1'', aqPlatform = 1, aqUid = 7\<rparr>, None)"
  "fCmd (demo_auth b) = CmdAuth"
  "lcVerifyToken (csLogic demo_comet) \<lparr>vtqUid = 7, vtqToken = ''good''\<rparr> w = (Inr \<lparr>vtrValid = True, vtrCode = 0, vtrUid = 7\<rparr>, w)"
  by (simp_all add: demo_comet_simps)

theorem push_reaches_device_only_witness:
  "\<exists>s'. PushFrames \<lparr>pfUid = 7, pfDeviceId = ''d1'', pfFrames = [[1], [2]]\<rparr> demo_online = (\<lparr>pfOnline = True\<rparr>, s') \<and>
     (\<exists>c. conn s' c \<noteq> conn demo_online c) \<and> (\<forall>c. length (cnSend (conn s' c)) \<le> 256)"
proof -
  obtain s' where p: "PushFrames \<lparr>pfUid = 7, pfDeviceId = ''d1'', pfFrames = [[1], [2]]\<rparr> demo_online = (\<lparr>pfOnline = True\<rparr>, s')"
    using demo_online_state(2,4,6) by (simp add: PushFrames_def Push_def conn_upd_def sendChanSize_def)
  from push_reaches_device_only [OF demo_wired demo_reach(2) p] p show ?thesis by auto
qed

theorem login_only_vouched_witness:
  "cnAuthed (conn demo_online 0) \<and> (\<exists>(req :: AuthReq) resp w w'.
      lcVerifyToken (csLogic demo_comet) \<lparr>vtqUid = aqUid req, vtqToken = aqToken req\<rparr> w = (Inr resp, w') \<and> vtrValid resp \<and>
      cnUid (conn demo_online 0) = vtrUid resp)"
proof -
  have "comet_step demo_comet demo_accepted demo_online"
    unfolding demo_online_def by (rule comet_step.read) (simp_all add: demo_accepted_state)
  from login_only_vouched [OF demo_wired this, of 0] show ?thesis
    by (auto simp: demo_accepted_state demo_online_state)
qed

theorem frame_before_auth_closes_witness:
  "cnClosed (conn (read_round demo_comet 0 (Inr \<lparr>fVer = 1, fCmd = CmdHeartbeat, fSeq = 1, fBody = []\<rparr>) demo_accepted) 0)"
  using frame_before_auth_closes [of demo_accepted 0 "\<lparr>fVer = 1, fCmd = CmdHeartbeat, fSeq = 1, fBody = []\<rparr>" demo_comet]
  by (simp add: demo_accepted_state Let_def CmdHeartbeat_def CmdAuth_def)

definition demo_logic' :: "unit LogicClient" where
  "demo_logic' = demo_logic\<lparr>lcSendMsg := \<lambda>q w. if srSenderId q = 7 then lcSendMsg demo_logic q w else (Inl ErrConnClosed, w)\<rparr>"

theorem sender_is_connection_witness:
  "NewLogicDispatcher demo_logic demo_wire 0 \<lparr>fVer = 1, fCmd = CmdMsgSend, fSeq = 2, fBody = [1]\<rparr> demo_online =
   NewLogicDispatcher demo_logic' demo_wire 0 \<lparr>fVer = 1, fCmd = CmdMsgSend, fSeq = 2, fBody = [1]\<rparr> demo_online"
  by (rule sender_is_connection) (auto simp: demo_logic'_def demo_online_state fun_eq_iff)

theorem reconnect_is_unreachable_witness:
  "let s' = read_round demo_comet 1 (Inr (demo_auth 1)) demo_again in
    cnAuthed (conn s' 1) \<and> \<not> cnClosed (conn s' 1) \<and>
    PushFrames \<lparr>pfUid = 7, pfDeviceId = ''d1'', pfFrames = [[1]]\<rparr> s' = (\<lparr>pfOnline = False\<rparr>, s')"
proof -
  have new: "\<not> cnAuthed (conn demo_again 1)" "\<not> cnClosed (conn demo_again 1)"
    "bucket_get (DeviceKey 7 ''d1'') (bucket demo_again 7) = Some 0" "\<not> cnClosed (conn demo_again 0)"
    using demo_online_state by (simp_all add: demo_again_def ServeWS_def newConn_def outside_eq spawn_def Let_def bucket_get_def)
  show ?thesis
    using reconnect_is_unreachable [OF demo_wired demo_reach(3) new(1,2) demo_login(1,2), where
        resp = "\<lparr>vtrValid = True, vtrCode = 0, vtrUid = 7\<rparr>" and old = 0 and frames = "[[1]]"] new(3,4)
    by (simp add: Let_def demo_login(3))
qed

theorem closed_connection_registered_witness:
  "let s' = read_round demo_comet 0 (Inr (demo_auth 1)) demo_refused in
    bucket_get (DeviceKey 7 ''d1'') (bucket s' 7) = Some 0 \<and> cnClosed (conn s' 0) \<and> Close demo_comet 0 s' = s'"
proof -
  have c: "\<not> cnAuthed (conn demo_refused 0)" "cnClosed (conn demo_refused 0)"
    "bucket_get (DeviceKey 7 ''d1'') (bucket demo_refused 7) = None"
    by (auto simp: demo_refused_def demo_accepted_def demo_comet_simps split: sum.splits)
  show ?thesis
    using closed_connection_registered [OF c(1,2) demo_login(1,2), where resp = "\<lparr>vtrValid = True, vtrCode = 0, vtrUid = 7\<rparr>"] c(3)
    by (simp add: Let_def demo_login(3))
qed

end
