(* ===== verification/CometProcess.thy ===== *)
theory CometProcess
  imports Processes CometRun
begin

text \<open>
  The main of \<^verbatim>\<open>cmd/comet\<close>: its start, its life as a step relation over the steps of \<open>CometRun\<close>, and the way
  it leaves, \<open>Alive.Stop\<close> and \<open>Drain\<close> before the servers are shut down. Shown: the invariant of the
  connection table holds all its life, and a comet that leaves asks every device it can reach to
  reconnect, exactly once. A port that is taken ends the start after the address was announced.
\<close>

section \<open>The process\<close>

text \<open>The gRPC client of the logic service, the codec, the clocks and the clients of other comets.\<close>

record 'w comet_libs =
  clNewClient :: "string \<Rightarrow> ('w, 'w LogicClient) call"
  clCodec :: wire_codec
  clNowSec :: "'w \<Rightarrow> int \<times> 'w"
  clNowMs :: "'w \<Rightarrow> int \<times> 'w"
  clDial :: "string \<Rightarrow> ('w, unit) call"
  clPeerKick :: "string \<Rightarrow> KickConnReq \<Rightarrow> ('w, unit) call"
  clJitter :: "'w \<Rightarrow> int \<times> 'w"

definition comet_server :: "'w comet_libs \<Rightarrow> string \<Rightarrow> 'w redis \<Rightarrow> 'w LogicClient \<Rightarrow> 'w Comet" where
  "comet_server L addr rdb logic =
     NewComet addr (Some rdb) logic (clCodec L) (clNowSec L) (clNowMs L) (clDial L) (clPeerKick L) (clJitter L)"

definition comet_boot :: "('w, 'f, 'l) host \<Rightarrow> 'w comet_libs \<Rightarrow> string \<Rightarrow> 'w \<Rightarrow> (fatal + 'w Comet \<times> 'w redis) \<times> 'w" where
  "comet_boot H L path =
     configured H path (\<lambda>cfg w.
       let addr = gsAdvertiseAddr (cServer cfg); rdb = host_redis H cfg in
       if addr = [] then (Inl AdvertiseAddrEmpty, w)
       else must RedisUnreachable (hoPing H rdb w) (\<lambda>_ w.
            must LogicClientFailed (clNewClient L (goAddr (cLogic cfg)) w) (\<lambda>logic w.
            must AliveFailed (Alive_Start rdb addr w) (\<lambda>_ w.
            must ListenFailed (hoListen H (gsGRPCPort (cServer cfg)) w) (\<lambda>_ w. (Inr (comet_server L addr rdb logic, rdb), w))))))"

definition drainGrace :: int where "drainGrace = 30 * 1000"

text \<open>The first two calls after the signal.\<close>

definition comet_leave :: "'w Comet \<Rightarrow> 'w redis \<Rightarrow> 'w comet \<Rightarrow> 'w comet" where
  "comet_leave S rdb s = drain_broadcast S (s\<lparr>coWorld := Alive_Stop rdb (csAddr S) (coWorld s)\<rparr>)"

definition comet_close :: "('w, 'f, 'l) host \<Rightarrow> 'w comet \<Rightarrow> 'w comet" where
  "comet_close H s = s\<lparr>coWorld := release H [LogicConn, Redis, Logger] (snd (hoShutdown H (coWorld s)))\<rparr>"

datatype phase = Serving | Draining int | Ended exit

text \<open>
  One step of the process: the work of its goroutines, the renewal of the registration, the failure of
  a listener, the signal, and the rounds of the wait, which end with the last connection or the time.
\<close>

inductive comet_life :: "('w, 'f, 'l) host \<Rightarrow> 'w Comet \<Rightarrow> 'w redis \<Rightarrow> phase \<times> 'w comet \<Rightarrow> phase \<times> 'w comet \<Rightarrow> bool"
  for H S rdb where
  work: "ph \<in> {Serving, Draining d} \<Longrightarrow> comet_step S s s' \<Longrightarrow> comet_life H S rdb (ph, s) (ph, s')"
| renew: "comet_life H S rdb (Serving, s) (Serving, s\<lparr>coWorld := Alive_renew rdb (csAddr S) (coWorld s)\<rparr>)"
| broken: "ph \<in> {Serving, Draining d} \<Longrightarrow> comet_life H S rdb (ph, s) (Ended (Fatal (ServingFailed e)), s)"
| signal: "outside (csNowMs S) (comet_leave S rdb s) = (t, s') \<Longrightarrow> comet_life H S rdb (Serving, s) (Draining (t + drainGrace), s')"
| waits: "outside (csNowMs S) s = (t, s') \<Longrightarrow> drain_wait d [(t, s')] = None \<Longrightarrow> comet_life H S rdb (Draining d, s) (Draining d, s')"
| drained: "outside (csNowMs S) s = (t, s') \<Longrightarrow> drain_wait d [(t, s')] = Some n \<Longrightarrow>
    comet_life H S rdb (Draining d, s) (Ended Bye, comet_close H s')"

section \<open>The table during the life of the process\<close>

lemma reach_world: "comet_reach S s \<Longrightarrow> comet_reach S (s\<lparr>coWorld := w\<rparr>)"
  by (rule comet_reach.step [OF _ comet_step.world])

lemma reach_leave: "comet_reach S s \<Longrightarrow> comet_reach S (comet_leave S rdb s)"
  unfolding comet_leave_def by (rule comet_reach.step [OF reach_world comet_step.drain])

lemma life_step_reach: "comet_life H S rdb p q \<Longrightarrow> comet_reach S (snd p) \<Longrightarrow> comet_reach S (snd q)"
  by (induction rule: comet_life.induct)
    (auto simp: comet_close_def dest!: outsideD intro: comet_reach.step reach_world reach_leave)

lemma life_reach:
  assumes "(comet_life H S rdb)\<^sup>*\<^sup>* (Serving, comet_init w) q"
  shows "comet_reach S (snd q)"
  using assms by (induction rule: rtranclp_induct) (auto intro: comet_reach.start life_step_reach)

text \<open>After the grace period the next round of the wait ends the process.\<close>

lemma drain_ends: "OnlineCount s = 0 \<or> d \<le> t \<Longrightarrow> \<exists>n. drain_wait d [(t, s)] = Some n"
  by auto

section \<open>Broadcasting\<close>

definition asked :: "'w Comet \<Rightarrow> bytes list \<Rightarrow> bytes list \<Rightarrow> bool" where
  "asked S q q' \<longleftrightarrow> (\<exists>j b frame. 0 \<le> j \<and> j < 3000 \<and> maReconnectReq (csCodec S) \<lparr>rcJitterMs = j\<rparr> = Inr b \<and>
     Decode frame = Inr \<lparr>fVer = ProtoVer, fCmd = CmdReconnectNow, fSeq = 0, fBody = b\<rparr> \<and> q' = q @ [frame])"

definition can_take :: "'w comet \<Rightarrow> nat \<Rightarrow> bool" where
  "can_take s c \<longleftrightarrow> \<not> cnClosed (conn s c) \<and> length (cnSend (conn s c)) < sendChanSize"

text \<open>The connections of all buckets, each of which appears once.\<close>

definition registered :: "'w comet \<Rightarrow> nat list" where
  "registered s = concat (map (\<lambda>i. map snd (coBuckets s i)) [0..<256])"

lemma registered_world [simp]: "registered (s\<lparr>coWorld := w\<rparr>) = registered s" "can_take (s\<lparr>coWorld := w\<rparr>) c = can_take s c"
  by (simp_all add: registered_def can_take_def)

lemma distinct_concat_map:
  assumes "distinct xs" and "\<forall>x \<in> set xs. distinct (f x)"
    and "\<forall>x \<in> set xs. \<forall>y \<in> set xs. set (f x) \<inter> set (f y) \<noteq> {} \<longrightarrow> x = y"
  shows "distinct (concat (map f xs))"
  using assms by (induction xs) auto

lemma registered_distinct:
  assumes "comet_inv s"
  shows "distinct (registered s)"
proof -
  have "distinct (map snd (coBuckets s i))" for i
  proof -
    have "inj_on snd (set (coBuckets s i))"
      using inv_entry [OF assms] by (intro inj_onI prod_eqI) (auto simp: entry_ok_def)
    moreover have "distinct (coBuckets s i)" using assms distinct_map by (auto simp: comet_inv_def)
    ultimately show ?thesis by (simp add: distinct_map)
  qed
  moreover have "i = j" if "(k, c) \<in> set (coBuckets s i)" "(l, c) \<in> set (coBuckets s j)" for i j k l c
    using that [THEN inv_entry [OF assms]] by (simp add: entry_ok_def)
  ultimately show ?thesis unfolding registered_def by (intro distinct_concat_map) auto
qed

lemma registered_iff:
  assumes "comet_inv s"
  shows "c \<in> set (registered s) \<longleftrightarrow> bucket_get (DeviceKey (cnUid (conn s c)) (cnDeviceID (conn s c))) (bucket s (cnUid (conn s c))) = Some c"
proof
  assume "c \<in> set (registered s)"
  then obtain i k where e: "(k, c) \<in> set (coBuckets s i)" by (auto simp: registered_def)
  with inv_entry [OF assms e] assms show "bucket_get (DeviceKey (cnUid (conn s c)) (cnDeviceID (conn s c))) (bucket s (cnUid (conn s c))) = Some c"
    by (auto simp: bucket_get_def entry_ok_def comet_inv_def)
next
  let ?i = "bucketIndex (cnUid (conn s c))"
  assume "bucket_get (DeviceKey (cnUid (conn s c)) (cnDeviceID (conn s c))) (bucket s (cnUid (conn s c))) = Some c"
  then have "(DeviceKey (cnUid (conn s c)) (cnDeviceID (conn s c)), c) \<in> set (coBuckets s ?i)" by (simp add: bucket_get_def map_of_SomeD)
  moreover have "?i < 256" by (simp add: bucketIndex_def bucketNum_def nat_less_iff)
  ultimately show "c \<in> set (registered s)" by (force simp: registered_def)
qed

text \<open>What draining relies on: random jitter in range, and the encoding of so small a message.\<close>

locale drain_laws =
  fixes S :: "'w Comet" and st :: "'w \<Rightarrow> svc"
  assumes jitter: "\<And>w j w'. csJitter S w = (j, w') \<Longrightarrow> st w' = st w \<and> 0 \<le> j \<and> j < 3000"
    and small: "\<And>j. 0 \<le> j \<Longrightarrow> j < 3000 \<Longrightarrow> \<exists>b. maReconnectReq (csCodec S) \<lparr>rcJitterMs = j\<rparr> = Inr b \<and> length b \<le> MaxBodyLen"
begin

lemma drain_conn_spec:
  assumes "drain_conn S c s = s'"
  shows "st (coWorld s') = st (coWorld s) \<and> coBuckets s' = coBuckets s \<and> (\<forall>d. d \<noteq> c \<longrightarrow> conn s' d = conn s d) \<and>
    (if can_take s c then asked S (cnSend (conn s c)) (cnSend (conn s' c)) else conn s' c = conn s c)"
proof -
  obtain j w where j: "csJitter S (coWorld s) = (j, w)" by (cases "csJitter S (coWorld s)")
  with jitter small obtain b where b: "st w = st (coWorld s)" "0 \<le> j" "j < 3000" "maReconnectReq (csCodec S) \<lparr>rcJitterMs = j\<rparr> = Inr b" "length b \<le> MaxBodyLen"
    by blast
  let ?f = "\<lparr>fVer = ProtoVer, fCmd = CmdReconnectNow, fSeq = 0, fBody = b\<rparr>"
  have e: "Encode ?f = Inr (header_of ?f @ b)" "Decode (header_of ?f @ b) = Inr ?f"
    using b(5) Decode_header_body [of ?f] by (simp_all add: Encode_eq)
  from assms have s': "s' = snd (Push c (header_of ?f @ b) (s\<lparr>coWorld := w\<rparr>))"
    by (simp add: drain_conn_def outside_eq j mustMarshal_def b(4) push_encoded_def e(1))
  have "asked S q (q @ [header_of ?f @ b])" for q unfolding asked_def using b(2-4) e(2) by blast
  with b(1) show ?thesis by (simp add: s' Push_def can_take_def conn_upd_def)
qed

lemma drain_conns_spec:
  "distinct cs \<Longrightarrow> fold (drain_conn S) cs s = s' \<Longrightarrow> st (coWorld s') = st (coWorld s) \<and> coBuckets s' = coBuckets s \<and>
     (\<forall>c. if c \<in> set cs \<and> can_take s c then asked S (cnSend (conn s c)) (cnSend (conn s' c)) else conn s' c = conn s c)"
proof (induction cs arbitrary: s)
  case (Cons c cs)
  let ?t = "drain_conn S c s"
  note 1 = drain_conn_spec [of c s, OF refl]
  then have t: "can_take ?t d = can_take s d" if "d \<noteq> c" for d using that by (simp add: can_take_def)
  from Cons have 2: "st (coWorld s') = st (coWorld ?t) \<and> coBuckets s' = coBuckets ?t \<and>
     (\<forall>d. if d \<in> set cs \<and> can_take ?t d then asked S (cnSend (conn ?t d)) (cnSend (conn s' d)) else conn s' d = conn ?t d)" by simp
  have "if d \<in> set (c # cs) \<and> can_take s d then asked S (cnSend (conn s d)) (cnSend (conn s' d)) else conn s' d = conn s d" for d
  proof (cases "d = c")
    case True
    with 1 2 Cons.prems(1) show ?thesis by (auto split: if_splits)
  next
    case False
    with 1 have "conn ?t d = conn s d" by blast
    with False 2 t [of d] show ?thesis by (metis set_ConsD list.set_intros(2))
  qed
  with 1 2 show ?case by simp
qed simp

lemma drain_buckets: "coBuckets (fold (drain_conn S) cs s) = coBuckets s"
  by (induction cs arbitrary: s) (simp_all add: drain_conn_spec [OF refl])

lemma drain_broadcast_eq: "drain_broadcast S s = fold (drain_conn S) (registered s) s"
proof -
  have "coBuckets t = coBuckets s \<Longrightarrow> fold (\<lambda>i s. fold (drain_conn S) (map snd (coBuckets s i)) s) is t =
      fold (drain_conn S) (concat (map (\<lambda>i. map snd (coBuckets s i)) is)) t" for "is" t
    by (induction "is" arbitrary: t) (simp_all add: drain_buckets)
  then show ?thesis by (simp add: drain_broadcast_def registered_def)
qed

lemma drain_broadcast_spec:
  assumes "comet_inv s" and "drain_broadcast S s = s'"
  shows "st (coWorld s') = st (coWorld s) \<and> coBuckets s' = coBuckets s \<and>
    (\<forall>c. if c \<in> set (registered s) \<and> can_take s c then asked S (cnSend (conn s c)) (cnSend (conn s' c)) else conn s' c = conn s c)"
  by (rule drain_conns_spec [OF registered_distinct [OF assms(1)] assms(2) [unfolded drain_broadcast_eq]])

end

section \<open>An executable comet\<close>

definition demo_mem_logic :: "mem LogicClient" where
  "demo_mem_logic =
    \<lparr>lcVerifyToken = \<lambda>q w. (Inr \<lparr>vtrValid = (vtqToken q = ''good''), vtrCode = 0, vtrUid = vtqUid q\<rparr>, w),
     lcSendMsg = \<lambda>q w. (Inl (Err ''down''), w), lcMarkRead = \<lambda>_ w. (Inr (), w), lcReportDelivered = \<lambda>_ w. (Inr (), w),
     lcSyncPull = \<lambda>_ w. (Inl (Err ''down''), w), lcOnlineEvent = \<lambda>_ w. (Inr \<lparr>prConvs = []\<rparr>, w)\<rparr>"

definition demo_libs :: "mem comet_libs" where
  "demo_libs =
    \<lparr>clNewClient = \<lambda>addr. mem_call (\<lambda>m. (Inr demo_mem_logic, m)), clCodec = demo_wire, clNowSec = \<lambda>w. (5, w), clNowMs = \<lambda>w. (5000, w),
     clDial = \<lambda>_ w. (Inr (), w), clPeerKick = \<lambda>_ _ w. (Inr (), w), clJitter = \<lambda>w. (1500, w)\<rparr>"

definition demo_site :: "mem Comet" where
  "demo_site = comet_server demo_libs ''a:1'' mem_redis demo_mem_logic"

lemma demo_site_boots: "\<exists>w. comet_boot demo_host demo_libs ''c.yaml'' (demo_world []) = (Inr (demo_site, mem_redis), w)"
  by (simp add: comet_boot_def configured_def must_def demo_Load demo_logger Let_def demo_site_def)
     (simp add: demo_host_def demo_cfg_def demo_libs_def mem_call_def demo_world_def host_redis_def redisx_New_def Alive_Start_def mem_redis_def mem_put_def)

interpretation memd: drain_laws demo_site mem_st
  by unfold_locales (auto simp: demo_site_def comet_server_def NewComet_def demo_libs_def demo_wire_def)

definition demo_guest :: "mem comet" where
  "demo_guest = read_round demo_site 0 (Inr (demo_auth 1)) (ServeWS demo_site (comet_init (demo_world [])))"

lemma register_route_fields [simp]:
  "coHeap (register_route S c uid s) = coHeap s" "coBuckets (register_route S c uid s) = coBuckets s"
  by (simp_all add: register_route_def outside_eq split: option.splits)

lemma kick_nobody:
  "csRdb S = Some rdb \<Longrightarrow> rHGetAll rdb (RouteKey uid) (coWorld s) = (Inr [], w) \<Longrightarrow> kickSamePlatform S uid p d s = (0, s\<lparr>coWorld := w\<rparr>)"
  by (simp add: kickSamePlatform_def outside_eq)

lemma demo_no_routes: "rHGetAll mem_redis k (demo_world []) = (Inr [], demo_world [])"
  by (simp add: mem_redis_def mem_call_def mem_hash_def demo_world_def)

lemma demo_guest_state:
  "bucket_get (DeviceKey 7 ''d1'') (bucket demo_guest 7) = Some 0" "can_take demo_guest 0"
  by (simp_all add: demo_guest_def demo_site_def comet_server_def demo_libs_def demo_mem_logic_def demo_comet_simps kick_nobody demo_no_routes can_take_def
      del: kickSamePlatform_def register_route_def split: sum.splits)

section \<open>Properties\<close>

text \<open>
  C13: leaving. When a comet that has started and served is told to stop, its address is taken from the
  registry (if Redis answers) before any device is asked to go elsewhere; then every device with an open
  connection in the table and room in its queue gets exactly one more frame, which decodes as
  \<open>RECONNECT_NOW\<close> with a jitter below three seconds; no other connection and no entry of the table changes.
\<close>

theorem drain_asks_every_device:
  assumes "comet_boot H L path w = (Inr (S, R), w1)" and "(comet_life H S R)\<^sup>*\<^sup>* (Serving, comet_init w1) (Serving, s)"
    and "services R M P now st" and "drain_laws S st" and "comet_leave S R s = s'"
  shows "(\<forall>w2. rDel R (CometAliveKey (csAddr S)) (coWorld s) = (Inr (), w2) \<longrightarrow> sKeys (st (coWorld s')) (CometAliveKey (csAddr S)) = None) \<and>
    (\<forall>uid d c. bucket_get (DeviceKey uid d) (bucket s uid) = Some c \<and> can_take s c \<longrightarrow> asked S (cnSend (conn s c)) (cnSend (conn s' c))) \<and>
    (\<forall>c. \<not> can_take s c \<or> (\<forall>uid d. bucket_get (DeviceKey uid d) (bucket s uid) \<noteq> Some c) \<longrightarrow> conn s' c = conn s c) \<and>
    coBuckets s' = coBuckets s"
proof -
  have "comet_wired S" using configured_ends [OF assms(1) [unfolded comet_boot_def]]
    by (auto simp: comet_server_def Let_def dest!: must_InrD split: if_splits)
  with life_reach [OF assms(2)] have i: "comet_inv s" by (simp add: inv_reach)
  let ?t = "s\<lparr>coWorld := Alive_Stop R (csAddr S) (coWorld s)\<rparr>"
  have "comet_inv ?t" by (rule inv_quiet [OF i quiet_world(1)])
  from drain_laws.drain_broadcast_spec [OF assms(4) this assms(5) [unfolded comet_leave_def]]
  have "st (coWorld s') = st (Alive_Stop R (csAddr S) (coWorld s)) \<and> coBuckets s' = coBuckets s \<and>
      (\<forall>c. if c \<in> set (registered s) \<and> can_take s c then asked S (cnSend (conn s c)) (cnSend (conn s' c)) else conn s' c = conn s c)"
    by (simp cong: if_cong)
  then have b: "st (coWorld s') = st (Alive_Stop R (csAddr S) (coWorld s))" "coBuckets s' = coBuckets s"
      "\<And>c. if c \<in> set (registered s) \<and> can_take s c then asked S (cnSend (conn s c)) (cnSend (conn s' c)) else conn s' c = conn s c" by blast+
  have r: "c \<in> set (registered s) \<longleftrightarrow> (\<exists>uid d. bucket_get (DeviceKey uid d) (bucket s uid) = Some c)" for c
    using registered_iff [OF i, of c] inv_get [OF i] by blast
  have "sKeys (st (coWorld s')) (CometAliveKey (csAddr S)) = None" if "rDel R (CometAliveKey (csAddr S)) (coWorld s) = (Inr (), w2)" for w2
    using services.Del [OF assms(3) that] that by (simp add: b(1) Alive_Stop_def wrote_key_def)
  moreover have "asked S (cnSend (conn s c)) (cnSend (conn s' c))" if "bucket_get (DeviceKey uid d) (bucket s uid) = Some c" "can_take s c" for uid d c
    using b(3) [of c] r [of c] that by (metis (full_types))
  moreover have "conn s' c = conn s c" if "\<not> can_take s c \<or> (\<forall>uid d. bucket_get (DeviceKey uid d) (bucket s uid) \<noteq> Some c)" for c
    using b(3) [of c] r [of c] that by (auto split: if_splits)
  ultimately show ?thesis using b(2) by blast
qed

theorem drain_asks_every_device_witness:
  "\<exists>s'. comet_leave demo_site mem_redis demo_guest = s' \<and> asked demo_site (cnSend (conn demo_guest 0)) (cnSend (conn s' 0))"
proof -
  obtain w1 where b: "comet_boot demo_host demo_libs ''c.yaml'' (demo_world []) = (Inr (demo_site, mem_redis), w1)" using demo_site_boots by blast
  let ?life = "comet_life demo_host demo_site mem_redis" and ?s = "ServeWS demo_site (comet_init (demo_world []))"
  have 1: "?life (Serving, comet_init w1) (Serving, comet_init (demo_world []))"
    using comet_life.work [where ?ph = Serving and ?d = 0, OF _ comet_step.world [of demo_site "comet_init w1" "demo_world []"]] by (simp add: comet_init_def)
  have 2: "?life (Serving, comet_init (demo_world [])) (Serving, ?s)"
    by (rule comet_life.work [where ?d = 0, OF _ comet_step.accept]) simp
  have 3: "?life (Serving, ?s) (Serving, demo_guest)"
    unfolding demo_guest_def by (rule comet_life.work [where ?d = 0, OF _ comet_step.read]) (simp_all add: demo_site_def comet_server_def demo_libs_def demo_comet_simps)
  have "?life\<^sup>*\<^sup>* (Serving, comet_init w1) (Serving, demo_guest)"
    using 1 2 3 by (meson rtranclp.rtrancl_into_rtrancl rtranclp.rtrancl_refl)
  from drain_asks_every_device [OF b this mem.services_axioms memd.drain_laws_axioms refl] demo_guest_state show ?thesis by blast
qed

text \<open>A start that fails at the port leaves the address announced, until the key expires.\<close>

lemma taken_port_stays_announced:
  assumes "hosting H st" and "\<And>cfg. services (host_redis H cfg) M P now st" and "comet_boot H L path w = (Inl (ListenFailed e), w')"
  shows "\<exists>cfg. Load (hoViper H) path = Inr cfg \<and> sKeys (st w') (CometAliveKey (gsAdvertiseAddr (cServer cfg))) = Some (VStr ''1'')"
proof -
  from assms(3) obtain cfg w1 w2 where c: "Load (hoViper H) path = Inr cfg" "Alive_Start (host_redis H cfg) (gsAdvertiseAddr (cServer cfg)) w1 = (Inr (), w2)"
      "hoListen H (gsGRPCPort (cServer cfg)) w2 = (Inl e, w')"
    by (auto simp: comet_boot_def configured_def Let_def dest!: must_InlD split: if_splits)
  from services.Set [OF assms(2) c(2) [unfolded Alive_Start_def]] hosting.listen [OF assms(1) c(3)] c(1) show ?thesis
    by (auto simp: wrote_key_def)
qed

end
