(* ===== verification/JobProcess.thy ===== *)
theory JobProcess
  imports Processes JobPush
begin

text \<open>
  The main of \<^verbatim>\<open>cmd/job\<close>: the readers and workers it builds, the rounds of its workers in any order, the
  select that waits for a signal or the first worker to end, the ten seconds it then leaves them, and
  what it closes. Shown: whatever the order of the rounds, the message tables only grow, and only by
  records the process fetched.
\<close>

section \<open>Building\<close>

record reader =
  krBrokers :: "string list"
  krGroupID :: string
  krTopic :: string
  krMinBytes :: int
  krMaxBytes :: int
  krCommitInterval :: int
  krStartOffset :: int
  krReadBackoffMax :: int

text \<open>\<open>kafka.LastOffset\<close>.\<close>

definition LastOffset :: int where "LastOffset = -1"

definition NewReader :: "string list \<Rightarrow> string \<Rightarrow> string \<Rightarrow> int \<Rightarrow> int \<Rightarrow> int \<Rightarrow> reader" where
  "NewReader brokers groupID topic minBytes maxBytes readBackoffMax =
     \<lparr>krBrokers = brokers, krGroupID = groupID, krTopic = topic, krMinBytes = minBytes, krMaxBytes = maxBytes,
      krCommitInterval = 0, krStartOffset = LastOffset, krReadBackoffMax = readBackoffMax\<rparr>"

text \<open>The Kafka and gRPC clients, the decoders, the wait between attempts and the state of the context.\<close>

record 'w job_libs =
  jlCommit :: "reader \<Rightarrow> kmsg list \<Rightarrow> ('w, unit) call"
  jlEnded :: "'w \<Rightarrow> bool"
  jlUnEnvelope :: "bytes \<Rightarrow> Envelope result"
  jlUnMsg :: "bytes \<Rightarrow> PbMsg result"
  jlUnGroup :: "bytes \<Rightarrow> groupEvent result"
  jlMarshal :: "PbMsg \<Rightarrow> bytes result"
  jlDial :: "string \<Rightarrow> ('w, unit) call"
  jlPush :: "string \<Rightarrow> PushFramesReq \<Rightarrow> ('w, PushFramesResp) call"
  jlHang :: "string \<Rightarrow> ('w, unit) call"
  jlWait :: "nat \<Rightarrow> ('w, unit) call"

record 'w job =
  jbRedis :: "'w redis"
  jbPushReader :: reader
  jbPush :: "'w PushWorker"
  jbStoreReader :: reader
  jbStore :: "'w StoreWorker"
  jbGroupReader :: reader
  jbGroup :: "kmsg \<Rightarrow> ('w, unit) call"

definition job_built :: "('w, 'f, 'l) host \<Rightarrow> 'w job_libs \<Rightarrow> Config \<Rightarrow> 'w mysql \<Rightarrow> 'w job" where
  "job_built H L cfg db =
     (let rdb = host_redis H cfg; producer = Send (hoEntropy H) (host_writer H cfg); cc = cConsumer cfg;
          reader = (\<lambda>g t. NewReader (gkBrokers (cKafka cfg)) g t (gcMinBytes cc) (gcMaxBytes cc) (gcReadBackoffMax cc));
          storeReader = reader (gcStoreGroup cc) ''msg.store''
      in \<lparr>jbRedis = rdb,
          jbPushReader = reader (gcPushGroup cc) ''msg.push'',
          jbPush = \<lparr>pwRdb = rdb, pwUnmarshal = jlUnEnvelope L, pwMarshal = jlMarshal L, pwDial = jlDial L, pwPush = jlPush L, pwHang = jlHang L\<rparr>,
          jbStoreReader = storeReader,
          jbStore = NewStoreWorker db producer (jlCommit L storeReader) (Some (GroupMembers rdb db)) (jlUnMsg L) (jlWait L),
          jbGroupReader = reader ''job-group'' TopicGroupEvent,
          jbGroup = group_Handle rdb db (jlUnGroup L)\<rparr>)"

definition job_boot :: "('w, 'f, 'l) host \<Rightarrow> 'w job_libs \<Rightarrow> string \<Rightarrow> 'w \<Rightarrow> (fatal + 'w job) \<times> 'w" where
  "job_boot H L path =
     configured H path (\<lambda>cfg w.
       must RedisUnreachable (hoPing H (host_redis H cfg) w) (\<lambda>_ w.
       must MySQLFailed (mysqlx_New (hoConnect H) (hoPool H) (cMySQL cfg) w) (\<lambda>db w. (Inr (job_built H L cfg db), w))))"

section \<open>Running\<close>

text \<open>The pool of comets with the world, the channel between the store loops, and the batch being filled.\<close>

record 'w jobst =
  jsPool :: "'w pooled"
  jsChan :: "kmsg list"
  jsPending :: "storeItem list"

definition in_pool :: "('w, 'a) call \<Rightarrow> ('w pooled, 'a) call" where
  "in_pool f s = (case f (poWorld s) of (r, w) \<Rightarrow> (r, s\<lparr>poWorld := w\<rparr>))"

text \<open>One round of \<open>BatchLoop\<close>: the batch it goes on with, and the world.\<close>

fun batch_step :: "'w StoreWorker \<Rightarrow> event \<Rightarrow> storeItem list \<Rightarrow> 'w \<Rightarrow> storeItem list \<times> 'w" where
  "batch_step W (Received km) pending w =
     (let pending' = pending @ [parseStoreItem (swUnmarshal W) km] in
      if length pending' \<ge> storeBatchSize then ([], flush W pending' w) else (pending', w))"
| "batch_step W Tick pending w = (if pending \<noteq> [] then ([], flush W pending w) else (pending, w))"
| "batch_step W Closed pending w = ([], flush W pending w)"
| "batch_step W (Cancelled kms) pending w = ([], flush W (pending @ map (parseStoreItem (swUnmarshal W)) kms) w)"

text \<open>
  The rounds: a fetch of one of the three readers, the batch loop taking a record, ticking or ending
  with the context, and a pass over the route table. The channel holds 256 records; a fetch waits while
  it is full.
\<close>

datatype job_round = PushRound fetch | GroupRound fetch | StoreRound store_fetch | TakeRound | TickRound | CancelRound | ReconcileRound

definition job_step :: "'w job_libs \<Rightarrow> 'w job \<Rightarrow> job_round \<Rightarrow> 'w jobst \<Rightarrow> unit result option \<times> 'w jobst" where
  "job_step L J q s =
     (let batch = (\<lambda>ev. case batch_step (jbStore J) ev (jsPending s) (poWorld (jsPool s)) of
            (pending, w) \<Rightarrow> s\<lparr>jsPending := pending, jsPool := (jsPool s)\<lparr>poWorld := w\<rparr>\<rparr>);
          loop = (\<lambda>handler reader f. case RunLoop handler (\<lambda>km. in_pool (jlCommit L reader [km])) (\<lambda>p. jlEnded L (poWorld p)) [f] (jsPool s) of
            (r, p) \<Rightarrow> (r, s\<lparr>jsPool := p\<rparr>))
      in case q of
        PushRound f \<Rightarrow> loop (push_Handle (jbPush J)) (jbPushReader J) f
      | GroupRound f \<Rightarrow> loop (\<lambda>km. in_pool (jbGroup J km)) (jbGroupReader J) f
      | StoreRound f \<Rightarrow>
          if (\<exists>km. f = StoreFetched km True) \<and> length (jsChan s) \<ge> 256 then (None, s)
          else (case StoreRunLoop [f] (jsChan s) of (r, ch) \<Rightarrow> (r, s\<lparr>jsChan := ch\<rparr>))
      | TakeRound \<Rightarrow> (None, case jsChan s of [] \<Rightarrow> s | km # ch \<Rightarrow> (batch (Received km))\<lparr>jsChan := ch\<rparr>)
      | TickRound \<Rightarrow> (None, batch Tick)
      | CancelRound \<Rightarrow> (Some (Inr ()), (batch (Cancelled (jsChan s)))\<lparr>jsChan := []\<rparr>)
      | ReconcileRound \<Rightarrow>
          (None, case ReconcileOnce (jbRedis J) (poWorld (jsPool s)) of
             None \<Rightarrow> s | Some (_, w) \<Rightarrow> s\<lparr>jsPool := (jsPool s)\<lparr>poWorld := w\<rparr>\<rparr>))"

datatype job_event = Round job_round | JobSignal

text \<open>
  \<open>job_run\<close> is the main until it leaves the select; the rounds after that are those the workers make in
  the ten seconds.
\<close>

fun job_rest :: "'w job_libs \<Rightarrow> 'w job \<Rightarrow> job_event list \<Rightarrow> 'w jobst \<Rightarrow> 'w jobst" where
  "job_rest L J [] s = s"
| "job_rest L J (Round q # evs) s = job_rest L J evs (snd (job_step L J q s))"
| "job_rest L J (JobSignal # evs) s = job_rest L J evs s"

fun job_run :: "'w job_libs \<Rightarrow> 'w job \<Rightarrow> job_event list \<Rightarrow> 'w jobst \<Rightarrow> exit \<times> 'w jobst" where
  "job_run L J [] s = (Running, s)"
| "job_run L J (JobSignal # evs) s = (Bye, job_rest L J evs s)"
| "job_run L J (Round q # evs) s =
     (case job_step L J q s of
        (None, s1) \<Rightarrow> job_run L J evs s1
      | (Some (Inl e), s1) \<Rightarrow> (Fatal (WorkerFailed e), s1)
      | (Some (Inr _), s1) \<Rightarrow> (Bye, job_rest L J evs s1))"

definition job_main :: "('w, 'f, 'l) host \<Rightarrow> 'w job_libs \<Rightarrow> string \<Rightarrow> job_event list \<Rightarrow> 'w \<Rightarrow> exit \<times> 'w" where
  "job_main H L path evs w =
     (case job_boot H L path w of
        (Inl f, w1) \<Rightarrow> (Fatal f, w1)
      | (Inr J, w1) \<Rightarrow>
          (case job_run L J evs \<lparr>jsPool = NewCometPool w1, jsChan = [], jsPending = []\<rparr> of
             (Bye, s) \<Rightarrow> (Bye, release H [KafkaReader (krTopic (jbPushReader J)), KafkaReader (krTopic (jbGroupReader J)),
                 KafkaReader (krTopic (jbStoreReader J)), KafkaWriter, MySQL, Redis, Logger] (poWorld (jsPool s)))
           | (x, s) \<Rightarrow> (x, poWorld (jsPool s))))"

section \<open>Rounds\<close>

text \<open>Rounds of \<open>BatchLoop\<close> one after the other are the loop.\<close>

lemma BatchLoop_rounds:
  "snd (BatchLoop W (Received km # evs) pending w) = (case batch_step W (Received km) pending w of (p, w1) \<Rightarrow> snd (BatchLoop W evs p w1))"
  "snd (BatchLoop W (Tick # evs) pending w) = (case batch_step W Tick pending w of (p, w1) \<Rightarrow> snd (BatchLoop W evs p w1))"
  "snd (BatchLoop W (Closed # evs) pending w) = snd (batch_step W Closed pending w)"
  "snd (BatchLoop W (Cancelled kms # evs) pending w) = snd (batch_step W (Cancelled kms) pending w)"
  by (simp_all add: Let_def split_def)

locale job_host = hosting H st for H :: "('w, 'f, 'l) host" and st :: "'w \<Rightarrow> svc" +
  fixes L :: "'w job_libs" and left :: "nat \<Rightarrow> nat"
  assumes committed: "\<And>rd ks w r w'. jlCommit L rd ks w = (r, w') \<Longrightarrow> st w' = st w"
    and dialled: "\<And>a w r w'. jlDial L a w = (r, w') \<Longrightarrow> st w' = st w"
    and pushes: "\<And>a q w r w'. jlPush L a q w = (r, w') \<Longrightarrow> st w' = st w"
    and paused: "\<And>n w r w'. jlWait L n w = (r, w') \<Longrightarrow> st w' = st w"
    and scans: "\<And>dsn w db w' addr pw n a b c wr. hoConnect H dsn w = (Inr db, w') \<Longrightarrow>
      scan_services (hoRedis H addr pw n) (hoPool H a b c db) (hoWriter H wr) (hoNow H) st left"
begin

lemma job_boot_ok:
  assumes "job_boot H L path w = (y, w')"
  shows "st w' = st w \<and> (\<forall>J. y = Inr J \<longrightarrow> (\<exists>cfg db. J = job_built H L cfg db \<and>
    scan_services (host_redis H cfg) db (host_writer H cfg) (hoNow H) st left))"
proof -
  have scan: "st w' = st w \<and> (\<forall>db. r = Inr db \<longrightarrow> scan_services (host_redis H cfg) db (host_writer H cfg) (hoNow H) st left)"
    if "mysqlx_New (hoConnect H) (hoPool H) (cMySQL cfg) w = (r, w')" for cfg w r w'
  proof -
    obtain q m w1 where q: "connect_from (hoConnect H (gmDSN (cMySQL cfg))) 1 0 w = ((q, m), w1)"
      by (cases "connect_from (hoConnect H (gmDSN (cMySQL cfg))) 1 0 w") auto
    from connect_from_st [OF q] that q show ?thesis
      by (auto simp: mysqlx_New_def host_redis_def host_writer_def redisx_New_def dest: scans split: sum.splits)
  qed
  have "st w' = st w \<and> (\<forall>J. y = Inr J \<longrightarrow> (\<exists>db. J = job_built H L cfg db \<and>
      scan_services (host_redis H cfg) db (host_writer H cfg) (hoNow H) st left))"
    if "must MySQLFailed (mysqlx_New (hoConnect H) (hoPool H) (cMySQL cfg) w1) (\<lambda>db w. (Inr (job_built H L cfg db), w)) = (y, w')" "st w1 = st w"
    for cfg w1
  proof -
    obtain r w2 where r: "mysqlx_New (hoConnect H) (hoPool H) (cMySQL cfg) w1 = (r, w2)" by (cases "mysqlx_New (hoConnect H) (hoPool H) (cMySQL cfg) w1")
    from must_ends [OF that(1) [unfolded r]] scan [OF r] that(2) show ?thesis by auto
  qed
  with configured_ends [OF assms [unfolded job_boot_def]] show ?thesis by (auto dest!: pinged) blast+
qed

end

context services
begin

lemma push_Handle_frame:
  assumes "pwRdb W = R" and "\<And>a w r w'. pwDial W a w = (r, w') \<Longrightarrow> st w' = st w"
    and "\<And>a q w r w'. pwPush W a q w = (r, w') \<Longrightarrow> st w' = st w"
  shows "st (poWorld (snd (push_Handle W km s))) = st (poWorld s)"
proof -
  have attempts: "st (push_attempts W n addr req w) = st w" for n addr req w
  proof (induction n arbitrary: w)
    case (Suc n)
    then show ?case using assms(3) by (auto split: prod.splits sum.splits)
  qed simp
  have one: "st (poWorld (pushToOne W addr uid d f s)) = st (poWorld s)" for addr uid d f s
    by (auto simp: pushToOne_def pool_Get_def attempts dest!: assms(2) split: prod.splits sum.splits if_splits)
  have route: "st (poWorld (push_route W recv f route s)) = st (poWorld s)" for recv f route s
  proof (induction route arbitrary: s)
    case (Cons p route)
    obtain field addr where p: "p = (field, addr)" by (cases p)
    obtain e w1 where e: "rExists R (CometAliveKey addr) (poWorld s) = (e, w1)" by (cases "rExists R (CometAliveKey addr) (poWorld s)")
    from Exists [OF e] Cons show ?case by (auto simp: p assms(1) e one Let_def split: sum.splits)
  qed simp
  show ?thesis
    by (auto simp: push_Handle_def assms(1) route dest!: HGetAll split: sum.splits option.splits prod.splits)
qed

end

section \<open>Growth\<close>

abbreviation job_tabs :: "('w \<Rightarrow> svc) \<Rightarrow> 'w jobst \<Rightarrow> tables" where
  "job_tabs st s \<equiv> sTabs (st (poWorld (jsPool s)))"

text \<open>Everything on its way to the tables is one of \<open>items\<close>.\<close>

definition job_inv :: "('w \<Rightarrow> svc) \<Rightarrow> (bytes \<Rightarrow> PbMsg result) \<Rightarrow> storeItem list \<Rightarrow> 'w jobst \<Rightarrow> bool" where
  "job_inv st un items s \<longleftrightarrow> (\<forall>t. keys_ok (tMsg (job_tabs st s) t)) \<and> set (jsPending s) \<subseteq> set items \<and> parseStoreItem un ` set (jsChan s) \<subseteq> set items"

lemma RunLoop_one:
  assumes "\<And>km p. I (snd (handler km p)) = I p" and "\<And>km p. I (snd (commit km p)) = I p"
    and "RunLoop handler commit ended [f] p = (r, p')"
  shows "I p' = I p"
proof (cases f)
  case (Fetched km)
  from assms(1) [of km p] assms(2) [of km "snd (handler km p)"] assms(3) Fetched show ?thesis
    by (auto split: prod.splits sum.splits)
qed (use assms(3) in auto)

lemma in_pool_world [simp]: "poWorld (snd (in_pool f p)) = snd (f (poWorld p))"
  by (simp add: in_pool_def split: prod.splits)

lemma job_inv_same:
  "job_inv st un items s \<Longrightarrow> tMsg (job_tabs st s') = tMsg (job_tabs st s) \<Longrightarrow> jsPending s' = jsPending s \<Longrightarrow> jsChan s' = jsChan s \<Longrightarrow>
     job_inv st un items s' \<and> grows Q (job_tabs st s) (job_tabs st s')"
  by (simp add: job_inv_def)

lemma batch_step_grows:
  assumes "store_deps R M P now st W" and "\<forall>t. keys_ok (tMsg (sTabs (st w)) t)" and "set pending \<subseteq> set items"
    and "parseStoreItem (swUnmarshal W) ` set (taken [ev]) \<subseteq> set items" and "batch_step W ev pending w = (p, w')"
  shows "set p \<subseteq> set items \<and> grows (row_of items) (sTabs (st w)) (sTabs (st w'))"
proof -
  have f: "grows (row_of items) (sTabs (st w)) (sTabs (st (flush W b w)))" if "set b \<subseteq> set items" for b
    using store_deps.fold_flush_grows [OF assms(1,2), of "[b]" items] that by simp
  show ?thesis using assms(3-) by (cases ev) (auto simp: Let_def intro!: f split: if_splits, blast+)
qed

text \<open>The records the store loop fetches.\<close>

definition store_records :: "job_event list \<Rightarrow> kmsg list" where
  "store_records evs = concat (map (\<lambda>ev. case ev of Round (StoreRound (StoreFetched km b)) \<Rightarrow> [km] | _ \<Rightarrow> []) evs)"

lemma store_records_Cons:
  "set (store_records evs) \<subseteq> set (store_records (ev # evs))" "ev = Round (StoreRound (StoreFetched km b)) \<Longrightarrow> km \<in> set (store_records (ev # evs))"
  by (auto simp: store_records_def)

context job_host
begin

lemma job_store_deps:
  assumes "services (host_redis H cfg) db (host_writer H cfg) (hoNow H) st"
  shows "store_deps (host_redis H cfg) db (host_writer H cfg) (hoNow H) st (jbStore (job_built H L cfg db))"
proof -
  have "store_deps (host_redis H cfg) db (host_writer H cfg) (hoNow H) st
      (NewStoreWorker db (Send (hoEntropy H) (host_writer H cfg)) (jlCommit L rd) (Some (GroupMembers (host_redis H cfg) db)) (jlUnMsg L) (jlWait L))" for rd
    by (rule store_deps_wired [OF assms]) (use random committed paused in blast)+
  then show ?thesis by (simp add: job_built_def Let_def)
qed

lemma loop_round_grows:
  assumes "\<And>km p. tMsg (sTabs (st (poWorld (snd (handler km p))))) = tMsg (sTabs (st (poWorld p)))"
    and "RunLoop handler (\<lambda>km. in_pool (jlCommit L rd [km])) (\<lambda>p. jlEnded L (poWorld p)) [f] (jsPool s) = (r, p)"
    and "job_inv st un items s"
  shows "job_inv st un items (s\<lparr>jsPool := p\<rparr>) \<and> grows Q (job_tabs st s) (job_tabs st (s\<lparr>jsPool := p\<rparr>))"
proof -
  have commit: "tMsg (sTabs (st (poWorld (snd (in_pool (jlCommit L rd ks) p))))) = tMsg (sTabs (st (poWorld p)))" for ks p
    using committed by (metis in_pool_world prod.collapse)
  from RunLoop_one [of "\<lambda>p. tMsg (sTabs (st (poWorld p)))", OF assms(1) commit assms(2)] show ?thesis
    by (intro job_inv_same [OF assms(3)]) simp_all
qed

lemma batch_round_grows:
  assumes "store_deps R M P now st W" and "job_inv st (swUnmarshal W) items s"
    and "batch_step W ev (jsPending s) (poWorld (jsPool s)) = (pending, w)"
    and "set (taken [ev]) \<subseteq> set (jsChan s)" and "set ch \<subseteq> set (jsChan s)"
  shows "job_inv st (swUnmarshal W) items (s\<lparr>jsPending := pending, jsPool := (jsPool s)\<lparr>poWorld := w\<rparr>, jsChan := ch\<rparr>) \<and>
    grows (row_of items) (job_tabs st s) (sTabs (st w))"
proof -
  have k: "\<forall>t. keys_ok (tMsg (job_tabs st s) t)" "set (jsPending s) \<subseteq> set items" "parseStoreItem (swUnmarshal W) ` set (jsChan s) \<subseteq> set items"
    using assms(2) by (simp_all add: job_inv_def)
  then have "parseStoreItem (swUnmarshal W) ` set (taken [ev]) \<subseteq> set items" "parseStoreItem (swUnmarshal W) ` set ch \<subseteq> set items"
    using assms(4,5) by blast+
  with batch_step_grows [OF assms(1) k(1,2) _ assms(3)] k(1) show ?thesis by (simp add: job_inv_def grows_def)
qed

lemma job_step_grows:
  assumes "scan_services (host_redis H cfg) db (host_writer H cfg) (hoNow H) st left" and "J = job_built H L cfg db"
    and "job_inv st (jlUnMsg L) items s" and "\<forall>km b. q = StoreRound (StoreFetched km b) \<longrightarrow> parseStoreItem (jlUnMsg L) km \<in> set items"
    and "job_step L J q s = (r, s')"
  shows "job_inv st (jlUnMsg L) items s' \<and> grows (row_of items) (job_tabs st s) (job_tabs st s')"
proof -
  have sv: "services (host_redis H cfg) db (host_writer H cfg) (hoNow H) st" using assms(1) by (rule scan_services.axioms(1))
  have un: "swUnmarshal (jbStore J) = jlUnMsg L" by (simp add: assms(2) job_built_def NewStoreWorker_def Let_def)
  note batch = batch_round_grows [OF job_store_deps [OF sv, folded assms(2)], unfolded un, OF assms(3)]
  have keep: "tMsg (sTabs (st (poWorld (snd (push_Handle (jbPush J) km p))))) = tMsg (sTabs (st (poWorld p)))"
      "tMsg (sTabs (st (poWorld (snd (in_pool (jbGroup J km) p))))) = tMsg (sTabs (st (poWorld p)))" for km p
  proof -
    have "st (poWorld (snd (push_Handle (jbPush J) km p))) = st (poWorld p)"
      by (rule services.push_Handle_frame [OF sv]) (auto simp: assms(2) job_built_def Let_def dest: dialled pushes)
    then show "tMsg (sTabs (st (poWorld (snd (push_Handle (jbPush J) km p))))) = tMsg (sTabs (st (poWorld p)))" by simp
    show "tMsg (sTabs (st (poWorld (snd (in_pool (jbGroup J km) p))))) = tMsg (sTabs (st (poWorld p)))"
      using services.group_Handle_spec [OF sv, of "jlUnGroup L" km "poWorld p"]
      by (cases "group_Handle (host_redis H cfg) db (jlUnGroup L) km (poWorld p)") (auto simp: assms(2) job_built_def Let_def)
  qed
  show ?thesis
  proof (cases q)
    case (PushRound f)
    with assms(5) loop_round_grows [OF keep(1) _ assms(3)] show ?thesis by (auto simp: job_step_def Let_def split: prod.splits)
  next
    case (GroupRound f)
    with assms(5) loop_round_grows [OF keep(2) _ assms(3)] show ?thesis by (auto simp: job_step_def Let_def split: prod.splits)
  next
    case (StoreRound f)
    with assms(3-5) show ?thesis by (cases f) (auto simp: job_step_def job_inv_def Let_def grows_refl split: if_splits, blast?)
  next
    case TakeRound
    with assms(3,5) batch [of "Received (hd (jsChan s))" _ _ "tl (jsChan s)"] show ?thesis
      by (cases "jsChan s") (auto simp: job_step_def Let_def subset_insertI simp del: batch_step.simps split: prod.splits)
  next
    case TickRound
    with assms(5) batch [of Tick _ _ "jsChan s"] show ?thesis by (auto simp: job_step_def Let_def simp del: batch_step.simps split: prod.splits)
  next
    case CancelRound
    with assms(5) batch [of "Cancelled (jsChan s)" _ _ "[]"] show ?thesis by (auto simp: job_step_def Let_def simp del: batch_step.simps split: prod.splits)
  next
    case ReconcileRound
    have "jbRedis J = host_redis H cfg" by (simp add: assms(2) job_built_def Let_def)
    moreover obtain x w where "ReconcileOnce (host_redis H cfg) (poWorld (jsPool s)) = Some (x, w)" "pruned (st (poWorld (jsPool s))) (st w)"
      using scan_services.reconcile_scan_spec [OF assms(1)] unfolding ReconcileOnce_def by blast
    ultimately show ?thesis using ReconcileRound assms(5)
      by (intro job_inv_same [OF assms(3)]) (auto simp: job_step_def Let_def pruned_def)
  qed
qed

lemma job_rest_grows:
  assumes "scan_services (host_redis H cfg) db (host_writer H cfg) (hoNow H) st left" and "J = job_built H L cfg db"
    and "job_inv st (jlUnMsg L) items s" and "parseStoreItem (jlUnMsg L) ` set (store_records evs) \<subseteq> set items"
  shows "grows (row_of items) (job_tabs st s) (job_tabs st (job_rest L J evs s))"
  using assms(3,4)
proof (induction evs arbitrary: s)
  case (Cons ev evs)
  show ?case
  proof (cases ev)
    case (Round q)
    obtain r s1 where q: "job_step L J q s = (r, s1)" by (cases "job_step L J q s")
    have "\<forall>km b. q = StoreRound (StoreFetched km b) \<longrightarrow> parseStoreItem (jlUnMsg L) km \<in> set items" using Cons.prems(2) Round store_records_Cons(2) [of ev] by blast
    note S = job_step_grows [OF assms(1,2) Cons.prems(1) this q]
    moreover have "parseStoreItem (jlUnMsg L) ` set (store_records evs) \<subseteq> set items" using Cons.prems(2) store_records_Cons(1) [of evs ev] by blast
    ultimately show ?thesis using Cons.IH [of s1] Round q grows_trans by fastforce
  next
    case JobSignal
    with Cons show ?thesis by (simp add: store_records_def)
  qed
qed simp

lemma job_run_grows:
  assumes "scan_services (host_redis H cfg) db (host_writer H cfg) (hoNow H) st left" and "J = job_built H L cfg db"
    and "job_inv st (jlUnMsg L) items s" and "parseStoreItem (jlUnMsg L) ` set (store_records evs) \<subseteq> set items"
  shows "grows (row_of items) (job_tabs st s) (job_tabs st (snd (job_run L J evs s)))"
  using assms(3,4)
proof (induction evs arbitrary: s)
  case (Cons ev evs)
  have evs: "parseStoreItem (jlUnMsg L) ` set (store_records evs) \<subseteq> set items" using Cons.prems(2) store_records_Cons(1) [of evs ev] by blast
  show ?case
  proof (cases ev)
    case (Round q)
    obtain r s1 where q: "job_step L J q s = (r, s1)" by (cases "job_step L J q s")
    have "\<forall>km b. q = StoreRound (StoreFetched km b) \<longrightarrow> parseStoreItem (jlUnMsg L) km \<in> set items" using Cons.prems(2) Round store_records_Cons(2) [of ev] by blast
    note S = job_step_grows [OF assms(1,2) Cons.prems(1) this q]
    from S Cons.IH [of s1] job_rest_grows [OF assms(1,2) _ evs, of s1] evs
    have "grows (row_of items) (job_tabs st s) (job_tabs st (snd (job_run L J evs s1)))" "grows (row_of items) (job_tabs st s) (job_tabs st (job_rest L J evs s1))"
      by (blast intro: grows_trans)+
    with S q show ?thesis by (auto simp: Round split: option.splits sum.splits)
  next
    case JobSignal
    with job_rest_grows [OF assms(1,2) Cons.prems(1) evs] show ?thesis by simp
  qed
qed simp

end

section \<open>Properties\<close>

text \<open>
  C12: the message tables under a job process. Whatever order its workers make their rounds in, whatever
  Redis, MySQL, Kafka and the comets answer, and whether it ends by a signal, by a worker's error or not
  at all: no stored message is changed, moved or removed, both keys of every table stay unique, and each
  new row is a record the process fetched from \<open>msg.store\<close>, under its own id in the table of its
  conversation.
\<close>

theorem job_process_tables_grow:
  assumes "job_host H st L left" and "\<forall>t. keys_ok (tMsg (sTabs (st w)) t)" and "job_main H L path evs w = (x, w')"
  shows "\<forall>t. keys_ok (tMsg (sTabs (st w')) t) \<and> (\<exists>new. tMsg (sTabs (st w')) t = tMsg (sTabs (st w)) t @ new \<and>
    (\<forall>r \<in> set new. row_of (map (parseStoreItem (jlUnMsg L)) (store_records evs)) t r))"
proof -
  let ?items = "map (parseStoreItem (jlUnMsg L)) (store_records evs)"
  have host: "hosting H st" using assms(1) by (rule job_host.axioms(1))
  obtain y w1 where y: "job_boot H L path w = (y, w1)" by (cases "job_boot H L path w")
  note b = job_host.job_boot_ok [OF assms(1) y]
  have "grows (row_of ?items) (sTabs (st w)) (sTabs (st w'))"
  proof (cases y)
    case (Inl f)
    with assms(3) y b show ?thesis by (simp add: job_main_def)
  next
    case (Inr J)
    with b obtain cfg db where J: "J = job_built H L cfg db" "scan_services (host_redis H cfg) db (host_writer H cfg) (hoNow H) st left" by blast
    let ?s = "\<lparr>jsPool = NewCometPool w1, jsChan = [], jsPending = []\<rparr>"
    have i: "job_inv st (jlUnMsg L) ?items ?s" using assms(2) b by (simp add: job_inv_def NewCometPool_def)
    have "st w' = st (poWorld (jsPool (snd (job_run L J evs ?s))))"
      using assms(3) y Inr hosting.release_st [OF host] by (auto simp: job_main_def split: prod.splits exit.splits)
    with job_host.job_run_grows [OF assms(1) J(2,1) i] b show ?thesis by (simp add: NewCometPool_def)
  qed
  with assms(2) show ?thesis by (simp add: grows_def)
qed

definition demo_job_libs :: "mem job_libs" where
  "demo_job_libs =
    \<lparr>jlCommit = \<lambda>rd ks. mem_call (\<lambda>m. (Inr (), m)), jlEnded = \<lambda>_. False, jlUnEnvelope = \<lambda>_. Inl (Err ''proto''),
     jlUnMsg = \<lambda>b. if b = [] then Inl (Err ''proto'') else Inr demo_store_msg, jlUnGroup = \<lambda>_. Inl (Err ''json''), jlMarshal = \<lambda>_. Inr [],
     jlDial = \<lambda>a. mem_call (\<lambda>m. (Inr (), m)), jlPush = \<lambda>a q. mem_call (\<lambda>m. (Inr \<lparr>pfOnline = True\<rparr>, m)),
     jlHang = \<lambda>a. mem_call (\<lambda>m. (Inr (), m)), jlWait = \<lambda>n. mem_call (\<lambda>m. (Inr (), m))\<rparr>"

interpretation memj: job_host demo_host mem_st demo_job_libs "\<lambda>_. 0"
proof (rule job_host.intro [OF memh.hosting_axioms], rule job_host_axioms.intro)
  fix w db w' dsn addr pw n a b c wr
  assume "hoConnect demo_host dsn w = (Inr db, w')"
  then have "db = mem_mysql" by (auto simp: demo_host_def dest!: mem_call_idle)
  with memscan.scan_services_axioms
  show "scan_services (hoRedis demo_host addr pw n) (hoPool demo_host a b c db) (hoWriter demo_host wr) (hoNow demo_host) mem_st (\<lambda>_. 0)"
    by (simp add: demo_host_def)
qed (auto simp: demo_job_libs_def dest!: mem_call_idle)

theorem job_process_tables_grow_witness:
  "\<exists>x w'. job_main demo_host demo_job_libs ''c.yaml'' [Round (StoreRound (StoreFetched (demo_km [1]) True)), Round TakeRound, Round ReconcileRound,
      Round TickRound, JobSignal, Round CancelRound] (demo_world []) = (x, w') \<and> keys_ok (tMsg (sTabs (mem_st w')) (ShardTable ''c:1:2''))"
proof -
  let ?run = "job_main demo_host demo_job_libs ''c.yaml'' [Round (StoreRound (StoreFetched (demo_km [1]) True)), Round TakeRound, Round ReconcileRound,
      Round TickRound, JobSignal, Round CancelRound] (demo_world [])"
  obtain x w' where r: "?run = (x, w')" by (cases ?run)
  from job_process_tables_grow [OF memj.job_host_axioms demo_keys r] r show ?thesis by blast
qed

end
