(* ===== verification/Pipeline.thy ===== *)
theory Pipeline
  imports JobStore Sync
begin

text \<open>
  From an acknowledgement to the receiver's page: the logic server that accepts a message, the store
  worker that consumes its record from \<open>msg.store\<close>, and the logic server that answers a later pull. The
  three share the tables and the log of \<open>services\<close>; the codecs are parameters, which undo each other.
\<close>

section \<open>The acknowledged message\<close>

text \<open>The message that a request and its acknowledgement stand for.\<close>

definition acked :: "SendMsgReq \<Rightarrow> string \<Rightarrow> SendMsgAck \<Rightarrow> PbMsg" where
  "acked req conv ack =
     \<lparr>pmMsgId = saMsgId ack, pmConvId = conv, pmConvType = srConvType req, pmSenderId = srSenderId req,
      pmMsgType = srMsgType req, pmPayload = srPayload req, pmSeq = saSeq ack, pmTimestamp = saTimestamp ack, pmStatus = 0\<rparr>"

lemma acked_build: "ack = ack_of (build_msg req conv i sq ts) \<Longrightarrow> acked req conv ack = build_msg req conv i sq ts"
  by (simp add: acked_def ack_of_def build_msg_def)

lemma parse_uint_format_int: "parse_uint (format_int z) = Inr i \<Longrightarrow> z = int i"
proof (cases "z < 0")
  case True
  moreover assume "parse_uint (format_int z) = Inr i"
  ultimately show ?thesis by (simp add: format_int_def parse_uint_def is_digit_def split: if_splits)
next
  case False
  moreover assume p: "parse_uint (format_int z) = Inr i"
  ultimately have "parse_uint (format_nat (nat z)) = Inr i" by (simp add: format_int_def)
  then have "i = nat z" using parse_digits_format [of "nat z"] by (auto simp: parse_uint_def split: if_splits option.splits)
  with False show ?thesis by simp
qed

section \<open>Storing\<close>

text \<open>A message whose keys nothing else has, in the table or in its batch, is stored as its own row.\<close>

lemma flush_stores_own:
  assumes "store_deps R M P now st W" and "\<forall>t. keys_ok (tMsg (sTabs (st w)) t)"
    and "\<And>t k v hs w. \<not> isl (fst (swProducer W t k v hs w))"
    and "it \<in> set items" and "siMsg it = Some m" and "parse_uint (pmMsgId m) = Inr i"
    and "\<And>it' m'. it' \<in> set items \<Longrightarrow> siMsg it' = Some m' \<Longrightarrow> \<exists>i'. parse_uint (pmMsgId m') = Inr i' \<and>
      (m' = m \<or> \<not> same_key (msg_row i m) (msg_row i' m'))"
    and "\<And>r. r \<in> set (tMsg (sTabs (st w)) (ShardTable (pmConvId m))) \<Longrightarrow> \<not> same_key (msg_row i m) r"
  shows "clip_row (msg_row i m) \<in> set (tMsg (sTabs (st (flush W items w))) (ShardTable (pmConvId m))) \<or>
    (\<exists>recs. sLog (st (flush W items w)) = sLog (st w) @ recs \<and>
      map (\<lambda>k. (kmTopic k, kmKey k, kmValue k)) recs = map (\<lambda>it. (TopicDLQStore, kmKey (siKm it), kmValue (siKm it))) items)"
proof -
  let ?T = "sTabs (st (flush W items w))" and ?t = "ShardTable (pmConvId m)"
  have num: "\<not> isl (parse_uint (pmMsgId m'))"
    if "it' \<in> set items" "siMsg it' = Some m'" "ShardTable (pmConvId m') = ShardTable (pmConvId m)" for it' m'
    using assms(7) [OF that(1,2)] by auto
  have own: "r = clip_row (msg_row i m)" if "r \<in> set (tMsg ?T ?t)" "same_key (msg_row i m) r" for r
  proof -
    have "grows (row_of items) (sTabs (st w)) ?T" using store_deps.flush_spec [OF assms(1,2)] by blast
    with assms(2) obtain new where new: "tMsg ?T ?t = tMsg (sTabs (st w)) ?t @ new" "\<forall>r \<in> set new. row_of items ?t r"
      unfolding grows_def by blast
    with that assms(8) have "row_of items ?t r" by auto
    then obtain it' m' i' where m': "it' \<in> set items" "siMsg it' = Some m'" "parse_uint (pmMsgId m') = Inr i'" "r = clip_row (msg_row i' m')"
      unfolding row_of_def by blast
    with assms(7) [OF m'(1,2)] that(2) assms(6) show ?thesis by auto
  qed
  have "(\<exists>r \<in> set (tMsg ?T ?t). same_key (msg_row i m) r) \<or>
      (\<exists>recs. sLog (st (flush W items w)) = sLog (st w) @ recs \<and>
        map (\<lambda>k. (kmTopic k, kmKey k, kmValue k)) recs = map (\<lambda>it. (TopicDLQStore, kmKey (siKm it), kmValue (siKm it))) items)"
    by (rule flush_stores [OF assms(1-6)]) (use num in blast)
  with own show ?thesis by blast
qed

section \<open>Pulling\<close>

text \<open>
  A stored message after the cursor is on the page that answers a pull, unless the page is full of
  earlier ones.
\<close>

lemma pull_finds:
  assumes "services R M P now st" and "logic_ok (st w)" and "uk_conv_seq (sTabs (st w))"
    and "SyncPull (NewServer R M E P V (MySQLSyncStore M) now) q w = (resp, w')" and "yrCode resp = 0"
    and "r \<in> set (tMsg (sTabs (st w)) (ShardTable (yqConvId q)))" and "msConv r = yqConvId q" and "yqLocalMaxSeq q < msSeq r"
  shows "pbmsg_of_row r \<in> set (yrMessages resp) \<or>
    length (yrMessages resp) = nat (clampLimit (yqLimit q)) \<and> (\<forall>m \<in> set (yrMessages resp). pmSeq m < msSeq r)"
proof -
  let ?xs = "stored_after (yqConvId q) (yqLocalMaxSeq q) (sTabs (st w))" and ?n = "nat (clampLimit (yqLimit q))"
  have msgs: "yrMessages resp = map pbmsg_of_row (take ?n ?xs)" using services.SyncPull_page [OF assms(1,2,4,5)] by blast
  have r: "r \<in> set ?xs" using assms(6-8) by (simp add: set_stored_after)
  show ?thesis
  proof (cases "r \<in> set (take ?n ?xs)")
    case True
    then show ?thesis unfolding msgs by simp
  next
    case False
    then have d: "r \<in> set (drop ?n ?xs)" using r by (metis Un_iff append_take_drop_id set_append)
    then have "?n \<le> length ?xs" by (metis drop_all empty_iff linear list.set(1))
    moreover have "msSeq m < msSeq r" if "m \<in> set (take ?n ?xs)" for m
      using page_no_gap [OF assms(3) refl r that] False by (meson linorder_not_le)
    ultimately show ?thesis unfolding msgs by (auto simp: pbmsg_of_row_def)
  qed
qed

section \<open>From the acknowledgement to the page\<close>

text \<open>
  The batch \<open>kms\<close> of the store worker carries the acknowledged message: every record that sending it put
  on \<open>msg.store\<close> is in it, all its identifiers are numbers, and no other message of it or of the table has
  its identifier or its place in the conversation.
\<close>

definition carries :: "'w StoreWorker \<Rightarrow> kmsg list \<Rightarrow> kmsg list \<Rightarrow> PbMsg \<Rightarrow> tables \<Rightarrow> bool" where
  "carries W sent kms m T \<longleftrightarrow>
     (\<forall>k \<in> set sent. kmTopic k = TopicMsgStore \<longrightarrow> k \<in> set kms) \<and>
     (\<exists>i. parse_uint (pmMsgId m) = Inr i \<and>
       (\<forall>k \<in> set kms. \<forall>m'. swUnmarshal W (kmValue k) = Inr m' \<longrightarrow>
          (\<exists>i'. parse_uint (pmMsgId m') = Inr i' \<and> (m' = m \<or> \<not> same_key (msg_row i m) (msg_row i' m')))) \<and>
       (\<forall>r \<in> set (tMsg T (ShardTable (pmConvId m))). \<not> same_key (msg_row i m) r))"

lemma carried_stored:
  assumes "store_deps R M P now st W" and "\<forall>t. keys_ok (tMsg (sTabs (st w)) t)"
    and "\<And>t k v hs w. \<not> isl (fst (swProducer W t k v hs w))"
    and "\<And>m. \<exists>v. cdMsg C m = Inr v \<and> swUnmarshal W v = Inr m"
    and "carries W (send_batch C req m rs) kms m (sTabs (st w))"
  obtains (Stored) i where "parse_uint (pmMsgId m) = Inr i"
      "clip_row (msg_row i m) \<in> set (tMsg (sTabs (st (flush W (map (parseStoreItem (swUnmarshal W)) kms) w))) (ShardTable (pmConvId m)))"
  | (Dead) recs where "sLog (st (flush W (map (parseStoreItem (swUnmarshal W)) kms) w)) = sLog (st w) @ recs"
      "map (\<lambda>k. (kmTopic k, kmKey k, kmValue k)) recs = map (\<lambda>k. (TopicDLQStore, kmKey k, kmValue k)) kms"
proof -
  let ?items = "map (parseStoreItem (swUnmarshal W)) kms"
  have item: "siKm (parseStoreItem un k) = k" "siMsg (parseStoreItem un k) = (case un (kmValue k) of Inr m \<Rightarrow> Some m | Inl e \<Rightarrow> None)" for un k
    by (simp_all add: parseStoreItem_def split: sum.splits)
  obtain v where v: "cdMsg C m = Inr v" "swUnmarshal W v = Inr m" using assms(4) by blast
  let ?k = "store_record C req m"
  have k: "kmTopic ?k = TopicMsgStore" "kmValue ?k = v" using v(1) by (simp_all add: store_record_def)
  then have "?k \<in> set kms" using assms(5) by (simp add: carries_def send_batch_def)
  then have it: "parseStoreItem (swUnmarshal W) ?k \<in> set ?items" "siMsg (parseStoreItem (swUnmarshal W) ?k) = Some m"
    using v(2) k(2) by (simp_all add: item)
  obtain i where i: "parse_uint (pmMsgId m) = Inr i"
      "\<And>k m'. k \<in> set kms \<Longrightarrow> swUnmarshal W (kmValue k) = Inr m' \<Longrightarrow>
         \<exists>i'. parse_uint (pmMsgId m') = Inr i' \<and> (m' = m \<or> \<not> same_key (msg_row i m) (msg_row i' m'))"
      "\<And>r. r \<in> set (tMsg (sTabs (st w)) (ShardTable (pmConvId m))) \<Longrightarrow> \<not> same_key (msg_row i m) r"
    using assms(5) unfolding carries_def by blast
  have "clip_row (msg_row i m) \<in> set (tMsg (sTabs (st (flush W ?items w))) (ShardTable (pmConvId m))) \<or>
      (\<exists>recs. sLog (st (flush W ?items w)) = sLog (st w) @ recs \<and>
        map (\<lambda>k. (kmTopic k, kmKey k, kmValue k)) recs = map (\<lambda>it. (TopicDLQStore, kmKey (siKm it), kmValue (siKm it))) ?items)"
    by (rule flush_stores_own [OF assms(1-3) it i(1) _ i(3)]) (auto simp: item split: sum.splits dest: i(2))
  then show thesis using Stored [OF i(1)] Dead by (auto simp: item comp_def)
qed

section \<open>A codec\<close>

text \<open>An executable codec of messages: byte strings with a marker before each byte, numbers by their length.\<close>

fun enc_bytes :: "bytes \<Rightarrow> bytes" where
  "enc_bytes [] = [0]"
| "enc_bytes (b # bs) = 1 # b # enc_bytes bs"

fun dec_bytes :: "bytes \<Rightarrow> bytes \<times> bytes" where
  "dec_bytes (t # bs) =
     (if t = 0 then ([], bs) else case bs of [] \<Rightarrow> ([], []) | b # r \<Rightarrow> (let (x, r') = dec_bytes r in (b # x, r')))"
| "dec_bytes [] = ([], [])"

definition enc_int :: "int \<Rightarrow> bytes" where
  "enc_int z = (if z < 0 then 1 else 0) # enc_bytes (replicate (nat \<bar>z\<bar>) 0)"

definition dec_int :: "bytes \<Rightarrow> int \<times> bytes" where
  "dec_int bs = (let (x, r) = dec_bytes (tl bs) in (if hd bs = 1 then - int (length x) else int (length x), r))"

definition enc_msg :: "PbMsg \<Rightarrow> bytes" where
  "enc_msg m = enc_bytes (bytes_of (pmMsgId m)) @ enc_bytes (bytes_of (pmConvId m)) @ enc_int (pmConvType m) @ enc_int (pmSenderId m) @
     enc_int (pmMsgType m) @ enc_bytes (pmPayload m) @ enc_int (pmSeq m) @ enc_int (pmTimestamp m) @ enc_int (pmStatus m)"

definition dec_msg :: "bytes \<Rightarrow> PbMsg result" where
  "dec_msg bs =
     (let (i, b1) = dec_bytes bs; (c, b2) = dec_bytes b1; (ct, b3) = dec_int b2; (u, b4) = dec_int b3; (t, b5) = dec_int b4;
          (p, b6) = dec_bytes b5; (q, b7) = dec_int b6; (ts, b8) = dec_int b7; (sta, b9) = dec_int b8
      in Inr \<lparr>pmMsgId = map (\<lambda>b. char_of (unat b)) i, pmConvId = map (\<lambda>b. char_of (unat b)) c, pmConvType = ct, pmSenderId = u, pmMsgType = t, pmPayload = p,
             pmSeq = q, pmTimestamp = ts, pmStatus = sta\<rparr>)"

lemma dec_enc_bytes [simp]: "dec_bytes (enc_bytes x @ r) = (x, r)"
  by (induction x) simp_all

lemma dec_enc_int [simp]: "dec_int (enc_int z @ r) = (z, r)"
  by (simp add: dec_int_def enc_int_def)

lemma char_of_bytes_of [simp]: "map (\<lambda>b. char_of (unat b)) (bytes_of s) = s"
proof -
  have "unat (of_char c :: byte) = of_char c" for c
  proof -
    have "(of_char c :: byte) = of_nat (of_char c)" by (simp only: of_nat_of_char)
    moreover have "(of_char c :: nat) < 256" by simp
    ultimately show ?thesis by (simp add: unat_of_nat)
  qed
  then show ?thesis by (simp add: bytes_of_def comp_def)
qed

lemma dec_enc_msg [simp]: "dec_msg (enc_msg m) = Inr m"
proof -
  have "dec_int (enc_int z) = (z, [])" for z using dec_enc_int [of z "[]"] by simp
  then show ?thesis by (simp add: dec_msg_def enc_msg_def)
qed

text \<open>The demo server with the codec above, and a store worker that decodes with it.\<close>

definition msg_codec :: codec where
  "msg_codec = text_codec\<lparr>cdMsg := \<lambda>m. Inr (enc_msg m)\<rparr>"

definition msg_worker :: "mem StoreWorker" where
  "msg_worker = demo_store\<lparr>swProducer := demo_dlq, swUnmarshal := dec_msg\<rparr>"

lemma msg_worker_deps: "store_deps mem_redis mem_mysql mem_kafka mem_now mem_st msg_worker"
  using mems.store_deps_axioms by (auto simp: msg_worker_def store_deps_def store_deps_axioms_def demo_dlq_def sKeys_mem_st)

lemma msg_worker_ops: "swUnmarshal msg_worker = dec_msg" "\<not> isl (fst (swProducer msg_worker t k v hs w))"
    "cdMsg msg_codec m = Inr (enc_msg m)"
  by (simp_all add: msg_worker_def demo_dlq_def msg_codec_def)

lemma msg_send:
  "\<exists>ack n' w'. sendMsg demo_server msg_codec (demo_req ''m1'' ''c:1:2'' 1) demo_node (demo_world []) = (Ret ack, n', w') \<and>
     saCode ack = 0 \<and> mmTabs w' = demo_tables \<and> (\<exists>i. parse_uint (saMsgId ack) = Inr i)"
proof -
  let ?z = "compose_id 1704067200001 1 0"
  have "0 \<le> ?z \<and> ?z < 2 ^ 63" by (rule compose_id_positive) (simp_all add: ms_fits_def epochMs_def)
  then have "nat ?z < 2 ^ 64" "\<not> ?z < 0" by auto
  then have p: "parse_uint (format_int ?z) = Inr (nat ?z)" using parse_uint_format [of "nat ?z"] by (simp add: format_int_def)
  show ?thesis
    by (subst sendMsg_def, subst demo_normalise) (simp add: demo_eval msg_codec_def p)
qed

text \<open>The batch of exactly the records that sending put on \<open>msg.store\<close>.\<close>

lemma own_batch_carries:
  assumes "parse_uint (pmMsgId m) = Inr i" and "tMsg T (ShardTable (pmConvId m)) = []"
    and "cdMsg C m = Inr v" and "swUnmarshal W v = Inr m"
  shows "carries W (send_batch C req m rs) (filter (\<lambda>k. kmTopic k = TopicMsgStore) (send_batch C req m rs)) m T"
proof -
  have "kmTopic k \<noteq> TopicMsgStore" if "k \<in> set (map (push_record C req m) rs)" for k
    using that by (auto simp: push_record_def TopicMsgPush_def TopicMsgStore_def)
  then have "filter (\<lambda>k. kmTopic k = TopicMsgStore) (map (push_record C req m) rs) = []" by (simp add: filter_empty_conv)
  then have "filter (\<lambda>k. kmTopic k = TopicMsgStore) (send_batch C req m rs) = [store_record C req m]"
    by (simp add: send_batch_def store_record_def)
  moreover have "kmValue (store_record C req m) = v" using assms(3) by (simp add: store_record_def)
  ultimately show ?thesis using assms(1,2,4) unfolding carries_def by (auto simp: send_batch_def push_record_def TopicMsgPush_def TopicMsgStore_def)
qed

text \<open>A world with the message tables of another one, for the pull.\<close>

definition pulled_world :: "mem \<Rightarrow> mem" where
  "pulled_world v = (demo_world [])\<lparr>mmTabs := demo_tables\<lparr>tMsg := tMsg (mmTabs v)\<rparr>\<rparr>"

definition pull_server :: "mem Server" where
  "pull_server = NewServer mem_redis mem_mysql demo_entropy mem_kafka (\<lambda>u t m. (Inr (u, True), m)) (MySQLSyncStore mem_mysql) mem_now"

definition pull_req :: SyncPullReq where
  "pull_req = \<lparr>yqConvId = ''c:1:2'', yqLocalMaxSeq = 0, yqLimit = 10, yqUid = 2\<rparr>"

lemma pulled_world_ok:
  "tMsg (sTabs (mem_st (pulled_world v))) = tMsg (sTabs (mem_st v))" "logic_ok (mem_st (pulled_world v))"
  using demo_ok [of "[]"]
  by (auto simp: pulled_world_def demo_world_def logic_ok_def mem_st_def friends_coherent_def members_coherent_def members_wf_def
      idem_strings_def zset_at_def demo_tables_def int64_iff)

lemma pull_answers: "yrCode (fst (SyncPull pull_server pull_req (pulled_world v))) = 0"
  by (simp add: SyncPull_def pull_server_def pull_req_def checkSyncMember_def NewServer_def MySQLSyncStore_def PullMessages_def mem_mysql_def
      mem_call_def pulled_world_def demo_world_def ParseP2PConv_def ParseGroupConv_def Let_def split: option.splits)

lemma demo_accepted:
  assumes "sendMsg demo_server msg_codec (demo_req ''m1'' ''c:1:2'' 1) demo_node (demo_world []) = (Ret ack, n', w1)" and "saCode ack = 0"
  obtains j ts rs where "ack = ack_of (build_msg (demo_req ''m1'' ''c:1:2'' 1) ''c:1:2'' j (seq_view (mem_st (demo_world [])) ''c:1:2'' + 1) ts)"
    "drop (length (sLog (mem_st (demo_world [])))) (sLog (mem_st w1)) = send_batch msg_codec (demo_req ''m1'' ''c:1:2'' 1) (acked (demo_req ''m1'' ''c:1:2'' 1) ''c:1:2'' ack) rs"
    "0 < saSeq ack"
proof -
  let ?req = "demo_req ''m1'' ''c:1:2'' 1"
  have z: "seq_view (mem_st (demo_world [])) ''c:1:2'' = 0" by (simp add: seq_view_def mem_st_def demo_world_def)
  from send_deps.accept_spec [OF send_deps_wired [OF memt.timed_services_axioms] demo_ok demo_node_ok demo_normalise(1) demo_free
      assms(1) [unfolded demo_server_def] assms(2)]
  obtain j ts rs where a: "ack = ack_of (build_msg ?req ''c:1:2'' j (seq_view (mem_st (demo_world [])) ''c:1:2'' + 1) ts)"
      "sLog (mem_st w1) = sLog (mem_st (demo_world [])) @ send_batch msg_codec ?req (build_msg ?req ''c:1:2'' j (seq_view (mem_st (demo_world [])) ''c:1:2'' + 1) ts) rs"
    by blast
  show thesis by (rule that [OF a(1)]) (use a acked_build [OF a(1)] z in \<open>simp_all add: ack_of_def build_msg_def\<close>)
qed

end
