(* ===== verification/Delivery.thy ===== *)
theory Delivery
  imports CometRun JobPush
begin

text \<open>
  The push worker of \<^verbatim>\<open>internal/job\<close> against the comets themselves: the gRPC call of the worker is
  \<open>PushFrames\<close> of the comet at the address, which gets every request, while the answer may be lost on
  the way back. The log of requests determines the comets, each starting from a state of its own.
  Shown: what a sequence of requests for one user does to every connection.
\<close>

section \<open>The composition\<close>

type_synonym push_log = "(string \<times> PushFramesReq) list"

definition served :: "string \<times> PushFramesReq \<Rightarrow> (string \<Rightarrow> 'v comet) \<Rightarrow> string \<Rightarrow> 'v comet" where
  "served call G = G(fst call := snd (PushFrames (snd call) (G (fst call))))"

definition comets_after :: "(string \<Rightarrow> 'v comet) \<Rightarrow> push_log \<Rightarrow> string \<Rightarrow> 'v comet" where
  "comets_after G log = fold served log G"

definition comet_call :: "(string \<Rightarrow> 'v comet) \<Rightarrow> (push_log \<Rightarrow> bool) \<Rightarrow> string \<Rightarrow> PushFramesReq \<Rightarrow> ('w \<times> push_log, PushFramesResp) call" where
  "comet_call G lost addr req p =
     (if lost (snd p) then Inl (Err ''deadline exceeded'') else Inr (fst (PushFrames req (comets_after G (snd p) addr))),
      (fst p, snd p @ [(addr, req)]))"

definition cluster_worker ::
  "'w redis \<Rightarrow> (bytes \<Rightarrow> Envelope result) \<Rightarrow> (PbMsg \<Rightarrow> bytes result) \<Rightarrow> (string \<Rightarrow> 'v comet) \<Rightarrow> (push_log \<Rightarrow> bool) \<Rightarrow> ('w \<times> push_log) PushWorker" where
  "cluster_worker R un ma G lost =
    \<lparr>pwRdb = beside_redis R, pwUnmarshal = un, pwMarshal = ma, pwDial = \<lambda>addr p. (Inr (), p),
     pwPush = comet_call G lost, pwHang = \<lambda>addr p. (Inr (), p)\<rparr>"

lemma cluster_deps:
  assumes "services R M P now st"
  shows "push_deps (beside_redis R) (beside_mysql M) (\<lambda>m. beside (P m)) (beside now) (\<lambda>p. st (fst p)) (cluster_worker R un ma G lost) snd"
  by (intro push_deps.intro push_deps_axioms.intro services_beside assms)
    (auto simp: cluster_worker_def comet_call_def beside_redis_def beside_def)

section \<open>What requests do to connections\<close>

lemma PushFrames_steady: "steady s (snd (PushFrames req s))"
proof -
  have "coBuckets (snd (push_all c frames s)) = coBuckets s \<and> (\<forall>d. cnClosed (conn (snd (push_all c frames s)) d) = cnClosed (conn s d))" for c frames
  proof (induction frames arbitrary: s)
    case (Cons f frames)
    have "coBuckets (snd (Push c f s)) = coBuckets s \<and> (\<forall>d. cnClosed (conn (snd (Push c f s)) d) = cnClosed (conn s d))"
      by (simp add: Push_def conn_upd_def)
    with Cons.IH [of "snd (Push c f s)"] show ?case by (cases "Push c f s") (auto split: sum.splits)
  qed simp
  then show ?thesis using quiet_grpc(1) [of s req] by (auto simp: steady_def PushFrames_def split_def Let_def split: option.splits)
qed

lemma PushFrames_conn:
  assumes "comet_inv s"
  shows "conn (snd (PushFrames req s)) c =
    (if bucket_get (DeviceKey (pfUid req) (pfDeviceId req)) (bucket s (pfUid req)) = Some c \<and> \<not> cnClosed (conn s c)
     then (conn s c)\<lparr>cnSend := take sendChanSize (cnSend (conn s c) @ pfFrames req)\<rparr> else conn s c)"
proof (cases "bucket_get (DeviceKey (pfUid req) (pfDeviceId req)) (bucket s (pfUid req))")
  case None
  then show ?thesis by (simp add: PushFrames_def)
next
  case (Some e)
  obtain ok s1 where p: "push_all e (pfFrames req) s = (ok, s1)" by (cases "push_all e (pfFrames req) s")
  have q: "length (cnSend (conn s e)) \<le> sendChanSize" using assms by (simp add: comet_inv_def)
  from push_all_spec [OF p q] Some p q show ?thesis
    by (auto simp: PushFrames_def Let_def conn_upd_def min_def)
qed

lemma served_at: "served (a, q) G b = (if b = a then snd (PushFrames q (G a)) else G b)"
  by (simp add: served_def)

lemma served_inv: "\<forall>a. comet_inv (G a) \<Longrightarrow> comet_inv (served call G a)"
  using inv_quiet [OF _ quiet_grpc(1)] by (auto simp: served_def)

lemma served_steady: "steady (G a) (served call G a)"
  by (simp add: served_def PushFrames_steady)

text \<open>The requests of a log for one device of a user at one address.\<close>

definition aimed :: "string \<Rightarrow> string \<Rightarrow> push_log \<Rightarrow> nat" where
  "aimed addr device log = length (filter (\<lambda>(a, q). a = addr \<and> pfDeviceId q = device) log)"

lemma take_take_append: "take n (take n (xs @ [x]) @ replicate k x) = take n (xs @ replicate (Suc k) x)"
  by (cases "n \<le> length xs") (simp_all add: min_def replicate_app_Cons_same)

lemma comets_after_conn:
  assumes "\<forall>a. comet_inv (G a)" and "\<forall>(a, q) \<in> set log. pfUid q = uid \<and> pfFrames q = [frame]"
  shows "conn (comets_after G log addr) c =
    (if cnUid (conn (G addr) c) = uid \<and> bucket_get (DeviceKey uid (cnDeviceID (conn (G addr) c))) (bucket (G addr) uid) = Some c \<and>
        \<not> cnClosed (conn (G addr) c)
     then (conn (G addr) c)\<lparr>cnSend := take sendChanSize (cnSend (conn (G addr) c) @ replicate (aimed addr (cnDeviceID (conn (G addr) c)) log) frame)\<rparr>
     else conn (G addr) c)"
  using assms
proof (induction log arbitrary: G)
  case Nil
  then have "length (cnSend (conn (G addr) c)) \<le> sendChanSize" by (simp add: comet_inv_def)
  then show ?case by (simp add: aimed_def comets_after_def)
next
  case (Cons call log)
  obtain a q where call: "call = (a, q)" by (cases call)
  let ?G = "served call G"
  have inv: "\<forall>b. comet_inv (?G b)" using Cons.prems(1) by (simp add: served_inv)
  have uid: "pfUid q = uid" "pfFrames q = [frame]" and rest: "\<forall>(a, q) \<in> set log. pfUid q = uid \<and> pfFrames q = [frame]"
    using Cons.prems(2) by (auto simp: call)
  have eq: "comets_after G (call # log) = comets_after ?G log" by (simp add: comets_after_def)
  note IH = Cons.IH [OF inv rest]
  show ?case
  proof (cases "a = addr")
    case False
    then have G: "?G addr = G addr" by (simp add: call served_at)
    show ?thesis unfolding eq IH G using False by (simp add: aimed_def call)
  next
    case True
    let ?s = "G addr" and ?t = "snd (PushFrames q (G addr))"
    have st: "quiet ?s ?t" "coBuckets ?t = coBuckets ?s" "\<And>d. cnClosed (conn ?t d) = cnClosed (conn ?s d)"
      using PushFrames_steady [of ?s q] by (simp_all add: steady_def)
    have hit: "cnUid (conn ?s c) = uid \<and> cnDeviceID (conn ?s c) = pfDeviceId q"
      if "bucket_get (DeviceKey uid (pfDeviceId q)) (bucket ?s uid) = Some c"
      using inv_get [OF _ that] Cons.prems(1) by auto
    have G: "?G addr = ?t" using True by (simp add: call served_at)
    note C = PushFrames_conn [OF Cons.prems(1) [rule_format, of addr], of q c, unfolded uid]
    show ?thesis
    proof (cases "bucket_get (DeviceKey uid (pfDeviceId q)) (bucket ?s uid) = Some c \<and> \<not> cnClosed (conn ?s c)")
      case hits: True
      with C have t: "conn ?t c = (conn ?s c)\<lparr>cnSend := take sendChanSize (cnSend (conn ?s c) @ [frame])\<rparr>" by simp
      have "aimed addr (pfDeviceId q) (call # log) = Suc (aimed addr (pfDeviceId q) log)" using True by (simp add: aimed_def call)
      with hits hit show ?thesis unfolding eq IH G st t by (simp add: take_take_append del: take_append take_replicate replicate_Suc)
    next
      case miss: False
      have t: "conn ?t c = conn ?s c" by (rule trans [OF C if_not_P [OF miss]])
      have "aimed addr (cnDeviceID (conn ?s c)) (call # log) = aimed addr (cnDeviceID (conn ?s c)) log"
        if "bucket_get (DeviceKey uid (cnDeviceID (conn ?s c))) (bucket ?s uid) = Some c" "\<not> cnClosed (conn ?s c)"
        using that miss by (auto simp: aimed_def call)
      then show ?thesis unfolding eq IH G st t by simp
    qed
  qed
qed

text \<open>
  Handling a record of \<open>msg.push\<close> for a user: what happens to every connection of every comet.
\<close>

lemma push_Handle_delivers:
  assumes "services R M P now st" and "\<forall>a. comet_inv (G a)"
    and "push_Handle (cluster_worker R un ma G lost) km (NewCometPool (w, [])) = (r, s')"
    and "un (kmValue km) = Inr env" and "enMsg env = Some msg" and "BuildPushFrame ma msg = Inr frame"
  obtains log where "snd (poWorld s') = log"
    and "\<And>a c. cnUid (conn (G a) c) \<noteq> enRecvUid env \<Longrightarrow> conn (comets_after G log a) c = conn (G a) c"
    and "\<And>a c. \<exists>n. cnSend (conn (comets_after G log a) c) = take sendChanSize (cnSend (conn (G a) c) @ replicate n frame)"
    and "\<And>a c p. \<lbrakk>\<forall>k w. \<not> isl (fst (rExists R k w)) \<and> \<not> isl (fst (rHGetAll R k w)); 0 < enRecvUid env;
        hash_at (sKeys (st w)) (RouteKey (enRecvUid env)) (routeField p (cnDeviceID (conn (G a) c))) = Some a; comet_alive (st w) a;
        cnUid (conn (G a) c) = enRecvUid env; \<not> cnClosed (conn (G a) c);
        bucket_get (DeviceKey (enRecvUid env) (cnDeviceID (conn (G a) c))) (bucket (G a) (enRecvUid env)) = Some c\<rbrakk> \<Longrightarrow>
      \<exists>n > 0. cnSend (conn (comets_after G log a) c) = take sendChanSize (cnSend (conn (G a) c) @ replicate n frame)"
proof -
  let ?W = "cluster_worker R un ma G lost" and ?u = "enRecvUid env"
  have W: "pwUnmarshal ?W = un" "pwMarshal ?W = ma" by (simp_all add: cluster_worker_def)
  have pool: "poWorld (NewCometPool (w, [])) = (w, [])" by (simp add: NewCometPool_def)
  note H = push_deps.push_Handle_spec [OF cluster_deps [OF assms(1)] assms(3), unfolded W pool, OF assms(4,5), unfolded fst_conv snd_conv append_Nil]
  from H obtain log where log: "snd (poWorld s') = log"
      "\<forall>(a, q) \<in> set log. 0 < ?u \<and> comet_alive (st w) a \<and>
        (\<exists>field frame. hash_at (sKeys (st w)) (RouteKey ?u) field = Some a \<and> BuildPushFrame ma msg = Inr frame \<and> q = push_req ?u frame field)"
      "(\<forall>a p. \<not> isl (fst (pwDial ?W a p))) \<longrightarrow>
       (\<forall>k (p :: _ \<times> push_log). \<not> isl (fst (rExists (beside_redis R) k p)) \<and> \<not> isl (fst (rHGetAll (beside_redis R) k p))) \<longrightarrow> 0 < ?u \<longrightarrow>
       (\<forall>field a frame. hash_at (sKeys (st w)) (RouteKey ?u) field = Some a \<longrightarrow> comet_alive (st w) a \<longrightarrow>
          BuildPushFrame ma msg = Inr frame \<longrightarrow> (a, push_req ?u frame field) \<in> set log)"
    by (elim conjE exE) (rule that, assumption+)
  have all: "\<forall>(a, q) \<in> set log. pfUid q = ?u \<and> pfFrames q = [frame]" using log(2) assms(6) by (fastforce simp: push_req_def)
  note C = comets_after_conn [OF assms(2) all]
  show ?thesis
  proof (rule that [OF log(1)])
    show "conn (comets_after G log a) c = conn (G a) c" if "cnUid (conn (G a) c) \<noteq> ?u" for a c using that unfolding C by simp
  next
    fix a c
    have "take sendChanSize (cnSend (conn (G a) c)) = cnSend (conn (G a) c)" using assms(2) by (simp add: comet_inv_def)
    then show "\<exists>n. cnSend (conn (comets_after G log a) c) = take sendChanSize (cnSend (conn (G a) c) @ replicate n frame)"
      unfolding C by (auto simp del: take_append intro: exI [of _ 0])
  next
    fix a c p
    assume R: "\<forall>k w. \<not> isl (fst (rExists R k w)) \<and> \<not> isl (fst (rHGetAll R k w))" and u: "0 < ?u"
      and route: "hash_at (sKeys (st w)) (RouteKey ?u) (routeField p (cnDeviceID (conn (G a) c))) = Some a" "comet_alive (st w) a"
      and c: "cnUid (conn (G a) c) = ?u" "\<not> cnClosed (conn (G a) c)"
        "bucket_get (DeviceKey ?u (cnDeviceID (conn (G a) c))) (bucket (G a) ?u) = Some c"
    have "(a, push_req ?u frame (routeField p (cnDeviceID (conn (G a) c)))) \<in> set log"
      using log(3) R u route assms(6) by (simp add: cluster_worker_def beside_redis_def beside_def)
    then have "(a, push_req ?u frame (routeField p (cnDeviceID (conn (G a) c)))) \<in> set (filter (\<lambda>(b, q). b = a \<and> pfDeviceId q = cnDeviceID (conn (G a) c)) log)"
      by (simp add: push_req_def deviceOfField_routeField del: deviceOfField.simps)
    then have "0 < aimed a (cnDeviceID (conn (G a) c)) log" unfolding aimed_def by (rule length_pos_if_in_set)
    with c show "\<exists>n > 0. cnSend (conn (comets_after G log a) c) = take sendChanSize (cnSend (conn (G a) c) @ replicate n frame)"
      unfolding C by (auto simp del: take_append)
  qed
qed

section \<open>A cluster to run\<close>

text \<open>The world in memory with reads that never fail; and a comet on which user 7 is online.\<close>

definition sure_redis :: "mem redis" where
  "sure_redis = mem_redis\<lparr>rExists := \<lambda>k m. (Inr (if map_of (mmKeys m) k = None then 0 else 1), m),
     rHGetAll := \<lambda>k m. (Inr (case mem_hash k m of Inl e \<Rightarrow> [] | Inr h \<Rightarrow> map (\<lambda>f. (f, the (map_of h f))) (remdups (map fst h))), m)\<rparr>"

lemma sure_reads:
  "rExists sure_redis k w = (res, w') \<Longrightarrow> mem_st w' = mem_st w \<and>
     (\<forall>n. res = Inr n \<longrightarrow> n = (if sKeys (mem_st w) k = None then 0 else 1))"
  "rHGetAll sure_redis k w = (all, w') \<Longrightarrow> mem_st w' = mem_st w \<and>
     (\<forall>kvs. all = Inr kvs \<longrightarrow> distinct (map fst kvs) \<and> map_of kvs = hash_at (sKeys (mem_st w)) k)"
  by (auto simp: sure_redis_def mem_st_def mem_hash_def hash_at_def map_of_remdups_keys comp_def split: option.splits rvalue.splits)

lemma sure_same:
  "rGet sure_redis = rGet mem_redis" "rSet sure_redis = rSet mem_redis" "rSetNX sure_redis = rSetNX mem_redis"
  "rDel sure_redis = rDel mem_redis" "rIncr sure_redis = rIncr mem_redis" "rHSet sure_redis = rHSet mem_redis"
  "rHDel sure_redis = rHDel mem_redis" "rHLen sure_redis = rHLen mem_redis" "rSMembers sure_redis = rSMembers mem_redis"
  "rSAdd sure_redis = rSAdd mem_redis" "rExpire sure_redis = rExpire mem_redis" "rZRank sure_redis = rZRank mem_redis"
  "rZAdd sure_redis = rZAdd mem_redis" "rScan sure_redis = rScan mem_redis"
  by (simp_all add: sure_redis_def)

interpretation sure: services sure_redis mem_mysql mem_kafka mem_now mem_st
  by unfold_locales (unfold sure_same, (erule sure_reads mem_laws)+)

definition demo_online_routes :: mem where
  "demo_online_routes = (demo_world [])\<lparr>mmKeys := [(RouteKey 7, VHash [(routeField 1 ''d1'', ''a:1'')]), (CometAliveKey ''a:1'', VStr ''1'')]\<rparr>"

definition demo_cluster :: "(mem \<times> push_log) PushWorker" where
  "demo_cluster = cluster_worker sure_redis (\<lambda>b. Inr \<lparr>enRecvUid = 7, enMsg = Some demo_store_msg\<rparr>) (\<lambda>m. Inr [7]) (\<lambda>_. demo_online) (\<lambda>log. log = [])"

end
