(* ===== verification/SignIn.thy ===== *)
theory SignIn
  imports CometRun JobPush LogicToken AccountRun
begin

text \<open>
  Signing in across the three services: the comet asks the logic server, whose HTTP client asks the
  account service. The account service runs beside the stores of the logic server, with stores of its
  own; the exchange reaches the router of \<^verbatim>\<open>internal/account\<close> or fails. Shown: the logic server's
  client vouches for a user only if the account service's JWT library accepts the token as an access
  token of that user.
\<close>

section \<open>The composition\<close>

definition verify_request :: "string \<Rightarrow> request" where
  "verify_request body =
    \<lparr>hqMethod = ''POST'', hqPath = [''internal'', ''v1'', ''verify''], hqAuth = [], hqBody = bytes_of body, hqValues = []\<rparr>"

definition account_exchange :: "'v Handler \<Rightarrow> (envelope \<Rightarrow> string) \<Rightarrow> ('v acct \<Rightarrow> bool) \<Rightarrow> string \<Rightarrow> ('w \<times> 'v acct, int \<times> string) call" where
  "account_exchange h render down body p =
     (if down (snd p) then (Inl (Err ''connection refused''), p)
      else case serve h (verify_request body) (snd p) of
        (Ret (Json status e # _), a) \<Rightarrow> (Inr (status, render e), (fst p, a))
      | (Ret (Text status # _), a) \<Rightarrow> (Inr (status, []), (fst p, a))
      | (_, a) \<Rightarrow> (Inl (Err ''timeout''), (fst p, a)))"

definition account_client ::
  "string \<Rightarrow> 'v Handler \<Rightarrow> (string \<Rightarrow> string result) \<Rightarrow> (envelope \<Rightarrow> string) \<Rightarrow> (string \<Rightarrow> accountVerifyResponse result) \<Rightarrow> ('v acct \<Rightarrow> bool) \<Rightarrow>
   ('w \<times> 'v acct) HTTPVerifier" where
  "account_client addr h ma render un down =
    \<lparr>hvAddr = addr, hvMarshal = ma, hvNewRequest = \<lambda>url. None, hvDo = \<lambda>url. account_exchange h render down, hvDecode = un\<rparr>"

text \<open>What the two JSON codecs must agree on: the token of a request, and user and verdict of a reply.\<close>

definition json_agrees ::
  "json_in \<Rightarrow> (string \<Rightarrow> string result) \<Rightarrow> (envelope \<Rightarrow> string) \<Rightarrow> (string \<Rightarrow> accountVerifyResponse result) \<Rightarrow> bool" where
  "json_agrees j ma render un \<longleftrightarrow>
     (\<forall>t body big t'. ma t = Inr body \<longrightarrow> jiVerify j (take maxRequestBody (bytes_of body)) big = Inr t' \<longrightarrow> t' = t) \<and>
     (\<forall>code v out. un (take maxVerifyBody (render \<lparr>evCode = code, evData = DVerify v\<rparr>)) = Inr out \<longrightarrow>
        avUID out = vrUID v \<and> avValid out = vrValid v)"

text \<open>Whose access token a token is, according to the JWT library and the service's key.\<close>

definition access_token :: "jwt \<Rightarrow> TokenManager \<Rightarrow> string \<Rightarrow> int \<Rightarrow> bool" where
  "access_token J tm token uid \<longleftrightarrow>
     (\<exists>n c. jwParse J [''HS256''] (hmac_key (tmSecret tm)) n token = Inr c \<and> clType c = TokenTypeAccess \<and> clUID c = uid)"

definition token_owner :: "jwt \<Rightarrow> TokenManager \<Rightarrow> string \<Rightarrow> int option" where
  "token_owner J tm token = (if \<exists>u. access_token J tm token u then Some (THE u. access_token J tm token u) else None)"

text \<open>The claims of a token do not depend on the time it is parsed at.\<close>

definition claims_fixed :: "jwt \<Rightarrow> bool" where
  "claims_fixed J \<longleftrightarrow> (\<forall>ms key n n' t c c'. jwParse J ms key n t = Inr c \<longrightarrow> jwParse J ms key n' t = Inr c' \<longrightarrow> c' = c)"

lemma token_owner_iff:
  assumes "claims_fixed J"
  shows "token_owner J tm token = Some u \<longleftrightarrow> access_token J tm token u"
proof -
  have uniq: "v = u" if "access_token J tm token u" "access_token J tm token v" for u v
    using that assms unfolding access_token_def claims_fixed_def by metis
  show ?thesis
  proof
    assume o: "token_owner J tm token = Some u"
    then have u: "u = (THE u. access_token J tm token u)" by (simp add: token_owner_def split: if_splits)
    from o obtain v where v: "access_token J tm token v" by (auto simp: token_owner_def split: if_splits)
    have "(THE u. access_token J tm token u) = v" using v by (rule the_equality) (rule uniq [OF v])
    with u v show "access_token J tm token u" by simp
  next
    assume u: "access_token J tm token u"
    then have "(THE u. access_token J tm token u) = u" by (rule the_equality) (rule uniq [OF u])
    with u show "token_owner J tm token = Some u" by (auto simp: token_owner_def)
  qed
qed

section \<open>The verifier\<close>

lemma serve_verify:
  "serve h (verify_request body) a = (case handleVerify h (verify_request body) a of (Panic, a1) \<Rightarrow> (Ret (writeJSON 500 CodeStorageError NoData), a1) | res \<Rightarrow> res)"
proof -
  have "(verify_request body)\<lparr>hqValues := []\<rparr> = verify_request body" by (simp add: verify_request_def)
  then show ?thesis by (simp add: serve_def recoverMiddleware_def NewRouter_def) (simp add: verify_request_def)
qed

lemma account_verifier:
  assumes "account_deps R M P now st B J" and "json_agrees j ma render un"
    and "HTTPVerifier_Verify (account_client addr (account_handler R M now producer tm J B C j) ma render un down) uid token p = (res, p')"
  shows "fst p' = fst p \<and> (\<forall>r. res = Inr (r, True) \<longrightarrow> access_token J tm token r)"
proof -
  let ?S = "NewService (mysqlStore M C) (redisTokenCache R) tm J B now"
  let ?h = "account_handler R M now producer tm J B C j"
  have H: "haSvc ?h = ?S" "haJson ?h = j" by (simp_all add: account_handler_def NewHandler_def)
  have keep: "account_exchange ?h render down body p = (x, q) \<Longrightarrow> fst q = fst p" for body x q
    by (auto simp: account_exchange_def split: if_splits prod.splits outcome.splits list.splits reply.splits)
  have ok: "access_token J tm token r"
    if m: "ma token = Inr body" and e: "account_exchange ?h render down body p = (Inr (status, resp), q)" "200 \<le> status" "status < 300"
      and d: "un (take maxVerifyBody resp) = Inr out" "avUID out = r" "avValid out" for body status resp q out r
  proof (cases "decodeBody (jiVerify j) (verify_request body)")
    case (Inl resp')
    with e show ?thesis
      by (auto simp: account_exchange_def serve_verify handleVerify_def H decodeBody_def writeJSON_def split: if_splits sum.splits)
  next
    case (Inr t)
    then have t: "t = token" using m assms(2) by (auto simp: json_agrees_def decodeBody_def verify_request_def split: sum.splits)
    obtain v err a where v: "Verify ?S token (snd p) = ((v, err), a)" by (metis prod.exhaust)
    note V = account_deps.Verify_spec [OF assms(1) v]
    have "vrUID v = r \<and> vrValid v"
    proof (cases err)
      case None
      with e Inr t v have "resp = render \<lparr>evCode = AccountOK, evData = DVerify v\<rparr>"
        by (auto simp: account_exchange_def serve_verify handleVerify_def H writeJSON_def split: if_splits)
      with d assms(2) show ?thesis unfolding json_agrees_def by metis
    next
      case (Some er)
      with e Inr t v have "resp = render \<lparr>evCode = CodeUnauthorized, evData = DVerify v\<rparr>"
        by (auto simp: account_exchange_def serve_verify handleVerify_def H writeJSON_def writeBizError_def Let_def split: if_splits aerror.splits)
      with d assms(2) show ?thesis unfolding json_agrees_def by metis
    qed
    with V show ?thesis unfolding access_token_def by metis
  qed
  show ?thesis
    using assms(3)
    by (auto simp: HTTPVerifier_Verify_def account_client_def Let_def not_less not_le dest: keep intro: ok split: sum.splits if_splits prod.splits)
qed

section \<open>From the frame to the token\<close>

lemma verify_chain:
  assumes "account_deps RA MA PA nowA stA B J" and "services R M P now st" and "json_agrees j ma render un" and "claims_fixed J"
    and "digests_differ T" and "cached_yes_right (token_owner J tm) T (st (fst p))" and "vtqToken q \<in> T"
    and "VerifyToken (NewServer (beside_redis R) (beside_mysql M) E (\<lambda>m. beside (P m))
      (HTTPVerifier_Verify (account_client addr (account_handler RA MA nowA producer tm J B C j) ma render un down)) Y (beside now)) q p = (resp, p')"
  shows "cached_yes_right (token_owner J tm) T (st (fst p')) \<and> (vtrValid resp \<and> vtrUid resp \<noteq> 0 \<longrightarrow> access_token J tm (vtqToken q) (vtrUid resp))"
proof (cases "vtqToken q = []")
  case True
  with assms(6,8) show ?thesis by (auto simp: VerifyToken_def)
next
  case False
  let ?V = "HTTPVerifier_Verify (account_client addr (account_handler RA MA nowA producer tm J B C j) ma render un down)"
  let ?S = "NewServer (beside_redis R) (beside_mysql M) E (\<lambda>m. beside (P m)) ?V Y (beside now)"
  obtain r valid code p1 where f: "verifyTokenFlow ?S (vtqUid q) (vtqToken q) p = ((r, valid, code), p1)" by (metis surj_pair)
  have "verifier_sound (\<lambda>p. st (fst p)) (token_owner J tm) ?V"
    unfolding verifier_sound_def token_owner_iff [OF assms(4)] using account_verifier [OF assms(1,3)] by metis
  then have S: "vCache ?S = redisCache (beside_redis R)" "verifier_sound (\<lambda>p. st (fst p)) (token_owner J tm) (vVerifier ?S)"
    by (simp_all add: NewServer_def)
  from services.verifyTokenFlow_sound [OF services_beside [OF assms(2)] S assms(5-7) f] assms(8) False f
  show ?thesis by (auto simp: VerifyToken_def token_owner_iff [OF assms(4)])
qed

section \<open>Three services to run\<close>

definition demo_token :: string where "demo_token = ''a7:1893456000:0''"

definition demo_wire_json :: "json_in \<times> (string \<Rightarrow> string result) \<times> (envelope \<Rightarrow> string) \<times> (string \<Rightarrow> accountVerifyResponse result)" where
  "demo_wire_json =
    (demo_json\<lparr>jiVerify := \<lambda>b big. Inr demo_token\<rparr>, \<lambda>t. if t = demo_token then Inr ''t'' else Inl (Err ''json''),
     \<lambda>e. if evData e = DVerify \<lparr>vrUID = 7, vrValid = True\<rparr> then ''y'' else [],
     \<lambda>b. if b = ''y'' then Inr \<lparr>avCode = 0, avMsg = [], avUID = 7, avValid = True\<rparr> else Inl (Err ''json''))"

lemma demo_json_agrees:
  "json_agrees (fst demo_wire_json) (fst (snd demo_wire_json)) (fst (snd (snd demo_wire_json))) (snd (snd (snd demo_wire_json)))"
  by (auto simp: json_agrees_def demo_wire_json_def maxVerifyBody_def split: if_splits)

lemma demo_claims_fixed: "claims_fixed demo_jwt"
  by (auto simp: claims_fixed_def demo_jwt_def split: sum.splits list.splits if_splits)

definition demo_verify :: "(mem \<times> mem acct) HTTPVerifier" where
  "demo_verify = account_client ''http://account'' (account_handler mem_redis mem_mysql mem_now None demo_tm demo_jwt demo_bcrypt (map lower_char) (fst demo_wire_json))
     (fst (snd demo_wire_json)) (fst (snd (snd demo_wire_json))) (snd (snd (snd demo_wire_json))) (\<lambda>_. False)"

definition demo_chain :: "(mem \<times> mem acct) LogicClient" where
  "demo_chain =
    \<lparr>lcVerifyToken = \<lambda>q p. let (resp, p') = VerifyToken (NewServer (beside_redis mem_redis) (beside_mysql mem_mysql)
        \<lparr>eRead = \<lambda>p. (Inr [], p), eUnixNano = beside mem_now\<rparr> (\<lambda>m. beside (mem_kafka m)) (HTTPVerifier_Verify demo_verify)
        \<lparr>ssPullMessages = \<lambda>u c a l p. (Inr ([], 0), p), ssPendingConvs = \<lambda>u p. (Inr [], p), ssMarkRead = \<lambda>u c q p. (Inr (), p)\<rparr>
        (beside mem_now)) q p in (Inr resp, p'),
     lcSendMsg = \<lambda>q w. (Inl (Err ''down''), w), lcMarkRead = \<lambda>_ w. (Inr (), w), lcReportDelivered = \<lambda>_ w. (Inr (), w),
     lcSyncPull = \<lambda>_ w. (Inl (Err ''down''), w), lcOnlineEvent = \<lambda>_ w. (Inr \<lparr>prConvs = []\<rparr>, w)\<rparr>"

definition demo_chain_comet :: "(mem \<times> mem acct) Comet" where
  "demo_chain_comet = NewComet ''10.0.0.1:9000'' None demo_chain
     (demo_wire\<lparr>unAuthReq := \<lambda>b. (\<lparr>aqToken = demo_token, aqDeviceId = ''d1'', aqPlatform = 1, aqUid = 7\<rparr>, None)\<rparr>)
     (\<lambda>w. (5, w)) (\<lambda>w. (5000, w)) (\<lambda>_ w. (Inr (), w)) (\<lambda>_ _ w. (Inr (), w)) (\<lambda>w. (0, w))"

definition demo_chain_start :: "(mem \<times> mem acct) comet" where
  "demo_chain_start = ServeWS demo_chain_comet (comet_init (demo_world [], demo_acct))"

lemma demo_account_verify:
  "\<exists>a. Verify (NewService (mysqlStore mem_mysql (map lower_char)) (redisTokenCache mem_redis) demo_tm demo_jwt demo_bcrypt mem_now) demo_token demo_acct
     = ((\<lparr>vrUID = 7, vrValid = True\<rparr>, None), a)"
  by (simp add: Verify_def Parse_def NewService_def ask_def demo_acct_def demo_world_def mem_now_def demo_jwt_def demo_token_def demo_tm_def NewTokenManager_def
      hmac_key_def redisTokenCache_def mem_redis_def mem_call_def parse_int_def parse_uint_def is_digit_def digit_val_def int64_iff)

lemma demo_verifier_ok:
  "\<exists>a. HTTPVerifier_Verify demo_verify 7 demo_token (w, demo_acct) = (Inr (7, True), (w, a))"
proof -
  obtain a where a: "Verify (NewService (mysqlStore mem_mysql (map lower_char)) (redisTokenCache mem_redis) demo_tm demo_jwt demo_bcrypt mem_now) demo_token demo_acct
     = ((\<lparr>vrUID = 7, vrValid = True\<rparr>, None), a)" using demo_account_verify by blast
  then show ?thesis
    by (simp add: HTTPVerifier_Verify_def demo_verify_def account_client_def account_exchange_def serve_verify handleVerify_def decodeBody_def
        account_handler_def NewHandler_def demo_wire_json_def writeJSON_def maxVerifyBody_def)
qed

lemma demo_chain_ok:
  "\<exists>p. lcVerifyToken demo_chain \<lparr>vtqUid = 7, vtqToken = demo_token\<rparr> (demo_world [], demo_acct) = (Inr \<lparr>vtrValid = True, vtrCode = 0, vtrUid = 7\<rparr>, p)"
proof -
  obtain a where a: "HTTPVerifier_Verify demo_verify 7 demo_token (demo_world [], demo_acct) = (Inr (7, True), (demo_world [], a))"
    using demo_verifier_ok by blast
  have g: "rGet (beside_redis mem_redis) k (demo_world [], demo_acct) = (Inl RedisNil, (demo_world [], demo_acct))" for k
    by (simp add: beside_redis_def beside_def mem_redis_def mem_call_def demo_world_def)
  have "demo_token \<noteq> []" by (simp add: demo_token_def)
  with a g show ?thesis
    by (simp add: demo_chain_def VerifyToken_def verifyTokenFlow_def verify_origin_def NewServer_def redisCache_def redis_get_def CodeOK_def
        split: prod.splits)
qed

lemma demo_chain_login:
  "cnAuthed (conn (read_round demo_chain_comet 0 (Inr (demo_auth 1)) demo_chain_start) 0)"
  "cnUid (conn (read_round demo_chain_comet 0 (Inr (demo_auth 1)) demo_chain_start) 0) = 7"
  "\<not> cnAuthed (conn demo_chain_start 0)" "coWorld demo_chain_start = (demo_world [], demo_acct)"
proof -
  obtain p where p: "lcVerifyToken demo_chain \<lparr>vtqUid = 7, vtqToken = demo_token\<rparr> (demo_world [], demo_acct) = (Inr \<lparr>vtrValid = True, vtrCode = 0, vtrUid = 7\<rparr>, p)"
    using demo_chain_ok by blast
  show start: "\<not> cnAuthed (conn demo_chain_start 0)" "coWorld demo_chain_start = (demo_world [], demo_acct)"
    by (simp_all add: demo_chain_start_def demo_chain_comet_def demo_comet_simps)
  let ?s = "Touch demo_chain_comet 0 demo_chain_start"
  have t: "\<not> cnAuthed (conn ?s 0)" "coWorld ?s = (demo_world [], demo_acct)"
    using start by (simp_all add: Touch_def outside_eq demo_chain_comet_def NewComet_def conn_upd_def)
  have "read_round demo_chain_comet 0 (Inr (demo_auth 1)) demo_chain_start =
      login demo_chain_comet 0 (demo_auth 1) 7 \<lparr>aqToken = demo_token, aqDeviceId = ''d1'', aqPlatform = 1, aqUid = 7\<rparr> (?s\<lparr>coWorld := p\<rparr>)"
    using t p by (simp add: read_round_def demo_login(2) handleAuth_def outside_eq)
      (simp add: demo_chain_comet_def NewComet_def)
  then show "cnAuthed (conn (read_round demo_chain_comet 0 (Inr (demo_auth 1)) demo_chain_start) 0)"
    "cnUid (conn (read_round demo_chain_comet 0 (Inr (demo_auth 1)) demo_chain_start) 0) = 7"
    using login_ident(1) [of demo_chain_comet 0 "demo_auth 1" 7 "\<lparr>aqToken = demo_token, aqDeviceId = ''d1'', aqPlatform = 1, aqUid = 7\<rparr>" "?s\<lparr>coWorld := p\<rparr>"]
    by (simp_all add: ident_def)
qed

lemma demo_chain_comet_read:
  "read_round (NewComet ''10.0.0.1:9000'' None demo_chain
     (demo_wire\<lparr>unAuthReq := \<lambda>b. (\<lparr>aqToken = demo_token, aqDeviceId = ''d1'', aqPlatform = 1, aqUid = 7\<rparr>, None)\<rparr>)
     (\<lambda>w. (5, w)) (\<lambda>w. (5000, w)) (\<lambda>_ w. (Inr (), w)) (\<lambda>_ _ w. (Inr (), w)) (\<lambda>w. (0, w))) 0 (Inr (demo_auth 1)) demo_chain_start =
   read_round demo_chain_comet 0 (Inr (demo_auth 1)) demo_chain_start"
  by (simp add: demo_chain_comet_def)

lemma demo_chain_verify:
  "lcVerifyToken demo_chain q p = (Inr resp, p') \<Longrightarrow> VerifyToken (NewServer (beside_redis mem_redis) (beside_mysql mem_mysql)
        \<lparr>eRead = \<lambda>p. (Inr [], p), eUnixNano = beside mem_now\<rparr> (\<lambda>m. beside (mem_kafka m))
        (HTTPVerifier_Verify (account_client ''http://account'' (account_handler mem_redis mem_mysql mem_now None demo_tm demo_jwt demo_bcrypt (map lower_char) (fst demo_wire_json))
           (fst (snd demo_wire_json)) (fst (snd (snd demo_wire_json))) (snd (snd (snd demo_wire_json))) (\<lambda>_. False)))
        \<lparr>ssPullMessages = \<lambda>u c a l p. (Inr ([], 0), p), ssPendingConvs = \<lambda>u p. (Inr [], p), ssMarkRead = \<lambda>u c q p. (Inr (), p)\<rparr>
        (beside mem_now)) q p = (resp, p')"
  by (auto simp: demo_chain_def demo_verify_def split: prod.splits)

end
