(* ===== verification/Spec2Isabelle.thy ===== *)
theory Spec2Isabelle
  imports StreamReader ClientSession DlqReplay Bench CometProcess JobProcess Pipeline Delivery SignIn
begin

text \<open>
  \<^bold>\<open>LinkIM: a verified model of the instant messaging backend.\<close>

  LinkIM is a Go system of four services that talk through gRPC, Redis, MySQL and Kafka.
  The \<^emph>\<open>account\<close> service (\<^verbatim>\<open>internal/account\<close>) registers users, issues and checks tokens and keeps the
  groups. \<^emph>\<open>Comet\<close> processes (\<^verbatim>\<open>internal/comet\<close>) hold the WebSocket connections: they read frames
  (\<^verbatim>\<open>pkg/protocol\<close>), log connections in, forward client requests to the \<^emph>\<open>logic\<close> service and push
  frames to devices. \<^emph>\<open>Logic\<close> (\<^verbatim>\<open>internal/logic\<close>) verifies tokens, accepts messages (idempotency key,
  relation check, sequence number, identifier, two Kafka topics) and answers offline synchronisation.
  The \<^emph>\<open>job\<close> workers (\<^verbatim>\<open>internal/job\<close>) consume the topics: one stores messages in 64 tables, one pushes
  them to the comets named by the route table in Redis, one follows membership changes, and one cleans
  the route table. \<^verbatim>\<open>scripts/wsclient.go\<close> is the command line client, \<^verbatim>\<open>scripts/dlqreplay\<close> puts dead
  letters back, \<^verbatim>\<open>scripts/bench\<close> generates load.

  \<^bold>\<open>Theories.\<close>
  \<^item> \<open>Prelude\<close>, \<open>GoStrings\<close>, \<open>Sha256\<close>: results, calls that change a world, lists, the strings, numbers and
    digests of Go's standard library that the program uses.
  \<^item> \<open>Frame\<close>, \<open>StreamReader\<close> (\<^verbatim>\<open>pkg/protocol\<close>, \<open>wsMessageReader\<close> of \<^verbatim>\<open>comet/server.go\<close>): the frame codec and
    reading frames from a byte stream cut at arbitrary places.
  \<^item> \<open>Snowflake\<close>, \<open>Conv\<close>, \<open>RedisKeys\<close>, \<open>Messages\<close>, \<open>Kafkax\<close>: identifiers, conversation ids and shards, the key
    space, the protobuf messages as records, the producer's headers.
  \<^item> \<open>Services\<close>: Redis, MySQL, Kafka and the clock as parameters, with the laws the program relies on (locale
    \<open>services\<close>) and an executable world that fails on demand.
  \<^item> \<open>Members\<close>, \<open>LogicDeps\<close>, \<open>SendMsg\<close>, \<open>LogicRpc\<close>, \<open>LogicToken\<close>, \<open>Sync\<close>, \<open>LogicProcess\<close>: \<^verbatim>\<open>internal/service\<close> and
    \<^verbatim>\<open>internal/logic\<close>, the last with all RPCs behind the interceptor.
  \<^item> \<open>Comet\<close>, \<open>CometRun\<close>: the access layer and its step relation.
  \<^item> \<open>Client\<close>, \<open>ClientSession\<close>: the command line client, its parts and its sessions as sequences of events.
    \<open>DlqReplay\<close>, \<open>Bench\<close>: the other two programs of \<^verbatim>\<open>scripts\<close>.
  \<^item> \<open>Startup\<close>: loading the configuration (\<^verbatim>\<open>pkg/conf\<close>), connecting (\<^verbatim>\<open>pkg/mysqlx\<close>, \<^verbatim>\<open>pkg/redisx\<close>), the logger.
  \<^item> \<open>JobStore\<close>, \<open>JobPush\<close>: the workers of \<^verbatim>\<open>internal/job\<close>.
  \<^item> \<open>Account\<close>, \<open>AccountHttp\<close>, \<open>AccountRun\<close>: users and tokens, the HTTP layer with the group handlers, and what
    the service guarantees.
  \<^item> \<open>Processes\<close>, \<open>CometProcess\<close>, \<open>JobProcess\<close>: the mains of \<^verbatim>\<open>cmd\<close>, what they build from the configuration, what
    ends them, the calls or rounds they run in any order and what they close (also \<open>NewProducer\<close> and
    \<open>NewReader\<close>).
  \<^item> \<open>Pipeline\<close>, \<open>Delivery\<close>, \<open>SignIn\<close>: services put together, sending with storing and synchronising, the push
    worker with the comets it calls, and the comet with the logic server and the account service behind
    it. Their properties stand in this theory.

  \<^bold>\<open>State and operations.\<close> A Go struct is a record with one field per field of the source, an operation a
  function of the same name on it; names that clash carry a prefix of their component. What a process
  shares with the outside (the stores, the clock, other services, the network) is a type parameter
  \<open>'w\<close>, the world; a call has type \<open>'w \<Rightarrow> 'a result \<times> 'w\<close>, so that every error return of the source is a
  branch of the model. Panics and endless waits are values of \<open>outcome\<close>. SQL statements are functions
  on the tables, a transaction is one statement. A handler runs as one step; timers, goroutines and
  other connections are separate steps of \<open>comet_step\<close>, in any order. 64-bit wrap-around is written out
  where a value can reach it (identifiers, sequence numbers, shards, word arithmetic of the codec and
  of SHA-256); other integers are \<open>int\<close>.

  \<^bold>\<open>What is shown.\<close> Sending: a message is stored and pushed exactly once however often it is resent, under
  any failure of Redis, MySQL and the network that Kafka does not report; every answer's effect is
  characterised. Transport: frames survive any segmentation; truncated ones are refused. Identifiers
  strictly increase and never collide between nodes. Comet: pushes reach the device they name and no
  other; nobody speaks as somebody else. Storing: nothing consumed is lost between the tables and the
  dead letter topic, stored rows never change, dead letters are put back. Synchronisation and the client's
  catch-up are complete and end; over a whole session of the client no cursor moves back. The route
  clean-up ends and removes dead entries only. Account: changes are authorised, the tables stay well
  formed, tokens live as long as they should. Processes: from start to end, whatever the order of calls
  and rounds, the logic server answers every call and keeps what the theorems about single calls assume,
  the account tables stay typed and change only as requests are entitled to, the message tables only
  grow, and a comet that leaves asks every device it can reach to reconnect. Across services: a message
  that was acknowledged is found by its receivers' synchronisation once stored, a message on the push
  topic arrives in the queues of its receiver's devices, and a connection's identity goes back to a token
  of the account service. Where the code does not do what it means to, the behaviour is proved as
  it is (a reconnecting device becomes unreachable, a redelivered message counts twice, a retried send
  is stored twice, a group of one panics).

  \<^bold>\<open>Interfaces.\<close> The locales state what is relied on of code outside the repository: \<open>services\<close> and
  \<open>timed_services\<close>, the clock \<open>ms_clock\<close>, readers, the stores of the workers (\<open>store_deps\<close>), the calls of
  the push worker (\<open>push_deps\<close>), cursors of SCAN (\<open>scan_services\<close>), bcrypt and JWT (\<open>account_deps\<close>), the topics of the
  replay (\<open>replay_deps\<close>), viper (\<open>viper_laws\<close>), the libraries a process starts from (\<open>hosting\<close>, \<open>job_host\<close>) and
  the random jitter (\<open>drain_laws\<close>). Each is interpreted on an executable instance, which the witnesses run; \<open>push_deps\<close> also on the comets of this
  development (\<open>cluster_deps\<close>). Writes that fail may or may not have happened.

  \<^bold>\<open>Loops.\<close> Loops over data are structural. Loops that wait for the outside are partial functions into
  \<open>option\<close> (the spin of the identifier generator, reading at least n bytes, the SCAN loop, the client's
  catch-up), each with a theorem that it returns. Loops driven by a channel or a socket take the list of
  what they receive. No fuel is used, except the number of frames to read in \<open>read_frames\<close>.

  \<^bold>\<open>Not modelled.\<close> Logging, metrics, tracing, message texts, contexts and deadlines other than as errors of
  calls; expiry of Redis keys and writes of other clients during one handler; flags, reflection and the
  metrics listener of the mains, whose HTTP and gRPC servers are the events they deliver; timers, goroutines and printing of the scripts, whose steps take the events as
  input; the SQL migrations; the generated gRPC and protobuf code, whose codec is a parameter; the
  JSON codec, bcrypt, JWT, viper, zap and the HTTP server and client of the Go ecosystem, which are
  parameters.
\<close>

section \<open>Properties that span the services\<close>



text \<open>
  C5: who is signed in. When a comet whose logic server asks the account service reads a frame that turns
  an unknown connection into an authenticated one, the connection's user is 0 or the token of that
  frame is one the account service's JWT library accepts, under its key, as an access token of exactly
  that user, also when the answer came from the logic server's cache. Assumed of the cache: what it
  says yes to is right so far, and the tokens in use differ in the first half of their digest.
\<close>

theorem signed_in_by_account:
  assumes "account_deps RA MA PA nowA stA B J" and "services R M P now st" and "json_agrees j ma render un" and "claims_fixed J"
    and "\<And>q p resp p'. lcVerifyToken L q p = (Inr resp, p') \<Longrightarrow>
      VerifyToken (NewServer (beside_redis R) (beside_mysql M) E (\<lambda>m. beside (P m))
        (HTTPVerifier_Verify (account_client addr (account_handler RA MA nowA producer tm J B C j) ma render un down)) Y (beside now)) q p = (resp, p')"
    and "\<And>p. sKeys (st (fst (snd (sec p)))) = sKeys (st (fst p))"
    and "digests_differ T" and "cached_yes_right (token_owner J tm) T (st (fst (coWorld s)))"
    and "\<And>frame req. res = Inr frame \<Longrightarrow> unAuthReq X (fBody frame) = (req, None) \<Longrightarrow> aqToken req \<in> T"
    and "\<not> cnAuthed (conn s c)" and "read_round (NewComet host rdb L X sec ms dial kick jitter) c res s = s'" and "cnAuthed (conn s' c)"
  shows "cnUid (conn s' c) = 0 \<or> (\<exists>frame req. res = Inr frame \<and> fCmd frame = CmdAuth \<and> unAuthReq X (fBody frame) = (req, None) \<and>
    access_token J tm (aqToken req) (cnUid (conn s' c)))"
proof -
  let ?S = "NewComet host rdb L X sec ms dial kick jitter"
  have S: "csCodec ?S = X" "csLogic ?S = L" "csNowSec ?S = sec" by (simp_all add: NewComet_def)
  show ?thesis
  proof (rule read_round_cases [OF NewComet_wired, where s = s and c = c and res = res])
    assume "quiet s (read_round ?S c res s)"
    from quiet_fields(4) [OF this] assms(10-12) show ?thesis by simp
  next
    fix frame w w' and req :: AuthReq and resp :: VerifyTokenResp
    assume a: "res = Inr frame" "fCmd frame = CmdAuth" "w = coWorld (Touch ?S c s)" "unAuthReq (csCodec ?S) (fBody frame) = (req, None)"
      "lcVerifyToken (csLogic ?S) \<lparr>vtqUid = aqUid req, vtqToken = aqToken req\<rparr> w = (Inr resp, w')" "vtrValid resp"
      "read_round ?S c res s = login ?S c frame (vtrUid resp) req ((Touch ?S c s)\<lparr>coWorld := w'\<rparr>)"
    have u: "cnUid (conn s' c) = vtrUid resp"
      using login_ident(1) [of ?S c frame "vtrUid resp" req "(Touch ?S c s)\<lparr>coWorld := w'\<rparr>"] a(7) assms(11) by (simp add: ident_def)
    have "w = snd (sec (coWorld s))" unfolding a(3) by (simp add: Touch_def outside_eq conn_upd_def S)
    then have "cached_yes_right (token_owner J tm) T (st (fst w))"
      using assms(6) [of "coWorld s"] assms(8) by (simp add: cached_yes_right_def)
    from verify_chain [OF assms(1-4,7) this _ assms(5) [OF a(5) [unfolded S]]] assms(9) [OF a(1) a(4) [unfolded S]] a(6)
    have "vtrUid resp \<noteq> 0 \<longrightarrow> access_token J tm (aqToken req) (vtrUid resp)" by simp
    with a(1,2,4) u S show ?thesis by auto
  qed
qed

theorem signed_in_by_account_witness:
  "\<exists>s'. read_round demo_chain_comet 0 (Inr (demo_auth 1)) demo_chain_start = s' \<and> cnUid (conn s' 0) = 7 \<and> access_token demo_jwt demo_tm demo_token 7"
proof -
  let ?s' = "read_round demo_chain_comet 0 (Inr (demo_auth 1)) demo_chain_start"
  have tok: "aqToken req \<in> {demo_token}" if "Inr (demo_auth 1) = (Inr frame :: Frame result)"
      "unAuthReq (demo_wire\<lparr>unAuthReq := \<lambda>b. (\<lparr>aqToken = demo_token, aqDeviceId = ''d1'', aqPlatform = 1, aqUid = 7\<rparr>, None)\<rparr>) (fBody frame) = (req, None)"
    for frame and req :: AuthReq using that by auto
  have "cnUid (conn ?s' 0) = 0 \<or> access_token demo_jwt demo_tm demo_token (cnUid (conn ?s' 0))"
    using signed_in_by_account [OF mema.account_deps_axioms mem.services_axioms demo_json_agrees demo_claims_fixed demo_chain_verify _ _ _ tok demo_chain_login(3)
        demo_chain_comet_read demo_chain_login(1)]
    by (auto simp: demo_chain_login digests_differ_def cached_yes_right_def demo_world_def mem_st_def)
  then show ?thesis by (simp add: demo_chain_login)
qed



end
